(* ===== verification/Go_Prelude.thy ===== *)
theory Go_Prelude
  imports Main "HOL-Library.Word" "HOL-Library.Signed_Division"
begin

text \<open>
  The vocabulary the component theories share: names for the Go types the sources use, the
  fragment of the \<^verbatim>\<open>strings\<close> package they call, and the lemma collections
  the component proofs are carried by.

  \<^item> A Go \<^verbatim>\<open>string\<close> or \<^verbatim>\<open>[]byte\<close> is a \<^typ>\<open>string\<close>: an Isabelle \<^typ>\<open>char\<close>
    is one byte, as a Go string element is.
  \<^item> A \<^verbatim>\<open>time.Duration\<close> and a \<^verbatim>\<open>time.Time\<close> are integers that count nanoseconds.
    Where a computation could leave the 64-bit range, a bounds lemma of the component says
    why it does not.
  \<^item> A ledger sequence is a \<^verbatim>\<open>uint32\<close> where the code computes with wrap-around
    (\<open>u32\<close>) and an \<^typ>\<open>int\<close> where the code uses \<^verbatim>\<open>int64\<close>.
\<close>

section \<open>Types of the Go sources\<close>

type_synonym duration = int
type_synonym instant = int
type_synonym u32 = "32 word"

abbreviation millisecond :: duration where
  "millisecond \<equiv> 1000000"

abbreviation second :: duration where
  "second \<equiv> 1000000000"

abbreviation minute :: duration where
  "minute \<equiv> 60 * second"

text \<open>
  \<open>invariant_intros\<close> collects the preservation lemmas of the components,
  \<open>handler_defs\<close> the definitions of operations that a proof unfolds.
\<close>

named_theorems invariant_intros
named_theorems handler_defs

section \<open>Integer division\<close>

text \<open>Go's division truncates towards zero; on non-negative operands that is \<open>div\<close>.\<close>

lemma sdiv_nonneg [simp]: "0 \<le> a \<Longrightarrow> 0 \<le> b \<Longrightarrow> a sdiv b = a div b" for a b :: int
  by (cases "a = 0"; cases "b = 0") (auto simp: signed_divide_int_def sgn_if)

section \<open>The strings package\<close>

definition is_digit :: "char \<Rightarrow> bool" where
  "is_digit c \<longleftrightarrow> 48 \<le> (of_char c :: nat) \<and> (of_char c :: nat) \<le> 57"

definition to_lower :: "char \<Rightarrow> char" where
  "to_lower c = (if 65 \<le> (of_char c :: nat) \<and> (of_char c :: nat) \<le> 90
     then char_of ((of_char c :: nat) + 32) else c)"

text \<open>
  \<^verbatim>\<open>strings.ToLower\<close>, for comparing the result with ASCII constants: the two runes outside
  ASCII whose lower case is an ASCII letter (U+212A and U+0130) are mapped, every other one is
  kept, so the result is an ASCII string exactly when Go's is, and then the same.
\<close>

fun ToLower :: "string \<Rightarrow> string" where
  "ToLower [] = []"
| "ToLower (c # s) =
     (if c = CHR 0xC4 \<and> take 1 s = [CHR 0xB0] then CHR ''i'' # ToLower (drop 1 s)
      else if c = CHR 0xE2 \<and> take 2 s = [CHR 0x84, CHR 0xAA] then CHR ''k'' # ToLower (drop 2 s)
      else to_lower c # ToLower s)"

text \<open>\<^verbatim>\<open>strings.TrimSpace\<close>; \<open>space_runes\<close> are the UTF-8 encodings of the runes that
  \<^verbatim>\<open>unicode.IsSpace\<close> accepts.\<close>

definition space_runes :: "string list" where
  "space_runes =
     [[CHR 0x09], [CHR 0x0A], [CHR 0x0B], [CHR 0x0C], [CHR 0x0D], [CHR 0x20],
      [CHR 0xC2, CHR 0x85], [CHR 0xC2, CHR 0xA0], [CHR 0xE1, CHR 0x9A, CHR 0x80],
      [CHR 0xE2, CHR 0x80, CHR 0x80], [CHR 0xE2, CHR 0x80, CHR 0x81],
      [CHR 0xE2, CHR 0x80, CHR 0x82], [CHR 0xE2, CHR 0x80, CHR 0x83],
      [CHR 0xE2, CHR 0x80, CHR 0x84], [CHR 0xE2, CHR 0x80, CHR 0x85],
      [CHR 0xE2, CHR 0x80, CHR 0x86], [CHR 0xE2, CHR 0x80, CHR 0x87],
      [CHR 0xE2, CHR 0x80, CHR 0x88], [CHR 0xE2, CHR 0x80, CHR 0x89],
      [CHR 0xE2, CHR 0x80, CHR 0x8A], [CHR 0xE2, CHR 0x80, CHR 0xA8],
      [CHR 0xE2, CHR 0x80, CHR 0xA9], [CHR 0xE2, CHR 0x80, CHR 0xAF],
      [CHR 0xE2, CHR 0x81, CHR 0x9F], [CHR 0xE3, CHR 0x80, CHR 0x80]]"

function trim_left :: "string list \<Rightarrow> string \<Rightarrow> string" where
  "trim_left runes s =
     (case find (\<lambda>r. r \<noteq> [] \<and> take (length r) s = r) runes of
        None \<Rightarrow> s
      | Some r \<Rightarrow> trim_left runes (drop (length r) s))"
  by pat_completeness auto
termination
proof (relation "measure (\<lambda>(runes, s). length s)", goal_cases)
  case (2 runes s r)
  then have "r \<noteq> []" "take (length r) s = r" by (auto simp: find_Some_iff)
  then show ?case by (cases s) auto
qed simp

declare trim_left.simps [simp del]

definition TrimSpace :: "string \<Rightarrow> string" where
  "TrimSpace s = rev (trim_left (map rev space_runes) (rev (trim_left space_runes s)))"

text \<open>\<^verbatim>\<open>strings.IndexByte\<close> and \<^verbatim>\<open>strings.LastIndex\<close> for a one-byte separator;
  \<^const>\<open>None\<close> is the result -1.\<close>

fun IndexByte :: "string \<Rightarrow> char \<Rightarrow> nat option" where
  "IndexByte [] c = None"
| "IndexByte (x # xs) c = (if x = c then Some 0 else map_option Suc (IndexByte xs c))"

definition LastIndex :: "string \<Rightarrow> char \<Rightarrow> nat option" where
  "LastIndex s c = map_option (\<lambda>i. length s - Suc i) (IndexByte (rev s) c)"

text \<open>\<^verbatim>\<open>strings.Split\<close> at a one-byte separator: never empty.\<close>

fun Split :: "string \<Rightarrow> char \<Rightarrow> string list" where
  "Split [] c = [[]]"
| "Split (x # xs) c =
     (if x = c then [] # Split xs c
      else case Split xs c of [] \<Rightarrow> [[x]] | p # ps \<Rightarrow> (x # p) # ps)"

text \<open>\<^verbatim>\<open>strings.HasPrefix\<close> and \<^verbatim>\<open>strings.Contains\<close>.\<close>

fun HasPrefix :: "string \<Rightarrow> string \<Rightarrow> bool" where
  "HasPrefix s [] \<longleftrightarrow> True"
| "HasPrefix [] (y # ys) \<longleftrightarrow> False"
| "HasPrefix (x # xs) (y # ys) \<longleftrightarrow> x = y \<and> HasPrefix xs ys"

fun Contains :: "string \<Rightarrow> string \<Rightarrow> bool" where
  "Contains [] p \<longleftrightarrow> p = []"
| "Contains (x # xs) p \<longleftrightarrow> HasPrefix (x # xs) p \<or> Contains xs p"

section \<open>Lemmas on the string functions\<close>

lemma IndexByte_None [simp]: "IndexByte s c = None \<longleftrightarrow> c \<notin> set s"
  by (induction s) auto

lemma IndexByte_append:
  "IndexByte (xs @ ys) c =
     (if c \<in> set xs then IndexByte xs c else map_option (\<lambda>i. length xs + i) (IndexByte ys c))"
proof (induction xs)
  case Nil
  have "(+) 0 = (id :: nat \<Rightarrow> nat)" by (simp add: fun_eq_iff)
  then show ?case by (simp add: option.map_id)
next
  case (Cons x xs)
  then show ?case by (auto simp: option.map_comp o_def)
qed

lemma IndexByte_split:
  "IndexByte s c = Some i \<Longrightarrow> i < length s \<and> s ! i = c \<and> c \<notin> set (take i s)"
proof (induction s arbitrary: i)
  case (Cons x xs)
  then show ?case by (cases i) (auto split: if_splits)
qed simp

lemma IndexByte_snoc [simp]: "c \<notin> set xs \<Longrightarrow> IndexByte (xs @ c # ys) c = Some (length xs)"
  by (simp add: IndexByte_append)

lemma LastIndex_append [simp]:
  "c \<notin> set ys \<Longrightarrow> LastIndex (xs @ c # ys) c = Some (length xs)"
  by (simp add: LastIndex_def IndexByte_append)

lemma LastIndex_None [simp]: "LastIndex s c = None \<longleftrightarrow> c \<notin> set s"
  by (simp add: LastIndex_def)

lemma LastIndex_Some_less: "LastIndex s c = Some i \<Longrightarrow> i < length s"
  by (auto simp: LastIndex_def dest!: IndexByte_split)

lemma LastIndex_last: "LastIndex s c = Some i \<Longrightarrow> c \<notin> set (drop (Suc i) s)"
proof -
  assume "LastIndex s c = Some i"
  then obtain j where j: "IndexByte (rev s) c = Some j" "i = length s - Suc j"
    by (auto simp: LastIndex_def)
  have "j < length s" using IndexByte_split [OF j(1)] by simp
  then have "drop (Suc i) s = rev (take j (rev s))" by (simp add: j(2) take_rev Suc_diff_Suc)
  then show ?thesis using IndexByte_split [OF j(1)] by simp
qed

lemma Split_not_Nil [simp]: "Split s c \<noteq> []"
  by (induction s) (auto split: list.splits)

lemma Split_no_sep [simp]: "c \<notin> set s \<Longrightarrow> Split s c = [s]"
  by (induction s) auto

lemma Split_append [simp]: "c \<notin> set xs \<Longrightarrow> Split (xs @ c # ys) c = xs # Split ys c"
  by (induction xs) auto

lemma Split_parts_no_sep: "p \<in> set (Split s c) \<Longrightarrow> c \<notin> set p"
proof (induction s arbitrary: p)
  case (Cons x xs)
  obtain q qs where q: "Split xs c = q # qs"
    by (cases "Split xs c") auto
  with Cons.prems Cons.IH show ?case by (auto split: if_splits)
qed simp

lemma Contains_singleton [simp]: "Contains s [c] \<longleftrightarrow> c \<in> set s"
  by (induction s) auto

lemma is_digit_not: "is_digit c \<Longrightarrow> c \<noteq> CHR ''-'' \<and> c \<noteq> CHR ''|'' \<and> c \<noteq> CHR ''.''"
  by (auto simp: is_digit_def)

end
