(* ===== verification/Breaker_Spec.thy ===== *)
theory Breaker_Spec
  imports Go_Prelude
begin

text \<open>
  The contract of a circuit breaker, shared by the breaker in front of the Stellar RPC
  (\<^verbatim>\<open>internal/rpc/circuit_breaker.go\<close>) and the one in front of the database
  (\<^verbatim>\<open>internal/store/breaker.go\<close>). Every operation of either breaker runs under its mutex,
  so a concurrent execution is some sequence of the operations; the lemmas are about every
  such sequence.
\<close>

datatype phase = Closed | Open | HalfOpen

text \<open>One locked operation: a request asks for admission at a time, or a finished request
  reports whether it succeeded. The first flag of a report says whether the request was
  admitted as the probe.\<close>

datatype breaker_op = Ask instant | Report instant bool bool

fun failures :: "breaker_op list \<Rightarrow> nat" where
  "failures [] = 0"
| "failures (Ask t # ops) = failures ops"
| "failures (Report t p ok # ops) = (if ok then 0 else 1) + failures ops"

fun outage :: "breaker_op list \<Rightarrow> bool" where
  "outage [] \<longleftrightarrow> True"
| "outage (Ask t # ops) \<longleftrightarrow> outage ops"
| "outage (Report t p ok # ops) \<longleftrightarrow> \<not> ok \<and> outage ops"

text \<open>Running a sequence of operations on a breaker given by its \<open>allow\<close> and \<open>report\<close>, and
  how many requests it lets through.\<close>

fun exec :: "(instant \<Rightarrow> 's \<Rightarrow> bool \<times> 's) \<Rightarrow> (instant \<Rightarrow> bool \<Rightarrow> bool \<Rightarrow> 's \<Rightarrow> 's) \<Rightarrow>
    breaker_op list \<Rightarrow> 's \<Rightarrow> 's" where
  "exec allow report [] s = s"
| "exec allow report (Ask t # ops) s = exec allow report ops (snd (allow t s))"
| "exec allow report (Report t p ok # ops) s = exec allow report ops (report t p ok s)"

fun admitted :: "(instant \<Rightarrow> 's \<Rightarrow> bool \<times> 's) \<Rightarrow> (instant \<Rightarrow> bool \<Rightarrow> bool \<Rightarrow> 's \<Rightarrow> 's) \<Rightarrow>
    breaker_op list \<Rightarrow> 's \<Rightarrow> nat" where
  "admitted allow report [] s = 0"
| "admitted allow report (Ask t # ops) s =
     (if fst (allow t s) then 1 else 0) + admitted allow report ops (snd (allow t s))"
| "admitted allow report (Report t p ok # ops) s = admitted allow report ops (report t p ok s)"

locale circuit_gate =
  fixes allow :: "instant \<Rightarrow> 's \<Rightarrow> bool \<times> 's"
    and report :: "instant \<Rightarrow> bool \<Rightarrow> bool \<Rightarrow> 's \<Rightarrow> 's"
    and phase :: "'s \<Rightarrow> phase"
    and may_probe :: "instant \<Rightarrow> 's \<Rightarrow> bool"
    and inv :: "'s \<Rightarrow> bool"
  assumes inv_allow: "inv s \<Longrightarrow> inv (snd (allow t s))"
    and inv_report: "inv s \<Longrightarrow> inv (report t p ok s)"
    and closed_admits: "phase s = Closed \<Longrightarrow> allow t s = (True, s)"
    and open_waits: "phase s = Open \<Longrightarrow> \<not> may_probe t s \<Longrightarrow> allow t s = (False, s)"
    and open_probes: "phase s = Open \<Longrightarrow> may_probe t s \<Longrightarrow>
          fst (allow t s) \<and> phase (snd (allow t s)) = HalfOpen"
    and half_rejects: "inv s \<Longrightarrow> phase s = HalfOpen \<Longrightarrow> allow t s = (False, s)"
    and success_closes: "phase (report t p True s) = Closed"
    and failure_keeps_shut: "phase s \<noteq> Closed \<Longrightarrow> phase (report t p False s) \<noteq> Closed"
begin

lemma exec_inv: "inv s \<Longrightarrow> inv (exec allow report ops s)"
proof (induction ops arbitrary: s)
  case (Cons a ops)
  then show ?case by (cases a) (simp_all add: inv_allow inv_report)
qed simp

lemma allow_shut: "inv s \<Longrightarrow> phase s \<noteq> Closed \<Longrightarrow> phase (snd (allow t s)) \<noteq> Closed"
  by (cases "phase s"; cases "may_probe t s") (auto simp: open_waits open_probes half_rejects)

lemma shut_until_success:
  "inv s \<Longrightarrow> phase s \<noteq> Closed \<Longrightarrow> outage ops \<Longrightarrow> phase (exec allow report ops s) \<noteq> Closed"
proof (induction ops arbitrary: s)
  case (Cons a ops)
  then show ?case
    by (cases a) (simp_all add: inv_allow inv_report allow_shut failure_keeps_shut)
qed simp

text \<open>
  During an outage the breaker is a bounded gate: besides one first probe, another request
  gets through only after the failure of one that is already out.
\<close>

lemma admitted_ask:
  assumes "inv s" "phase s \<noteq> Closed"
    and rest: "admitted allow report ops (snd (allow t s)) \<le> n +
      (if phase (snd (allow t s)) = Open then 1 else 0)"
  shows "admitted allow report (Ask t # ops) s \<le> n + (if phase s = Open then 1 else 0)"
proof (cases "phase s")
  case Open
  with rest show ?thesis
    by (cases "may_probe t s") (auto simp: open_waits dest: open_probes)
qed (use assms in \<open>simp_all add: half_rejects\<close>)

lemma admitted_bound:
  assumes "inv s" "phase s \<noteq> Closed" "outage ops"
  shows "admitted allow report ops s \<le> failures ops + (if phase s = Open then 1 else 0)"
  using assms
proof (induction ops arbitrary: s)
  case (Cons a ops)
  show ?case
  proof (cases a)
    case (Ask t)
    with Cons have "admitted allow report ops (snd (allow t s)) \<le> failures ops +
        (if phase (snd (allow t s)) = Open then 1 else 0)"
      by (simp add: inv_allow allow_shut)
    from admitted_ask [OF Cons.prems(1,2) this] Ask show ?thesis by simp
  next
    case (Report t p ok)
    with Cons have "admitted allow report ops (report t p False s) \<le> failures ops +
        (if phase (report t p False s) = Open then 1 else 0)"
      by (simp add: inv_report failure_keeps_shut)
    also have "\<dots> \<le> failures (a # ops)"
      using Report Cons.prems by simp
    finally show ?thesis using Report Cons.prems by simp
  qed
qed simp

lemma probe_is_exclusive:
  "inv s \<Longrightarrow> phase s = HalfOpen \<Longrightarrow> admitted allow report (map Ask ts) s = 0 \<and> exec allow report (map Ask ts) s = s"
  by (induction ts) (auto simp: half_rejects)

end

end
