(* ===== verification/Rpc_Breaker.thy ===== *)
theory Rpc_Breaker
  imports Breaker_Spec
begin

text \<open>
  The circuit breaker of the RPC client, \<^verbatim>\<open>internal/rpc/circuit_breaker.go\<close>, and the
  client that consults it, \<^verbatim>\<open>internal/rpc/circuit_breaker_client.go\<close>. Wall-clock reads
  (\<^verbatim>\<open>time.Now\<close>, \<^verbatim>\<open>time.Since\<close>) are a time argument. Logging and the state gauge are not
  modelled.
\<close>

section \<open>State\<close>

datatype breaker_state = BreakerClosed | BreakerOpen | BreakerHalfOpen

fun breaker_state_String :: "breaker_state \<Rightarrow> string" where
  "breaker_state_String BreakerClosed = ''closed''"
| "breaker_state_String BreakerOpen = ''open''"
| "breaker_state_String BreakerHalfOpen = ''half-open''"

record cb_config =
  FailureThreshold :: int
  ProbeTimeout :: duration

record circuit_breaker =
  cb_conf :: cb_config
  cb_state :: breaker_state
  consecutiveFail :: int
  lastOpenTime :: instant

text \<open>\<^verbatim>\<open>NewCircuitBreaker\<close>: non-positive settings take their defaults. The zero
  \<^verbatim>\<open>time.Time\<close> of \<^verbatim>\<open>lastOpenTime\<close> is read only after \<^verbatim>\<open>setState\<close> overwrote it.\<close>

definition NewCircuitBreaker :: "cb_config \<Rightarrow> circuit_breaker" where
  "NewCircuitBreaker c =
     (let c = (if FailureThreshold c \<le> 0 then c\<lparr>FailureThreshold := 5\<rparr> else c);
          c = (if ProbeTimeout c \<le> 0 then c\<lparr>ProbeTimeout := 30 * second\<rparr> else c)
      in \<lparr>cb_conf = c, cb_state = BreakerClosed, consecutiveFail = 0, lastOpenTime = 0\<rparr>)"

section \<open>Operations\<close>

definition cb_setState :: "instant \<Rightarrow> breaker_state \<Rightarrow> circuit_breaker \<Rightarrow> circuit_breaker" where
  "cb_setState now s cb =
     (if cb_state cb \<noteq> s then
        (let cb = cb\<lparr>cb_state := s\<rparr>
         in if s = BreakerOpen then cb\<lparr>lastOpenTime := now\<rparr> else cb)
      else cb)"

definition cb_Allow :: "instant \<Rightarrow> circuit_breaker \<Rightarrow> bool \<times> circuit_breaker" where
  "cb_Allow now cb =
     (case cb_state cb of
        BreakerClosed \<Rightarrow> (True, cb)
      | BreakerOpen \<Rightarrow>
          if now - lastOpenTime cb \<ge> ProbeTimeout (cb_conf cb)
          then (True, cb_setState now BreakerHalfOpen cb)
          else (False, cb)
      | BreakerHalfOpen \<Rightarrow> (False, cb))"

definition cb_RecordSuccess :: "instant \<Rightarrow> circuit_breaker \<Rightarrow> circuit_breaker" where
  "cb_RecordSuccess now cb = cb_setState now BreakerClosed (cb\<lparr>consecutiveFail := 0\<rparr>)"

definition cb_RecordFailure :: "instant \<Rightarrow> circuit_breaker \<Rightarrow> circuit_breaker" where
  "cb_RecordFailure now cb =
     (let cb = cb\<lparr>consecutiveFail := consecutiveFail cb + 1\<rparr>
      in if cb_state cb = BreakerHalfOpen then cb_setState now BreakerOpen cb
         else if consecutiveFail cb \<ge> FailureThreshold (cb_conf cb)
         then cb_setState now BreakerOpen cb
         else cb)"

record breaker_stats =
  st_State :: breaker_state
  st_ConsecutiveFailures :: int
  st_FailureThreshold :: int
  st_ProbeTimeout :: duration

definition cb_Stats :: "circuit_breaker option \<Rightarrow> breaker_stats" where
  "cb_Stats p = (case p of
     None \<Rightarrow> \<lparr>st_State = BreakerClosed, st_ConsecutiveFailures = 0,
              st_FailureThreshold = 0, st_ProbeTimeout = 0\<rparr>
   | Some cb \<Rightarrow> \<lparr>st_State = cb_state cb, st_ConsecutiveFailures = consecutiveFail cb,
              st_FailureThreshold = FailureThreshold (cb_conf cb),
              st_ProbeTimeout = ProbeTimeout (cb_conf cb)\<rparr>)"

section \<open>The client\<close>

text \<open>
  Every method of \<^verbatim>\<open>CircuitBreakerClient\<close> has the same body around a different inner
  method. A Go result pair is a value and an optional error; \<open>zero\<close> is the zero value the
  method returns with \<^verbatim>\<open>ErrCircuitOpen\<close>. The inner client and its world are parameters.
\<close>

datatype 'e cb_error = ErrCircuitOpen | InnerError 'e

type_synonym ('w, 'a, 'e) inner_call = "'w \<Rightarrow> ('a \<times> 'e option) \<times> 'w"

definition cb_client_call ::
  "'a \<Rightarrow> ('w, 'a, 'e) inner_call \<Rightarrow> instant \<Rightarrow> instant \<Rightarrow> circuit_breaker option \<Rightarrow> 'w \<Rightarrow>
     ('a \<times> 'e cb_error option) \<times> circuit_breaker option \<times> 'w" where
  "cb_client_call zero inner t0 t1 br w =
     (case br of
        None \<Rightarrow> (let ((resp, err), w) = inner w in ((resp, map_option InnerError err), None, w))
      | Some cb \<Rightarrow>
          (case cb_Allow t0 cb of
             (False, cb) \<Rightarrow> ((zero, Some ErrCircuitOpen), Some cb, w)
           | (True, cb) \<Rightarrow>
               (let ((resp, err), w) = inner w;
                    cb = (case err of Some e \<Rightarrow> cb_RecordFailure t1 cb
                                    | None \<Rightarrow> cb_RecordSuccess t1 cb)
                in ((resp, map_option InnerError err), Some cb, w))))"

section \<open>Invariant\<close>

text \<open>The breaker is closed exactly while the run of failures is below the threshold.\<close>

definition cb_inv :: "circuit_breaker \<Rightarrow> bool" where
  "cb_inv cb \<longleftrightarrow> FailureThreshold (cb_conf cb) > 0 \<and> ProbeTimeout (cb_conf cb) > 0 \<and>
     consecutiveFail cb \<ge> 0 \<and>
     (cb_state cb = BreakerClosed \<longleftrightarrow> consecutiveFail cb < FailureThreshold (cb_conf cb))"

lemmas cb_ops = cb_Allow_def cb_RecordSuccess_def cb_RecordFailure_def cb_setState_def Let_def

declare cb_ops [handler_defs]

lemma NewCircuitBreaker_inv [invariant_intros]: "cb_inv (NewCircuitBreaker c)"
  by (simp add: cb_inv_def NewCircuitBreaker_def Let_def)

lemma cb_Allow_inv [invariant_intros]: "cb_inv cb \<Longrightarrow> cb_inv (snd (cb_Allow t cb))"
  by (auto simp: cb_inv_def cb_ops split: breaker_state.splits)

lemma cb_RecordSuccess_inv [invariant_intros]: "cb_inv cb \<Longrightarrow> cb_inv (cb_RecordSuccess t cb)"
  by (auto simp: cb_inv_def cb_ops)

lemma cb_RecordFailure_inv [invariant_intros]: "cb_inv cb \<Longrightarrow> cb_inv (cb_RecordFailure t cb)"
  by (cases "cb_state cb") (auto simp: cb_inv_def cb_ops)

section \<open>The breaker contract\<close>

fun cb_phase :: "breaker_state \<Rightarrow> phase" where
  "cb_phase BreakerClosed = Closed"
| "cb_phase BreakerOpen = Open"
| "cb_phase BreakerHalfOpen = HalfOpen"

definition cb_report :: "instant \<Rightarrow> bool \<Rightarrow> bool \<Rightarrow> circuit_breaker \<Rightarrow> circuit_breaker" where
  "cb_report t probe ok cb = (if ok then cb_RecordSuccess t cb else cb_RecordFailure t cb)"

definition cb_may_probe :: "instant \<Rightarrow> circuit_breaker \<Rightarrow> bool" where
  "cb_may_probe t cb \<longleftrightarrow> t - lastOpenTime cb \<ge> ProbeTimeout (cb_conf cb)"

interpretation rpcb: circuit_gate cb_Allow cb_report "\<lambda>cb. cb_phase (cb_state cb)" cb_may_probe cb_inv
proof (unfold_locales, goal_cases)
  case (1 s t) then show ?case by (rule cb_Allow_inv)
next
  case (2 s t p ok) then show ?case
    by (simp add: cb_report_def cb_RecordSuccess_inv cb_RecordFailure_inv)
next
  case (8 s t p) then show ?case
    by (cases "cb_state s") (auto simp: cb_report_def cb_ops)
qed (auto simp: cb_ops cb_report_def cb_may_probe_def split: breaker_state.splits)

section \<open>Properties\<close>

lemma cb_RecordFailure_closed:
  "cb_state cb = BreakerClosed \<Longrightarrow> cb_RecordFailure t cb =
     (if consecutiveFail cb + 1 < FailureThreshold (cb_conf cb)
      then cb\<lparr>consecutiveFail := consecutiveFail cb + 1\<rparr>
      else cb\<lparr>cb_state := BreakerOpen, consecutiveFail := consecutiveFail cb + 1, lastOpenTime := t\<rparr>)"
  by (simp add: cb_ops)

lemma cb_RecordFailure_open:
  "cb_state cb = BreakerOpen \<Longrightarrow> cb_RecordFailure t cb = cb\<lparr>consecutiveFail := consecutiveFail cb + 1\<rparr>"
  by (simp add: cb_ops)

lemma fold_failures:
  assumes "cb_state cb = (if consecutiveFail cb < FailureThreshold (cb_conf cb)
      then BreakerClosed else BreakerOpen)"
  shows "cb_state (fold cb_RecordFailure ts cb) =
     (if consecutiveFail cb + int (length ts) < FailureThreshold (cb_conf cb)
      then BreakerClosed else BreakerOpen)"
  using assms
proof (induction ts arbitrary: cb)
  case (Cons t ts)
  show ?case
  proof (cases "cb_state cb")
    case BreakerClosed
    with Cons show ?thesis
      by (simp add: cb_RecordFailure_closed split: if_splits)
  next
    case BreakerOpen
    with Cons show ?thesis
      by (simp add: cb_RecordFailure_open split: if_splits)
  next
    case BreakerHalfOpen
    with Cons.prems show ?thesis by (simp split: if_splits)
  qed
qed simp

text \<open>A new RPC breaker stays closed through every run of consecutive failures shorter than
  its threshold and is open from the failure that reaches the threshold on.\<close>

lemma cb_opens_at_threshold:
  "cb_state (fold cb_RecordFailure ts (NewCircuitBreaker c)) =
     (if int (length ts) < FailureThreshold (cb_conf (NewCircuitBreaker c))
      then BreakerClosed else BreakerOpen)"
proof -
  have "consecutiveFail (NewCircuitBreaker c) = 0"
    by (simp add: NewCircuitBreaker_def Let_def)
  moreover have "cb_state (NewCircuitBreaker c) =
      (if consecutiveFail (NewCircuitBreaker c) < FailureThreshold (cb_conf (NewCircuitBreaker c))
       then BreakerClosed else BreakerOpen)"
    using NewCircuitBreaker_inv [of c] by (simp add: cb_inv_def NewCircuitBreaker_def Let_def)
  ultimately show ?thesis by (simp add: fold_failures)
qed

text \<open>C17. Once the RPC breaker has left the closed state, by whatever history of admissions and
  reports, then for as long as no request succeeds it stays shut and lets at most one request
  through besides one for each reported failure, however the admissions and reports of
  concurrent requests interleave.\<close>

theorem cb_outage_bound:
  fixes c :: cb_config and hist :: "breaker_op list"
  defines "cb \<equiv> exec cb_Allow cb_report hist (NewCircuitBreaker c)"
  assumes "cb_state cb \<noteq> BreakerClosed" and "outage ops"
  shows "admitted cb_Allow cb_report ops cb \<le> failures ops + 1 \<and>
    cb_state (exec cb_Allow cb_report ops cb) \<noteq> BreakerClosed"
proof -
  have inv: "cb_inv cb"
    unfolding cb_def by (intro rpcb.exec_inv NewCircuitBreaker_inv)
  have shut: "cb_phase (cb_state cb) \<noteq> Closed"
    using assms(2) by (cases "cb_state cb") auto
  show ?thesis
    using rpcb.admitted_bound [OF inv shut assms(3)] rpcb.shut_until_success [OF inv shut assms(3)]
    by (auto split: if_splits)
qed

theorem cb_outage_bound_witness:
  "let cb = exec cb_Allow cb_report [Report 100 False False]
              (NewCircuitBreaker \<lparr>FailureThreshold = 1, ProbeTimeout = 10\<rparr>);
       ops = [Ask 105, Ask 110, Ask 111, Report 115 True False, Ask 116, Ask 130]
   in cb_state cb = BreakerOpen \<and> outage ops \<and> failures ops = 1 \<and>
      admitted cb_Allow cb_report ops cb = 2 \<and>
      admitted cb_Allow cb_report ops cb \<le> failures ops + 1"
  using cb_outage_bound [of "[Report 100 False False]"
      "\<lparr>FailureThreshold = 1, ProbeTimeout = 10\<rparr>"
      "[Ask 105, Ask 110, Ask 111, Report 115 True False, Ask 116, Ask 130]"]
  by (simp add: cb_ops cb_report_def NewCircuitBreaker_def)

text \<open>C31. A request through the breaker client while the RPC breaker is open: before the probe
  timeout it fails with \<^verbatim>\<open>ErrCircuitOpen\<close> without a call to the inner client, whose world and
  the breaker are left as they were. After the timeout the inner client is called; its success
  closes the breaker with the failure count reset, its error is passed on and reopens the
  breaker with a new probe deadline.\<close>

theorem cb_client_open:
  assumes "cb_state cb = BreakerOpen"
  shows "cb_client_call zero inner t0 t1 (Some cb) w =
     (if t0 - lastOpenTime cb < ProbeTimeout (cb_conf cb)
      then ((zero, Some ErrCircuitOpen), Some cb, w)
      else case inner w of
        ((resp, None), w') \<Rightarrow>
          ((resp, None), Some (cb\<lparr>cb_state := BreakerClosed, consecutiveFail := 0\<rparr>), w')
      | ((resp, Some e), w') \<Rightarrow>
          ((resp, Some (InnerError e)),
           Some (cb\<lparr>cb_state := BreakerOpen, consecutiveFail := consecutiveFail cb + 1,
                     lastOpenTime := t1\<rparr>), w'))"
  using assms by (auto simp: cb_client_call_def cb_ops split: prod.splits option.splits)

theorem cb_client_open_witness:
  "let cb = \<lparr>cb_conf = \<lparr>FailureThreshold = 2, ProbeTimeout = 10\<rparr>, cb_state = BreakerOpen,
             consecutiveFail = 2, lastOpenTime = 100\<rparr>;
       inner = (\<lambda>w. ((w, None), w + 1)) :: (nat, nat, string) inner_call
   in cb_client_call 0 inner 105 106 (Some cb) 7 = ((0, Some ErrCircuitOpen), Some cb, 7) \<and>
      cb_client_call 0 inner 110 111 (Some cb) 7 =
        ((7, None), Some (cb\<lparr>cb_state := BreakerClosed, consecutiveFail := 0\<rparr>), 8)"
  by (simp add: cb_client_open)

end
