(* ===== verification/Rpc_Types.thy ===== *)
theory Rpc_Types
  imports Go_Prelude
begin

text \<open>
  The data exchanged with the RPC provider, \<^verbatim>\<open>internal/rpc/types.go\<close>, and the errors of a
  client the ingester tells apart, \<^verbatim>\<open>internal/rpc/client.go\<close> and \<^verbatim>\<open>internal/rpc/failover.go\<close>.
  A nil slice is \<^const>\<open>None\<close> where the code distinguishes it from an empty one. An error is what
  \<^verbatim>\<open>errors.As\<close> and \<^verbatim>\<open>errors.Is\<close> find in its chain: a JSON-RPC error with its message and
  data, the re-anchor sentinel, or anything else.
\<close>

record rpc_filter =
  rf_Type :: string
  rf_ContractIDs :: "string list"
  rf_Topics :: "string list list"

abbreviation MaxFiltersPerRequest :: nat where "MaxFiltersPerRequest \<equiv> 5"
abbreviation MaxContractIDsPerFilter :: nat where "MaxContractIDsPerFilter \<equiv> 5"

record get_events_request =
  rq_StartLedger :: u32
  rq_EndLedger :: u32
  rq_Filters :: "rpc_filter list"
  rq_Cursor :: string
  rq_Limit :: nat

record rpc_event =
  re_ID :: string
  re_PagingToken :: string
  re_Type :: string
  re_Ledger :: u32
  re_LedgerClosedAt :: string
  re_ContractID :: string
  re_TxHash :: string
  re_TransactionIndex :: int
  re_OperationIndex :: int
  re_InSuccessfulContractCall :: bool
  re_Topic :: "string list"
  re_Value :: string
  re_TopicJSON :: "string list option"
  re_ValueJSON :: "string option"

definition CursorValue :: "rpc_event \<Rightarrow> string" where
  "CursorValue e = (if re_PagingToken e \<noteq> [] then re_PagingToken e else re_ID e)"

record get_events_response =
  rs_Events :: "rpc_event list"
  rs_LatestLedger :: u32
  rs_OldestLedger :: u32
  rs_Cursor :: string

record health =
  h_LatestLedger :: u32
  h_OldestLedger :: u32

datatype rpc_error = RpcError string string | ErrFailoverReanchor | RpcFailure string

definition IsLedgerOutOfRange :: "rpc_error \<Rightarrow> bool" where
  "IsLedgerOutOfRange err =
     (case err of
        RpcError message payload \<Rightarrow>
          let msg = ToLower (message @ '' '' @ payload)
          in Contains msg ''ledger range'' \<or> Contains msg ''outside of retention window''
             \<or> Contains msg ''must be within''
      | _ \<Rightarrow> False)"

definition IsFailoverReanchor :: "rpc_error \<Rightarrow> bool" where
  "IsFailoverReanchor err \<longleftrightarrow> err = ErrFailoverReanchor"

text \<open>An event with every field at its zero value, for building concrete ones.\<close>

definition zero_rpc_event :: rpc_event where
  "zero_rpc_event = \<lparr>re_ID = [], re_PagingToken = [], re_Type = [], re_Ledger = 0, re_LedgerClosedAt = [],
     re_ContractID = [], re_TxHash = [], re_TransactionIndex = 0, re_OperationIndex = 0,
     re_InSuccessfulContractCall = False, re_Topic = [], re_Value = [], re_TopicJSON = None,
     re_ValueJSON = None\<rparr>"

end
