(* ===== verification/Go_Strconv.thy ===== *)
theory Go_Strconv
  imports Go_Prelude "HOL-Library.Char_ord" "HOL-Library.List_Lexorder"
begin

text \<open>
  The fragment of \<^verbatim>\<open>strconv\<close> and of the decimal verbs of \<^verbatim>\<open>fmt\<close> that the sources call:
  \<^verbatim>\<open>ParseUint\<close> and \<^verbatim>\<open>ParseInt\<close> in base 10, \<^verbatim>\<open>FormatInt\<close> and \<^verbatim>\<open>%0Nd\<close>, with their round
  trips, and the fact that fixed-width decimals are ordered as numbers. Every error of the
  parsers is \<^const>\<open>None\<close>.
\<close>

section \<open>Decimal digits\<close>

definition digit :: "nat \<Rightarrow> char" where
  "digit n = char_of (48 + n)"

definition digit_val :: "char \<Rightarrow> nat" where
  "digit_val c = of_char c - 48"

lemma digit_val_digit [simp]: "n < 10 \<Longrightarrow> digit_val (digit n) = n"
  by (simp add: digit_val_def digit_def)

lemma is_digit_digit [simp]: "n < 10 \<Longrightarrow> is_digit (digit n)"
  by (simp add: is_digit_def digit_def)

lemma digit_val_less: "is_digit c \<Longrightarrow> digit_val c < 10"
  by (auto simp: is_digit_def digit_val_def)

lemma digit_val_less_iff: "is_digit c \<Longrightarrow> is_digit d \<Longrightarrow> digit_val c < digit_val d \<longleftrightarrow> c < d"
  by (auto simp: is_digit_def digit_val_def less_char_def)

lemma digit_val_inject: "is_digit c \<Longrightarrow> is_digit d \<Longrightarrow> digit_val c = digit_val d \<longleftrightarrow> c = d"
  using digit_val_less_iff [of c d] digit_val_less_iff [of d c] by (metis linorder_neq_iff)

fun nat_digits :: "nat \<Rightarrow> string" where
  "nat_digits n = (if n < 10 then [digit n] else nat_digits (n div 10) @ [digit (n mod 10)])"

declare nat_digits.simps [simp del]

definition digits_val :: "string \<Rightarrow> nat" where
  "digits_val s = foldl (\<lambda>a c. a * 10 + digit_val c) 0 s"

lemma digits_val_simps [simp]:
  "digits_val [] = 0" "digits_val (s @ [c]) = digits_val s * 10 + digit_val c"
  by (simp_all add: digits_val_def)

lemma digits_val_Cons: "digits_val (c # s) = digit_val c * 10 ^ length s + digits_val s"
proof (induction s rule: rev_induct)
  case (snoc d s)
  have "digits_val (c # s @ [d]) = digits_val (c # s) * 10 + digit_val d"
    using digits_val_simps(2) [of "c # s" d] by simp
  with snoc show ?case by (simp add: algebra_simps)
qed (simp add: digits_val_def)

lemma digits_val_bound: "list_all is_digit s \<Longrightarrow> digits_val s < 10 ^ length s"
proof (induction s)
  case (Cons c s)
  then have "digit_val c + 1 \<le> 10" "digits_val s < 10 ^ length s"
    using digit_val_less [of c] by auto
  then have "digit_val c * 10 ^ length s + digits_val s < (digit_val c + 1) * 10 ^ length s"
    by (simp add: algebra_simps)
  also have "\<dots> \<le> 10 * 10 ^ length s" using \<open>digit_val c + 1 \<le> 10\<close> by (rule mult_right_mono) simp
  finally show ?case by (simp add: digits_val_Cons)
qed simp

lemma nat_digits_val [simp]: "digits_val (nat_digits n) = n"
proof (induction n rule: nat_digits.induct)
  case (1 n)
  then show ?case
    by (subst nat_digits.simps) (simp add: digits_val_def)
qed

lemma nat_digits_is_digit [simp]: "list_all is_digit (nat_digits n)"
proof (induction n rule: nat_digits.induct)
  case (1 n)
  then show ?case by (subst nat_digits.simps) simp
qed

lemma nat_digits_not_Nil [simp]: "nat_digits n \<noteq> []"
  by (subst nat_digits.simps) simp

lemma nat_digits_length: "n < 10 ^ k \<Longrightarrow> 0 < k \<Longrightarrow> length (nat_digits n) \<le> k"
proof (induction k arbitrary: n)
  case (Suc k)
  show ?case
  proof (cases "n < 10")
    case True
    then show ?thesis by (simp add: nat_digits.simps [of n])
  next
    case False
    then have "n div 10 < 10 ^ k" "0 < k"
      using Suc.prems by (auto simp: less_mult_imp_div_less mult.commute gr0I intro: ccontr)
    with Suc.IH [of "n div 10"] False show ?thesis by (simp add: nat_digits.simps [of n])
  qed
qed simp

lemma digits_set:
  assumes "list_all is_digit s"
  shows "CHR ''-'' \<notin> set s \<and> CHR ''|'' \<notin> set s \<and> CHR ''.'' \<notin> set s \<and> CHR ''+'' \<notin> set s"
  using assms by (auto simp: list_all_iff is_digit_def)

section \<open>Parsing\<close>

definition ParseUint :: "nat \<Rightarrow> string \<Rightarrow> nat option" where
  "ParseUint bits s =
     (if s \<noteq> [] \<and> list_all is_digit s \<and> digits_val s < 2 ^ bits then Some (digits_val s) else None)"

definition ParseInt :: "nat \<Rightarrow> string \<Rightarrow> int option" where
  "ParseInt bits s =
     (case s of
        [] \<Rightarrow> None
      | c # r \<Rightarrow>
          let neg = (c = CHR ''-''); s' = (if c = CHR ''+'' \<or> c = CHR ''-'' then r else s)
          in case ParseUint bits s' of
               None \<Rightarrow> None
             | Some un \<Rightarrow>
                 if \<not> neg \<and> 2 ^ (bits - 1) \<le> un then None
                 else if neg \<and> 2 ^ (bits - 1) < un then None
                 else Some (if neg then - int un else int un))"

section \<open>Formatting\<close>

definition FormatInt :: "int \<Rightarrow> string" where
  "FormatInt i = (if i < 0 then CHR ''-'' # nat_digits (nat (- i)) else nat_digits (nat i))"

definition zero_pad :: "nat \<Rightarrow> string \<Rightarrow> string" where
  "zero_pad w s = replicate (w - length s) (CHR ''0'') @ s"

text \<open>The verb \<^verbatim>\<open>%0Nd\<close>: the sign counts for the width.\<close>

definition FormatPadded :: "nat \<Rightarrow> int \<Rightarrow> string" where
  "FormatPadded w i =
     (if i < 0 then CHR ''-'' # zero_pad (w - 1) (nat_digits (nat (- i)))
      else zero_pad w (nat_digits (nat i)))"

lemma zero_is_digit [simp]: "is_digit CHR ''0''" "digit_val CHR ''0'' = 0"
  by (simp_all add: is_digit_def digit_val_def)

lemma zero_pad_digits [simp]: "list_all is_digit (zero_pad w s) \<longleftrightarrow> list_all is_digit s"
  by (auto simp: zero_pad_def list_all_iff)

lemma zero_pad_val [simp]: "digits_val (zero_pad w s) = digits_val s"
proof -
  have "digits_val (replicate n CHR ''0'' @ s) = digits_val s" for n
    by (induction n) (auto simp: digits_val_Cons)
  then show ?thesis by (simp add: zero_pad_def)
qed

lemma zero_pad_length: "length s \<le> w \<Longrightarrow> length (zero_pad w s) = w"
  by (simp add: zero_pad_def)

lemma zero_pad_not_Nil [simp]: "s \<noteq> [] \<Longrightarrow> zero_pad w s \<noteq> []"
  by (simp add: zero_pad_def)

section \<open>Round trips\<close>

lemma ParseInt_digits:
  assumes "list_all is_digit s" "s \<noteq> []" "digits_val s < 2 ^ (bits - 1)"
  shows "ParseInt bits s = Some (int (digits_val s))"
proof -
  obtain c r where s: "s = c # r" using assms(2) by (cases s) auto
  with assms(1) have "c \<noteq> CHR ''-''" "c \<noteq> CHR ''+''" by (auto simp: is_digit_def)
  moreover have "digits_val s < 2 ^ bits"
    using assms(3) by (rule less_le_trans) (rule power_increasing, simp_all)
  ultimately show ?thesis
    using assms by (simp add: ParseInt_def ParseUint_def Let_def s)
qed

lemma ParseInt_FormatInt:
  assumes "0 \<le> i" "i < 2 ^ (bits - 1)"
  shows "ParseInt bits (FormatInt i) = Some i"
proof -
  have "nat i < 2 ^ (bits - 1)" using assms by (metis nat_less_iff of_nat_numeral of_nat_power)
  then show ?thesis using assms by (simp add: ParseInt_digits FormatInt_def)
qed

lemma ParseInt_FormatInt_neg:
  assumes "i < 0" "- (2 ^ (bits - 1)) < i"
  shows "ParseInt bits (FormatInt i) = Some i"
proof -
  have "nat (- i) < 2 ^ (bits - 1)"
    using assms by (metis minus_less_iff nat_less_iff neg_0_less_iff_less of_nat_numeral of_nat_power less_imp_le)
  moreover from this have "nat (- i) < 2 ^ bits"
    by (rule less_le_trans) (rule power_increasing, simp_all)
  ultimately show ?thesis
    using assms by (simp add: ParseInt_def ParseUint_def FormatInt_def Let_def)
qed

lemma ParseInt_upper: "ParseInt bits s = Some i \<Longrightarrow> i < 2 ^ (bits - 1)"
proof -
  assume i: "ParseInt bits s = Some i"
  have "int un < 2 ^ (bits - 1)" if "un < 2 ^ (bits - 1)" for un :: nat
    using that by (metis of_nat_less_iff of_nat_numeral of_nat_power)
  moreover have "- int un < 2 ^ (bits - 1)" for un :: nat
    by (rule le_less_trans [of _ 0]) simp_all
  ultimately show ?thesis
    using i by (auto simp: ParseInt_def Let_def split: list.splits option.splits if_splits)
qed

lemma FormatInt_not_Nil [simp]: "FormatInt i \<noteq> []"
  by (simp add: FormatInt_def)

lemma FormatInt_no_sep [simp]: "CHR ''|'' \<notin> set (FormatInt i)"
  using digits_set [OF nat_digits_is_digit] by (auto simp: FormatInt_def)

section \<open>Order\<close>

lemma append_less_iff:
  fixes a b x y :: "'a :: linorder list"
  assumes "length a = length b"
  shows "a @ x < b @ y \<longleftrightarrow> a < b \<or> a = b \<and> x < y"
  using assms by (induction a b rule: list_induct2) auto

lemma digits_less_iff:
  assumes "length s = length t" "list_all is_digit s" "list_all is_digit t"
  shows "s < t \<longleftrightarrow> digits_val s < digits_val t"
  using assms
proof (induction s t rule: list_induct2)
  case (Cons c s d t)
  let ?p = "10 ^ length s"
  have b: "digits_val s < ?p" "digits_val t < ?p"
    using digits_val_bound [of s] digits_val_bound [of t] Cons by auto
  show ?case
  proof (cases rule: linorder_cases [of "digit_val c" "digit_val d"])
    case less
    then have "digit_val c * ?p + ?p \<le> digit_val d * ?p"
      using mult_right_mono [of "digit_val c + 1" "digit_val d" ?p] by simp
    with less b Cons show ?thesis by (auto simp: digits_val_Cons digit_val_less_iff)
  next
    case equal
    with Cons show ?thesis by (auto simp: digits_val_Cons digit_val_inject)
  next
    case greater
    then have "digit_val d * ?p + ?p \<le> digit_val c * ?p"
      using mult_right_mono [of "digit_val d + 1" "digit_val c" ?p] by simp
    with greater b Cons show ?thesis by (auto simp: digits_val_Cons digit_val_less_iff)
  qed
qed simp

lemma digits_eq_iff:
  assumes "length s = length t" "list_all is_digit s" "list_all is_digit t"
  shows "s = t \<longleftrightarrow> digits_val s = digits_val t"
  using digits_less_iff [of s t] digits_less_iff [of t s] assms by (metis linorder_neq_iff)

end
