(* ===== verification/Rpc_Errors.thy ===== *)
theory Rpc_Errors
  imports Rpc_Types Go_Strconv
begin

text \<open>
  How the RPC layer classifies the errors of a client: \<^verbatim>\<open>internal/rpc/client.go\<close>,
  \<^verbatim>\<open>internal/rpc/transient.go\<close> and the predicates of \<^verbatim>\<open>internal/rpc/retry.go\<close> and
  \<^verbatim>\<open>internal/rpc/failover.go\<close>. An error is its text together with what \<^verbatim>\<open>errors.As\<close> and
  \<^verbatim>\<open>errors.Is\<close> find in its chain.
\<close>

section \<open>Errors\<close>

record json_rpc_error =
  je_Code :: int
  je_Message :: string
  je_Data :: string

record client_error =
  ce_text :: string
  ce_rpc :: "json_rpc_error option"
  ce_retryAfter :: "duration option"
  ce_canceled :: bool
  ce_deadline :: bool
  ce_dns :: bool
  ce_op :: bool
  ce_net :: "bool option"
  ce_errno :: bool
  ce_eof :: bool

text \<open>
  \<open>ce_retryAfter\<close> is the hint of a \<^verbatim>\<open>RateLimitedError\<close>, \<open>ce_net\<close> what a \<^verbatim>\<open>net.Error\<close>
  answers to \<^verbatim>\<open>Timeout()\<close>, \<open>ce_errno\<close> whether the chain has a refused or reset connection.
\<close>

definition plain_error :: "string \<Rightarrow> client_error" where
  "plain_error text = \<lparr>ce_text = text, ce_rpc = None, ce_retryAfter = None, ce_canceled = False,
     ce_deadline = False, ce_dns = False, ce_op = False, ce_net = None, ce_errno = False, ce_eof = False\<rparr>"

text \<open>\<^verbatim>\<open>Error.Error\<close>, and the error the client wraps around a JSON-RPC error object.\<close>

definition rpc_error_text :: "json_rpc_error \<Rightarrow> string" where
  "rpc_error_text e = ''rpc error '' @ FormatInt (je_Code e) @ '': '' @ je_Message e"

definition server_error :: "string \<Rightarrow> json_rpc_error \<Rightarrow> client_error" where
  "server_error method e = (plain_error (method @ '': '' @ rpc_error_text e))\<lparr>ce_rpc := Some e\<rparr>"

section \<open>Predicates\<close>

definition lower_message :: "json_rpc_error \<Rightarrow> string" where
  "lower_message e = ToLower (je_Message e @ '' '' @ je_Data e)"

definition out_of_range :: "client_error \<Rightarrow> bool" where
  "out_of_range err =
     (case ce_rpc err of
        None \<Rightarrow> False
      | Some e \<Rightarrow> Contains (lower_message e) ''ledger range'' \<or> Contains (lower_message e) ''outside of retention window''
          \<or> Contains (lower_message e) ''must be within'')"

definition isXDRFormatRejected :: "client_error \<Rightarrow> bool" where
  "isXDRFormatRejected err =
     (case ce_rpc err of None \<Rightarrow> False | Some e \<Rightarrow> Contains (lower_message e) ''xdrformat'')"

definition isContextErr :: "client_error \<Rightarrow> bool" where
  "isContextErr err \<longleftrightarrow> ce_canceled err \<or> ce_deadline err"

definition transient_fragments :: "string list" where
  "transient_fragments =
     [''connection reset'', ''connection refused'', ''EOF'', ''timeout'', ''temporary failure'', ''no such host'']"

definition IsTransientHTTP :: "client_error \<Rightarrow> bool" where
  "IsTransientHTTP err =
     (if ce_canceled err then False
      else if ce_deadline err then True
      else if ce_dns err then True
      else if ce_op err then True
      else case ce_net err of
          Some timeout \<Rightarrow> timeout
        | None \<Rightarrow>
            if ce_errno err then True
            else if ce_eof err then True
            else list_ex (Contains (ce_text err)) transient_fragments)"

definition isRetryable :: "client_error \<Rightarrow> bool" where
  "isRetryable err =
     (if isContextErr err then False
      else if ce_retryAfter err \<noteq> None then True
      else case ce_rpc err of
          Some e \<Rightarrow>
            if je_Code e = -32600 \<or> je_Code e = -32601 then False
            else if je_Code e \<le> -32000 then True
            else je_Code e = 0
        | None \<Rightarrow> IsTransientHTTP err)"

definition network_fragments :: "string list" where
  "network_fragments =
     [''connection refused'', ''no such host'', ''i/o timeout'', ''deadline exceeded'', ''EOF'',
      ''connection reset'', ''TLS handshake timeout'', ''connect: connection refused'']"

definition isNetworkError :: "client_error \<Rightarrow> bool" where
  "isNetworkError err =
     (if ce_net err \<noteq> None then True else list_ex (Contains (ce_text err)) network_fragments)"

definition isDemotableError :: "client_error \<Rightarrow> bool" where
  "isDemotableError err =
     (if isNetworkError err then True
      else if Contains (ce_text err) ''HTTP 5'' then True
      else if Contains (ce_text err) ''rpc error -320'' then True
      else if Contains (ce_text err) ''rpc error -32603'' then True
      else False)"

text \<open>What the ingester sees of an error.\<close>

definition as_rpc_error :: "client_error \<Rightarrow> rpc_error" where
  "as_rpc_error err =
     (case ce_rpc err of Some e \<Rightarrow> RpcError (je_Message e) (je_Data e) | None \<Rightarrow> RpcFailure (ce_text err))"

lemma out_of_range_iff: "out_of_range err \<longleftrightarrow> IsLedgerOutOfRange (as_rpc_error err)"
  by (simp add: out_of_range_def IsLedgerOutOfRange_def as_rpc_error_def lower_message_def Let_def
      split: option.splits)

end
