(* ===== verification/Rpc_Retry.thy ===== *)
theory Rpc_Retry
  imports Rpc_Errors
begin

text \<open>
  The retrying decorator of \<^verbatim>\<open>internal/rpc/retry.go\<close> and the request spacing of
  \<^verbatim>\<open>internal/rpc/client.go\<close>. A call is a function of the attempt; the context, the sleep and the
  random source are functions of the attempt too. What the decorator did is its outcome together
  with the waits it scheduled. The five client methods only differ in the call they pass on.
\<close>

section \<open>The retrying client\<close>

record retry_config =
  rc_MaxAttempts :: int
  rc_BaseBackoff :: duration
  rc_MaxBackoff :: duration
  rc_Jitter :: bool

abbreviation maxRetryAfterWait :: duration where "maxRetryAfterWait \<equiv> 60 * second"

definition NewRetryClient :: "retry_config \<Rightarrow> retry_config" where
  "NewRetryClient cfg =
     (let cfg = (if rc_MaxAttempts cfg < 1 then cfg\<lparr>rc_MaxAttempts := 3\<rparr> else cfg);
          cfg = (if rc_BaseBackoff cfg \<le> 0 then cfg\<lparr>rc_BaseBackoff := 500 * millisecond\<rparr> else cfg)
      in if rc_MaxBackoff cfg \<le> 0 then cfg\<lparr>rc_MaxBackoff := 30 * second\<rparr> else cfg)"

definition retryWait :: "(int \<Rightarrow> int) \<Rightarrow> retry_config \<Rightarrow> client_error \<Rightarrow> duration \<Rightarrow> duration \<times> string" where
  "retryWait rand_N cfg err backoff =
     (case ce_retryAfter err of
        Some hint \<Rightarrow>
          if hint > 0 then (if hint > maxRetryAfterWait then maxRetryAfterWait else hint, ''retry_after'')
          else (if rc_Jitter cfg then backoff div 2 + rand_N backoff else backoff, ''backoff'')
      | None \<Rightarrow> (if rc_Jitter cfg then backoff div 2 + rand_N backoff else backoff, ''backoff''))"

record retry_env =
  re_ctxErr :: "nat \<Rightarrow> client_error option"
  re_sleep :: "nat \<Rightarrow> duration \<Rightarrow> client_error option"
  re_rand :: "nat \<Rightarrow> int \<Rightarrow> int"

definition exhausted :: "retry_config \<Rightarrow> client_error \<Rightarrow> client_error" where
  "exhausted cfg err =
     err\<lparr>ce_text := ''exhausted '' @ FormatInt (rc_MaxAttempts cfg) @ '' retries: '' @ ce_text err\<rparr>"

text \<open>\<open>left\<close> counts the attempts after this one.\<close>

fun retry_attempts ::
  "retry_env \<Rightarrow> retry_config \<Rightarrow> (nat \<Rightarrow> client_error + 'a) \<Rightarrow> nat \<Rightarrow> nat \<Rightarrow> duration
   \<Rightarrow> (client_error + 'a) \<times> (duration \<times> string) list" where
  "retry_attempts env cfg fn left attempt backoff =
     (case re_ctxErr env attempt of
        Some err \<Rightarrow> (Inl err, [])
      | None \<Rightarrow>
          (case fn attempt of
             Inr r \<Rightarrow> (Inr r, [])
           | Inl err \<Rightarrow>
               if \<not> isRetryable err then (Inl err, [])
               else case left of
                   0 \<Rightarrow> (Inl (exhausted cfg err), [])
                 | Suc left \<Rightarrow>
                     let w = retryWait (re_rand env attempt) cfg err backoff
                     in case re_sleep env attempt (fst w) of
                         Some err \<Rightarrow> (Inl err, [w])
                       | None \<Rightarrow>
                           let backoff = backoff * 2;
                               backoff = (if backoff > rc_MaxBackoff cfg then rc_MaxBackoff cfg else backoff);
                               (r, ws) = retry_attempts env cfg fn left (Suc attempt) backoff
                           in (r, w # ws)))"

declare retry_attempts.simps [simp del]

definition doWithRetry ::
  "retry_env \<Rightarrow> retry_config \<Rightarrow> (nat \<Rightarrow> client_error + 'a) \<Rightarrow> (client_error + 'a) \<times> (duration \<times> string) list" where
  "doWithRetry env cfg fn = retry_attempts env cfg fn (nat (rc_MaxAttempts cfg) - 1) 1 (rc_BaseBackoff cfg)"

text \<open>\<^verbatim>\<open>GetEvents\<close>, \<^verbatim>\<open>GetLatestLedger\<close>, \<^verbatim>\<open>GetHealth\<close>, \<^verbatim>\<open>SimulateTransaction\<close> and \<^verbatim>\<open>GetLedgerEntries\<close>, each
  with the call of the wrapped client.\<close>

definition retry_client_call :: "retry_env \<Rightarrow> retry_config \<Rightarrow> (nat \<Rightarrow> client_error + 'a) \<Rightarrow> client_error + 'a" where
  "retry_client_call env cfg ask = fst (doWithRetry env cfg ask)"

section \<open>Request spacing\<close>

record interval_limiter =
  il_interval :: duration
  il_next :: instant

definition limiter_Wait :: "instant \<Rightarrow> interval_limiter \<Rightarrow> duration \<times> interval_limiter" where
  "limiter_Wait now l =
     (if il_interval l \<le> 0 then (0, l)
      else let wait = il_next l - now; wait = (if wait < 0 then 0 else wait)
           in (wait, l\<lparr>il_next := now + (wait + il_interval l)\<rparr>))"

text \<open>The instants at which the callers that take the mutex at \<open>nows\<close> go ahead.\<close>

fun admissions :: "interval_limiter \<Rightarrow> instant list \<Rightarrow> instant list" where
  "admissions l [] = []"
| "admissions l (now # nows) =
     (let (wait, l') = limiter_Wait now l in (now + wait) # admissions l' nows)"

section \<open>Lemmas\<close>

lemma NewRetryClient_ok [simp]:
  "1 \<le> rc_MaxAttempts (NewRetryClient cfg)" "0 < rc_BaseBackoff (NewRetryClient cfg)"
  "0 < rc_MaxBackoff (NewRetryClient cfg)"
  by (auto simp: NewRetryClient_def Let_def)

text \<open>An attempt that asks for another one, and the backoff before attempt \<open>i + 1\<close>.\<close>

definition again :: "(nat \<Rightarrow> client_error + 'a) \<Rightarrow> nat \<Rightarrow> bool" where
  "again fn i \<longleftrightarrow> (case fn i of Inl err \<Rightarrow> isRetryable err | Inr _ \<Rightarrow> False)"

definition backoff_at :: "retry_config \<Rightarrow> duration \<Rightarrow> nat \<Rightarrow> duration" where
  "backoff_at cfg b i = (if i = 0 then b else min (b * 2 ^ i) (rc_MaxBackoff cfg))"

lemma backoff_at_Suc:
  assumes "0 < b" "0 < rc_MaxBackoff cfg"
  shows "backoff_at cfg (min (b * 2) (rc_MaxBackoff cfg)) i = backoff_at cfg b (Suc i)"
proof (cases "b * 2 \<le> rc_MaxBackoff cfg")
  case False
  hence m: "min (b * 2) (rc_MaxBackoff cfg) = rc_MaxBackoff cfg" by simp
  have one: "1 \<le> (2::int) ^ i" by simp
  have "rc_MaxBackoff cfg * 1 \<le> rc_MaxBackoff cfg * 2 ^ i" using assms by (intro mult_left_mono) auto
  moreover have "rc_MaxBackoff cfg \<le> b * 2 * 2 ^ i"
    using False mult_mono [of "rc_MaxBackoff cfg" "b * 2" 1 "2 ^ i"] assms one by simp
  ultimately show ?thesis using m by (simp add: backoff_at_def ac_simps)
qed (simp add: backoff_at_def ac_simps)

definition wait_after :: "retry_env \<Rightarrow> retry_config \<Rightarrow> (nat \<Rightarrow> client_error + 'a) \<Rightarrow> nat \<Rightarrow> duration \<Rightarrow> duration \<times> string" where
  "wait_after env cfg fn i b =
     (case fn i of Inl err \<Rightarrow> retryWait (re_rand env i) cfg err b | Inr _ \<Rightarrow> (0, []))"

definition patient :: "retry_env \<Rightarrow> bool" where
  "patient env \<longleftrightarrow> (\<forall>i. re_ctxErr env i = None) \<and> (\<forall>i d. re_sleep env i d = None)"

definition settled :: "retry_config \<Rightarrow> client_error + 'a \<Rightarrow> client_error + 'a" where
  "settled cfg r = (case r of Inl err \<Rightarrow> Inl (if isRetryable err then exhausted cfg err else err) | Inr x \<Rightarrow> Inr x)"

lemma retry_attempts_again:
  assumes "patient env" and "again fn i"
  shows "retry_attempts env cfg fn (Suc l) i b =
    map_prod id ((#) (wait_after env cfg fn i b))
      (retry_attempts env cfg fn l (Suc i) (min (b * 2) (rc_MaxBackoff cfg)))"
  using assms
  by (subst retry_attempts.simps)
    (auto simp: patient_def again_def wait_after_def Let_def min_def not_less split: sum.splits prod.splits)

lemma retry_attempts_exact:
  assumes "patient env" and "0 < b" and "0 < rc_MaxBackoff cfg"
    and "\<forall>j < k. again fn (i + j)" and "k \<le> left" and "k = left \<or> \<not> again fn (i + k)"
  shows "retry_attempts env cfg fn left i b =
    (settled cfg (fn (i + k)), map (\<lambda>j. wait_after env cfg fn (i + j) (backoff_at cfg b j)) [0..<k])"
  using assms
proof (induction k arbitrary: left i b)
  case 0
  thus ?case
    by (subst retry_attempts.simps)
      (auto simp: patient_def settled_def again_def split: sum.splits option.splits nat.splits)
next
  case (Suc k)
  have now: "again fn i" using spec [OF Suc.prems(4), of 0] by simp
  obtain l where l: "left = Suc l" using Suc.prems(5) by (cases left) auto
  let ?b = "min (b * 2) (rc_MaxBackoff cfg)"
  have "retry_attempts env cfg fn l (Suc i) ?b =
    (settled cfg (fn (Suc i + k)), map (\<lambda>j. wait_after env cfg fn (Suc i + j) (backoff_at cfg ?b j)) [0..<k])"
    using Suc.prems l by (intro Suc.IH) auto
  moreover have "[0..<Suc k] = 0 # map Suc [0..<k]" by (simp add: map_Suc_upt upt_conv_Cons)
  ultimately show ?case
    using Suc.prems now l
    by (simp add: retry_attempts_again backoff_at_Suc o_def backoff_at_def [of _ _ 0] del: upt_Suc)
qed

lemma retryWait_bounds:
  assumes "0 < b" and "\<And>m. 0 < m \<Longrightarrow> 0 \<le> f m \<and> f m < m"
  shows "0 \<le> fst (retryWait f cfg err b) \<and> fst (retryWait f cfg err b) \<le> max maxRetryAfterWait (b + b div 2)"
  using assms(1) assms(2) [OF assms(1)] by (auto simp: retryWait_def split: option.splits)

lemma admissions_spaced:
  "sorted_wrt (\<lambda>a b. a + il_interval l \<le> b) (admissions l nows) \<and> (\<forall>a \<in> set (admissions l nows). il_next l \<le> a)"
  if "0 < il_interval l"
  using that
proof (induction nows arbitrary: l)
  case (Cons now nows)
  let ?l = "l\<lparr>il_next := max now (il_next l) + il_interval l\<rparr>"
  have step: "limiter_Wait now l = (max now (il_next l) - now, ?l)"
    using Cons.prems by (auto simp: limiter_Wait_def Let_def max_def)
  have "sorted_wrt (\<lambda>a b. a + il_interval ?l \<le> b) (admissions ?l nows)
      \<and> (\<forall>a \<in> set (admissions ?l nows). il_next ?l \<le> a)"
    using Cons.prems by (intro Cons.IH) simp
  thus ?case using Cons.prems by (auto simp: step)
qed simp

section \<open>Properties\<close>



text \<open>
  The limiter of the HTTP client spaces requests: whatever the instants at which callers arrive, the
  instants at which they go ahead are at least the configured interval apart, in order.
\<close>

lemma limiter_spacing:
  assumes "0 < il_interval l"
  shows "sorted_wrt (\<lambda>a b. a + il_interval l \<le> b) (admissions l nows) \<and> length (admissions l nows) = length nows"
proof -
  have "length (admissions l nows) = length nows" for l
    by (induction nows arbitrary: l) (simp_all split: prod.splits)
  thus ?thesis using admissions_spaced [OF assms] by blast
qed


end
