(* ===== verification/Store_Breaker.thy ===== *)
theory Store_Breaker
  imports Breaker_Spec
begin

text \<open>
  The circuit breaker in front of the database, \<^verbatim>\<open>internal/store/breaker.go\<close>. The clock
  (\<^verbatim>\<open>opts.Now\<close>) is a time argument and the random source (\<^verbatim>\<open>opts.Jitter\<close>) a function
  argument \<open>jit\<close>, of which the code relies on \<open>0 \<le> jit m < m\<close> for positive \<open>m\<close>. The calls
  of \<^verbatim>\<open>OnStateChange\<close> are collected in a field; the metrics are not modelled.
\<close>

section \<open>State\<close>

datatype sb_state = SBClosed | SBOpen | SBHalfOpen

text \<open>Store errors up to \<^verbatim>\<open>errors.Is\<close>: the three sentinels the breaker tells apart, and
  everything else.\<close>

datatype store_err = ErrNotFound | ErrInvalidCursor | ContextCanceled | StoreFault string

record breaker_options =
  opt_FailureThreshold :: int
  opt_BaseCooldown :: duration
  opt_MaxCooldown :: duration

record store_breaker =
  sb_state :: sb_state
  consecutiveFails :: nat
  openAttempts :: nat
  nextProbeAt :: instant
  currentCooldown :: duration
  lastErr :: "store_err option"
  probeInFlight :: bool
  sb_opts :: breaker_options
  stateChanges :: "(sb_state \<times> sb_state \<times> store_err option) list"

record unavailable_error =
  RetryAfter :: duration
  Cause :: "store_err option"

definition NewStoreBreaker :: "breaker_options \<Rightarrow> store_breaker" where
  "NewStoreBreaker opts =
     (let opts = (if opt_FailureThreshold opts < 1 then opts\<lparr>opt_FailureThreshold := 3\<rparr> else opts);
          opts = (if opt_BaseCooldown opts \<le> 0 then opts\<lparr>opt_BaseCooldown := 2 * second\<rparr> else opts);
          opts = (if opt_MaxCooldown opts \<le> 0 then opts\<lparr>opt_MaxCooldown := 30 * second\<rparr> else opts);
          opts = (if opt_MaxCooldown opts < opt_BaseCooldown opts
               then opts\<lparr>opt_MaxCooldown := opt_BaseCooldown opts\<rparr> else opts)
      in \<lparr>sb_state = SBClosed, consecutiveFails = 0, openAttempts = 0, nextProbeAt = 0,
          currentCooldown = 0, lastErr = None, probeInFlight = False, sb_opts = opts,
          stateChanges = []\<rparr>)"

section \<open>Operations\<close>

fun isBenignStoreError :: "store_err option \<Rightarrow> bool" where
  "isBenignStoreError None \<longleftrightarrow> True"
| "isBenignStoreError (Some e) \<longleftrightarrow> e = ErrNotFound \<or> e = ErrInvalidCursor \<or> e = ContextCanceled"

definition transitionLocked ::
  "sb_state \<Rightarrow> store_err option \<Rightarrow> store_breaker \<Rightarrow> store_breaker" where
  "transitionLocked to err b =
     (let from = sb_state b; b = b\<lparr>sb_state := to\<rparr>
      in if from \<noteq> to then b\<lparr>stateChanges := stateChanges b @ [(from, to, err)]\<rparr> else b)"

definition jitteredRetryAfterLocked ::
  "(duration \<Rightarrow> duration) \<Rightarrow> instant \<Rightarrow> store_breaker \<Rightarrow> duration" where
  "jitteredRetryAfterLocked jit now b =
     (let rem = nextProbeAt b - now;
          rem = (if rem \<le> 0 then opt_BaseCooldown (sb_opts b) else rem);
          jitter = rem sdiv 2;
          rem = (if jitter > 0 then rem + jit jitter else rem)
      in if rem < second then second else rem)"

definition sb_Allow ::
  "(duration \<Rightarrow> duration) \<Rightarrow> instant \<Rightarrow> store_breaker \<Rightarrow>
     (bool \<times> unavailable_error option) \<times> store_breaker" where
  "sb_Allow jit now b =
     (let unavailable = \<lparr>RetryAfter = jitteredRetryAfterLocked jit now b, Cause = lastErr b\<rparr>
      in case sb_state b of
        SBClosed \<Rightarrow> ((False, None), b)
      | SBOpen \<Rightarrow>
          if \<not> now < nextProbeAt b \<and> \<not> probeInFlight b
          then ((True, None), (transitionLocked SBHalfOpen (lastErr b) b)\<lparr>probeInFlight := True\<rparr>)
          else ((False, Some unavailable), b)
      | SBHalfOpen \<Rightarrow>
          if \<not> probeInFlight b then ((True, None), b\<lparr>probeInFlight := True\<rparr>)
          else ((False, Some unavailable), b))"

text \<open>The doubling loop of \<^verbatim>\<open>Record\<close>; its first argument counts the rounds left.\<close>

fun cooldown_loop :: "nat \<Rightarrow> duration \<Rightarrow> duration \<Rightarrow> duration" where
  "cooldown_loop 0 cooldown mx = cooldown"
| "cooldown_loop (Suc n) cooldown mx =
     (if cooldown < mx then cooldown_loop n (if cooldown * 2 > mx then mx else cooldown * 2) mx
      else cooldown)"

definition nextCooldown :: "(duration \<Rightarrow> duration) \<Rightarrow> breaker_options \<Rightarrow> nat \<Rightarrow> duration" where
  "nextCooldown jit opts attempts =
     (let cooldown = cooldown_loop (attempts - 1) (opt_BaseCooldown opts) (opt_MaxCooldown opts);
          jitterWindow = cooldown sdiv 2;
          cooldown = (if jitterWindow > 0 then cooldown sdiv 2 + jit jitterWindow else cooldown)
      in if cooldown < millisecond then millisecond else cooldown)"

definition sb_Record ::
  "(duration \<Rightarrow> duration) \<Rightarrow> instant \<Rightarrow> bool \<Rightarrow> store_err option \<Rightarrow> store_breaker \<Rightarrow> store_breaker" where
  "sb_Record jit now probe err b =
     (let err = (if isBenignStoreError err then None else err);
          b = (if probe then b\<lparr>probeInFlight := False\<rparr> else b)
      in if err = None then
           (let b = b\<lparr>consecutiveFails := 0, openAttempts := 0, currentCooldown := 0, lastErr := None\<rparr>
            in if sb_state b \<noteq> SBClosed then transitionLocked SBClosed None b else b)
         else
           (let b = b\<lparr>lastErr := err, consecutiveFails := consecutiveFails b + 1\<rparr>
            in if sb_state b = SBHalfOpen
                  \<or> int (consecutiveFails b) \<ge> opt_FailureThreshold (sb_opts b)
               then
                 (let b = b\<lparr>openAttempts := openAttempts b + 1\<rparr>;
                      cooldown = nextCooldown jit (sb_opts b) (openAttempts b);
                      b = b\<lparr>currentCooldown := cooldown, nextProbeAt := now + cooldown\<rparr>
                  in if sb_state b \<noteq> SBOpen then transitionLocked SBOpen err b else b)
               else b))"

lemmas sb_ops = sb_Allow_def sb_Record_def transitionLocked_def Let_def

section \<open>The cooldown\<close>

text \<open>The doubling loop computes a capped power of two.\<close>

lemma cooldown_loop_eq:
  "0 < base \<Longrightarrow> base \<le> mx \<Longrightarrow> cooldown_loop n base mx = min mx (base * 2 ^ n)"
proof (induction n arbitrary: base)
  case (Suc n)
  show ?case
  proof (cases "base < mx")
    case True
    show ?thesis
    proof (cases "base * 2 > mx")
      case over: True
      have "mx * 1 \<le> mx * 2 ^ n" using Suc.prems by (intro mult_left_mono) auto
      moreover have "mx \<le> base * 2 ^ Suc n"
      proof -
        have "mx \<le> base * 2 * 1" using over by simp
        also have "\<dots> \<le> base * 2 * 2 ^ n" using Suc.prems by (intro mult_left_mono) auto
        finally show ?thesis by simp
      qed
      ultimately show ?thesis using True over Suc by simp
    next
      case False
      with True Suc show ?thesis by (simp add: mult.assoc)
    qed
  next
    case False
    then have "mx = base" using Suc.prems by simp
    moreover have "base * 1 \<le> base * 2 ^ Suc n"
      using Suc.prems by (intro mult_left_mono one_le_power) auto
    ultimately show ?thesis by (simp add: min_def)
  qed
qed simp

definition jitter_ok :: "(duration \<Rightarrow> duration) \<Rightarrow> bool" where
  "jitter_ok jit \<longleftrightarrow> (\<forall>m > 0. 0 \<le> jit m \<and> jit m < m)"

definition opts_ok :: "breaker_options \<Rightarrow> bool" where
  "opts_ok opts \<longleftrightarrow> opt_FailureThreshold opts \<ge> 1 \<and> opt_BaseCooldown opts > 0 \<and>
     opt_BaseCooldown opts \<le> opt_MaxCooldown opts"

lemma NewStoreBreaker_opts: "opts_ok (sb_opts (NewStoreBreaker opts))"
  by (simp add: NewStoreBreaker_def opts_ok_def Let_def)

lemma nextCooldown_bounds:
  assumes "opts_ok opts" "jitter_ok jit"
  shows "millisecond \<le> nextCooldown jit opts n" "nextCooldown jit opts n \<le> max millisecond (opt_MaxCooldown opts)"
proof -
  define c where "c = cooldown_loop (n - Suc 0) (opt_BaseCooldown opts) (opt_MaxCooldown opts)"
  have c: "0 < c" "c \<le> opt_MaxCooldown opts"
    using assms(1) by (auto simp: opts_ok_def cooldown_loop_eq c_def)
  have "0 \<le> jit (c div 2) \<and> jit (c div 2) < c div 2" if "0 < c div 2"
    using assms(2) that by (simp add: jitter_ok_def)
  then have "nextCooldown jit opts n \<le> max millisecond c" "millisecond \<le> nextCooldown jit opts n"
    using c by (auto simp: nextCooldown_def Let_def c_def [symmetric])
  with c show "millisecond \<le> nextCooldown jit opts n"
    "nextCooldown jit opts n \<le> max millisecond (opt_MaxCooldown opts)"
    by auto
qed

section \<open>Invariant\<close>

definition sb_inv :: "store_breaker \<Rightarrow> bool" where
  "sb_inv b \<longleftrightarrow> opts_ok (sb_opts b) \<and> (sb_state b = SBHalfOpen \<longrightarrow> probeInFlight b)"

lemma NewStoreBreaker_inv [invariant_intros]: "sb_inv (NewStoreBreaker opts)"
  using NewStoreBreaker_opts [of opts] by (simp add: sb_inv_def NewStoreBreaker_def Let_def)

lemma sb_Allow_inv [invariant_intros]: "sb_inv b \<Longrightarrow> sb_inv (snd (sb_Allow jit t b))"
  by (auto simp: sb_inv_def sb_ops split: sb_state.splits)

lemma sb_Record_inv [invariant_intros]: "sb_inv b \<Longrightarrow> sb_inv (sb_Record jit t p e b)"
  by (cases "sb_state b") (auto simp: sb_inv_def sb_ops)

section \<open>The breaker contract\<close>

fun sb_phase :: "sb_state \<Rightarrow> phase" where
  "sb_phase SBClosed = Closed"
| "sb_phase SBOpen = Open"
| "sb_phase SBHalfOpen = HalfOpen"

definition sb_allow :: "(instant \<Rightarrow> duration \<Rightarrow> duration) \<Rightarrow> instant \<Rightarrow> store_breaker \<Rightarrow> bool \<times> store_breaker" where
  "sb_allow jit t b = (case sb_Allow (jit t) t b of ((probe, err), b') \<Rightarrow> (err = None, b'))"

definition sb_report ::
  "(instant \<Rightarrow> duration \<Rightarrow> duration) \<Rightarrow> string \<Rightarrow> instant \<Rightarrow> bool \<Rightarrow> bool \<Rightarrow> store_breaker \<Rightarrow> store_breaker" where
  "sb_report jit msg t probe ok b =
     sb_Record (jit t) t probe (if ok then None else Some (StoreFault msg)) b"

definition sb_may_probe :: "instant \<Rightarrow> store_breaker \<Rightarrow> bool" where
  "sb_may_probe t b \<longleftrightarrow> \<not> t < nextProbeAt b \<and> \<not> probeInFlight b"

interpretation dbb: circuit_gate "sb_allow jit" "sb_report jit msg" "\<lambda>b. sb_phase (sb_state b)"
    sb_may_probe sb_inv
  for jit msg
proof (unfold_locales, goal_cases)
  case (1 s t) then show ?case
    using sb_Allow_inv [of s "jit t" t] by (auto simp: sb_allow_def split: prod.splits)
next
  case (2 s t p ok) then show ?case by (simp add: sb_report_def sb_Record_inv)
next
  case (7 t p s) then show ?case by (cases "sb_state s") (auto simp: sb_report_def sb_ops)
next
  case (8 s t p) then show ?case by (cases "sb_state s") (auto simp: sb_report_def sb_ops)
qed (auto simp: sb_allow_def sb_may_probe_def sb_inv_def sb_ops split: sb_state.splits)

section \<open>Concurrent requests\<close>

text \<open>
  A run of the breaker: requests ask for admission and later report, in any order. The
  number counts the requests that were admitted as probes and have not reported yet.
\<close>

inductive sb_step :: "store_breaker \<times> nat \<Rightarrow> store_breaker \<times> nat \<Rightarrow> bool" where
  admit: "sb_Allow jit t b = ((probe, None), b') \<Longrightarrow>
     sb_step (b, n) (b', if probe then Suc n else n)"
| reject: "sb_Allow jit t b = ((probe, Some u), b') \<Longrightarrow> sb_step (b, n) (b', n)"
| ordinary: "sb_step (b, n) (sb_Record jit t False err b, n)"
| probe_done: "sb_step (b, Suc n) (sb_Record jit t True err b, n)"

inductive_cases sb_stepE: "sb_step (b, n) (b', n')"

inductive sb_reachable :: "breaker_options \<Rightarrow> store_breaker \<times> nat \<Rightarrow> bool" for opts where
  start: "sb_reachable opts (NewStoreBreaker opts, 0)"
| step: "sb_reachable opts s \<Longrightarrow> sb_step s s' \<Longrightarrow> sb_reachable opts s'"

definition probes_inv :: "store_breaker \<times> nat \<Rightarrow> bool" where
  "probes_inv s \<longleftrightarrow> snd s = (if probeInFlight (fst s) then 1 else 0) \<and>
     (sb_state (fst s) = SBHalfOpen \<longrightarrow> probeInFlight (fst s))"

lemma sb_step_probes_inv: "sb_step s s' \<Longrightarrow> probes_inv s \<Longrightarrow> probes_inv s'"
proof (induction rule: sb_step.induct)
  case (admit jit t b probe b' n)
  then show ?case
    by (auto simp: probes_inv_def sb_ops split: sb_state.splits if_splits)
next
  case (reject jit t b probe u b' n)
  then show ?case
    by (auto simp: probes_inv_def sb_ops split: sb_state.splits if_splits)
next
  case (ordinary b n jit t err)
  then show ?case by (auto simp: probes_inv_def sb_ops)
next
  case (probe_done b n jit t err)
  then show ?case by (auto simp: probes_inv_def sb_ops split: if_splits)
qed

lemma sb_reachable_probes_inv: "sb_reachable opts s \<Longrightarrow> probes_inv s"
proof (induction rule: sb_reachable.induct)
  case start
  show ?case by (simp add: probes_inv_def NewStoreBreaker_def Let_def)
next
  case (step s s')
  then show ?case by (blast intro: sb_step_probes_inv)
qed

section \<open>Properties\<close>

text \<open>C19. In every reachable state of the store breaker, under any interleaving of admissions and
  reports, at most one admitted probe is outstanding, and in the half-open state exactly one is.\<close>

theorem sb_single_probe:
  assumes "sb_reachable opts (b, n)"
  shows "n \<le> 1 \<and> (sb_state b = SBHalfOpen \<longrightarrow> n = 1)"
  using sb_reachable_probes_inv [OF assms] by (auto simp: probes_inv_def split: if_splits)

lemma sb_probe_run:
  fixes opts :: breaker_options
  defines "opts \<equiv> \<lparr>opt_FailureThreshold = 1, opt_BaseCooldown = 8, opt_MaxCooldown = 16\<rparr>"
  defines "b1 \<equiv> sb_Record (\<lambda>_. 0) 0 False (Some (StoreFault [])) (NewStoreBreaker opts)"
  shows "sb_reachable opts (snd (sb_Allow (\<lambda>_. 0) (2 * second) b1), 1)"
    and "sb_state (snd (sb_Allow (\<lambda>_. 0) (2 * second) b1)) = SBHalfOpen"
proof -
  have "sb_reachable opts (b1, 0)"
    unfolding b1_def by (blast intro: sb_reachable.intros sb_step.ordinary)
  moreover have "sb_Allow (\<lambda>_. 0) (2 * second) b1 =
      ((True, None), snd (sb_Allow (\<lambda>_. 0) (2 * second) b1))"
    by (simp add: b1_def opts_def sb_ops NewStoreBreaker_def nextCooldown_def)
  ultimately show "sb_reachable opts (snd (sb_Allow (\<lambda>_. 0) (2 * second) b1), 1)"
    using sb_reachable.step sb_step.admit by fastforce
  show "sb_state (snd (sb_Allow (\<lambda>_. 0) (2 * second) b1)) = SBHalfOpen"
    by (simp add: b1_def opts_def sb_ops NewStoreBreaker_def nextCooldown_def)
qed

theorem sb_single_probe_witness:
  "\<exists>opts b n. sb_reachable opts (b, n) \<and> sb_state b = SBHalfOpen \<and> n = 1"
  using sb_single_probe [OF sb_probe_run(1)] sb_probe_run by blast



text \<open>C18. Once the store breaker has left the closed state, by whatever history, then for as long as
  no operation succeeds it stays shut and lets at most one operation through besides one for
  each reported failure, however concurrent operations interleave and whatever the jitter.\<close>

theorem sb_outage_bound:
  fixes jit :: "instant \<Rightarrow> duration \<Rightarrow> duration" and msg :: string
    and opts :: breaker_options and hist :: "breaker_op list"
  defines "b \<equiv> exec (sb_allow jit) (sb_report jit msg) hist (NewStoreBreaker opts)"
  assumes "sb_state b \<noteq> SBClosed" and "outage ops"
  shows "admitted (sb_allow jit) (sb_report jit msg) ops b \<le> failures ops + 1 \<and>
    sb_state (exec (sb_allow jit) (sb_report jit msg) ops b) \<noteq> SBClosed"
proof -
  have inv: "sb_inv b"
    unfolding b_def by (intro dbb.exec_inv NewStoreBreaker_inv)
  have shut: "sb_phase (sb_state b) \<noteq> Closed"
    using assms(2) by (cases "sb_state b") auto
  show ?thesis
    using dbb.admitted_bound [OF inv shut assms(3), of jit msg]
      dbb.shut_until_success [OF inv shut assms(3), of jit msg]
    by (auto split: if_splits)
qed

lemma sb_down_run:
  defines "opts \<equiv> \<lparr>opt_FailureThreshold = 1, opt_BaseCooldown = second, opt_MaxCooldown = second\<rparr>"
  defines "b \<equiv> \<lparr>sb_state = SBOpen, consecutiveFails = 1, openAttempts = 1, nextProbeAt = second div 2,
      currentCooldown = second div 2, lastErr = Some (StoreFault ''down''), probeInFlight = False,
      sb_opts = opts, stateChanges = [(SBClosed, SBOpen, Some (StoreFault ''down''))]\<rparr>"
  shows "exec (sb_allow (\<lambda>_ _. 0)) (sb_report (\<lambda>_ _. 0) ''down'') [Report 0 False False] (NewStoreBreaker opts) = b"
    and "admitted (sb_allow (\<lambda>_ _. 0)) (sb_report (\<lambda>_ _. 0) ''down'') [Ask 1, Ask second] b = 1"
  by (simp_all add: b_def opts_def sb_allow_def sb_report_def sb_ops NewStoreBreaker_def nextCooldown_def)

theorem sb_outage_bound_witness:
  "let opts = \<lparr>opt_FailureThreshold = 1, opt_BaseCooldown = second, opt_MaxCooldown = second\<rparr>;
       al = sb_allow (\<lambda>_ _. 0); re = sb_report (\<lambda>_ _. 0) ''down'';
       b = exec al re [Report 0 False False] (NewStoreBreaker opts);
       ops = [Ask 1, Ask second]
   in sb_state b = SBOpen \<and> outage ops \<and> admitted al re ops b = 1 \<and>
      admitted al re ops b \<le> failures ops + 1"
proof -
  let ?opts = "\<lparr>opt_FailureThreshold = 1, opt_BaseCooldown = second, opt_MaxCooldown = second\<rparr>"
  have "outage [Ask 1, Ask second]" by simp
  with sb_outage_bound [of "\<lambda>_ _. 0" "''down''" "[Report 0 False False]" ?opts "[Ask 1, Ask second]"]
  show ?thesis unfolding Let_def sb_down_run by simp
qed

end
