(* ===== verification/Go_Sha256.thy ===== *)
theory Go_Sha256
  imports Go_Prelude
begin

unbundle bit_operations_syntax

text \<open>
  \<^verbatim>\<open>crypto/sha256\<close> and \<^verbatim>\<open>crypto/hmac\<close> as FIPS 180-4 and RFC 2104 define them, on byte strings.
  They are executable; the cursor theory relies only on their being functions and on the
  length of the digest.
\<close>

section \<open>SHA-256\<close>

text \<open>
  The constants by their meaning: the round constants are the first 32 bits of the fractional
  parts of the cube roots of the first 64 primes, the initial hash those of the square roots of
  the first eight. \<open>root_bits k b n r\<close> extends \<open>r\<close> by the \<open>b\<close> low bits of the integer
  \<open>k\<close>-th root of \<open>n\<close>; 36 bits are enough, the roots being below 8.
\<close>

fun root_bits :: "nat \<Rightarrow> nat \<Rightarrow> int \<Rightarrow> int \<Rightarrow> int" where
  "root_bits k 0 n r = r"
| "root_bits k (Suc b) n r = root_bits k b n (if (r + 2 ^ b) ^ k \<le> n then r + 2 ^ b else r)"

definition frac_root :: "nat \<Rightarrow> int \<Rightarrow> u32" where
  "frac_root k p = of_int (root_bits k 36 (p * 2 ^ (32 * k)) 0)"

definition primes_to :: "int \<Rightarrow> int list" where
  "primes_to m = filter (\<lambda>p. list_all (\<lambda>d. p mod d \<noteq> 0) [2..p - 1]) [2..m]"

definition sha_K :: "u32 list" where
  "sha_K = map (frac_root 3) (primes_to 311)"

definition sha_init :: "u32 list" where
  "sha_init = map (frac_root 2) (primes_to 19)"

definition word_of_bytes :: "string \<Rightarrow> u32" where
  "word_of_bytes bs = foldl (\<lambda>w b. push_bit 8 w OR of_nat (of_char b)) 0 bs"

definition bytes_of_nat :: "nat \<Rightarrow> nat \<Rightarrow> string" where
  "bytes_of_nat k n = map (\<lambda>i. char_of (n div 256 ^ i)) (rev [0..<k])"

definition sha_pad :: "string \<Rightarrow> string" where
  "sha_pad m =
     (let l = length m in m @ [CHR 0x80] @ replicate ((119 - l mod 64) mod 64) (CHR 0x00)
        @ bytes_of_nat 8 (8 * l))"

fun chunks :: "nat \<Rightarrow> string \<Rightarrow> string list" where
  "chunks k s = (if k = 0 \<or> s = [] then [] else take k s # chunks k (drop k s))"

declare chunks.simps [simp del]

text \<open>The message schedule, newest word first.\<close>

fun sha_extend :: "nat \<Rightarrow> u32 list \<Rightarrow> u32 list" where
  "sha_extend 0 ws = ws"
| "sha_extend (Suc n) ws =
     (let w15 = ws ! 14; w2 = ws ! 1;
          s0 = word_rotr 7 w15 XOR word_rotr 18 w15 XOR drop_bit 3 w15;
          s1 = word_rotr 17 w2 XOR word_rotr 19 w2 XOR drop_bit 10 w2
      in sha_extend n ((ws ! 15 + s0 + ws ! 6 + s1) # ws))"

definition sha_schedule :: "string \<Rightarrow> u32 list" where
  "sha_schedule block = rev (sha_extend 48 (rev (map word_of_bytes (chunks 4 block))))"

type_synonym sha_state = "u32 \<times> u32 \<times> u32 \<times> u32 \<times> u32 \<times> u32 \<times> u32 \<times> u32"

fun sha_round :: "sha_state \<Rightarrow> u32 \<times> u32 \<Rightarrow> sha_state" where
  "sha_round (a, b, c, d, e, f, g, h) (k, w) =
     (let s1 = word_rotr 6 e XOR word_rotr 11 e XOR word_rotr 25 e;
          ch = (e AND f) XOR (NOT e AND g);
          t1 = h + s1 + ch + k + w;
          s0 = word_rotr 2 a XOR word_rotr 13 a XOR word_rotr 22 a;
          maj = (a AND b) XOR (a AND c) XOR (b AND c);
          t2 = s0 + maj
      in (t1 + t2, a, b, c, d + t1, e, f, g))"

definition sha_block :: "u32 list \<Rightarrow> string \<Rightarrow> u32 list" where
  "sha_block hs block =
     (case foldl sha_round (hs ! 0, hs ! 1, hs ! 2, hs ! 3, hs ! 4, hs ! 5, hs ! 6, hs ! 7)
             (zip sha_K (sha_schedule block)) of
        (a, b, c, d, e, f, g, h) \<Rightarrow> map2 (+) hs [a, b, c, d, e, f, g, h])"

definition sha256 :: "string \<Rightarrow> string" where
  "sha256 m =
     concat (map (\<lambda>w. bytes_of_nat 4 (unat w)) (foldl sha_block sha_init (chunks 64 (sha_pad m))))"

section \<open>HMAC\<close>

definition xor_byte :: "nat \<Rightarrow> char \<Rightarrow> char" where
  "xor_byte n c = char_of (n XOR of_char c)"

definition hmac_sha256 :: "string \<Rightarrow> string \<Rightarrow> string" where
  "hmac_sha256 key m =
     (let k = (if length key > 64 then sha256 key else key);
          k = k @ replicate (64 - length k) (CHR 0x00)
      in sha256 (map (xor_byte 0x5c) k @ sha256 (map (xor_byte 0x36) k @ m)))"

section \<open>Hexadecimal text\<close>

definition hex_digit :: "nat \<Rightarrow> char" where
  "hex_digit n = (if n < 10 then char_of (48 + n) else char_of (87 + n))"

definition hex_encode :: "string \<Rightarrow> string" where
  "hex_encode s = concat (map (\<lambda>c. [hex_digit (of_char c div 16), hex_digit (of_char c mod 16)]) s)"

section \<open>The length of the digest\<close>

lemma bytes_of_nat_length [simp]: "length (bytes_of_nat k n) = k"
  by (simp add: bytes_of_nat_def)

lemma sha_block_length: "length hs = 8 \<Longrightarrow> length (sha_block hs b) = 8"
  by (simp add: sha_block_def split: prod.splits)

lemma sha_blocks_length: "length hs = 8 \<Longrightarrow> length (foldl sha_block hs bs) = 8"
  by (induction bs arbitrary: hs) (simp_all add: sha_block_length)

lemma sha256_length [simp]: "length (sha256 m) = 32"
proof -
  have "length (concat (map (\<lambda>w. bytes_of_nat 4 (unat w)) ws)) = 4 * length ws" for ws :: "u32 list"
    by (induction ws) simp_all
  moreover have "length (foldl sha_block sha_init (chunks 64 (sha_pad m))) = 8"
    by (rule sha_blocks_length) code_simp
  ultimately show ?thesis by (simp add: sha256_def)
qed

lemma hmac_sha256_length [simp]: "length (hmac_sha256 key m) = 32"
  by (simp add: hmac_sha256_def Let_def)

end
