(* ===== verification/Scope.thy ===== *)
theory Scope
  imports Go_Sha256 "HOL-Library.Char_ord" "HOL-Library.List_Lexorder"
begin

text \<open>
  The tenant boundary of every read, \<^verbatim>\<open>internal/store/scope.go\<close>: which contracts a caller may
  see. The lemmas show that a scope built from a list grants exactly the non-empty ids of the
  list, whatever their order and repetitions, and that the zero value grants nothing.
\<close>

record scope =
  wildcard :: bool
  contracts :: "string list"

definition zero_scope :: scope where
  "zero_scope = \<lparr>wildcard = False, contracts = []\<rparr>"

definition WildcardScope :: scope where
  "WildcardScope = \<lparr>wildcard = True, contracts = []\<rparr>"

definition SystemScope :: scope where
  "SystemScope = \<lparr>wildcard = True, contracts = []\<rparr>"

text \<open>The loop of \<^verbatim>\<open>NewScope\<close>: the ids kept so far, and those not yet looked at.\<close>

fun scope_ids :: "string list \<Rightarrow> string list \<Rightarrow> string list" where
  "scope_ids out [] = out"
| "scope_ids out (cid # ids) =
     (if cid = [] then scope_ids out ids
      else if cid \<in> set out then scope_ids out ids
      else scope_ids (out @ [cid]) ids)"

definition NewScope :: "string list \<Rightarrow> scope" where
  "NewScope contractIDs =
     (if contractIDs = [] then zero_scope
      else let out = scope_ids [] contractIDs
           in if out = [] then zero_scope else \<lparr>wildcard = False, contracts = sort out\<rparr>)"

definition IsWildcard :: "scope \<Rightarrow> bool" where
  "IsWildcard s \<longleftrightarrow> wildcard s"

definition DeniesAll :: "scope \<Rightarrow> bool" where
  "DeniesAll s \<longleftrightarrow> \<not> wildcard s \<and> contracts s = []"

definition Allows :: "scope \<Rightarrow> string \<Rightarrow> bool" where
  "Allows s contractID \<longleftrightarrow> wildcard s \<or> list_ex (\<lambda>cid. cid = contractID) (contracts s)"

definition Contracts :: "scope \<Rightarrow> string list" where
  "Contracts s = contracts s"

fun join_lines :: "string list \<Rightarrow> string" where
  "join_lines [] = []"
| "join_lines [x] = x"
| "join_lines (x # xs) = x @ [CHR 0x0A] @ join_lines xs"

definition Fingerprint :: "scope \<Rightarrow> string" where
  "Fingerprint s =
     (if wildcard s then ''wildcard''
      else if contracts s = [] then ''none''
      else hex_encode (take 8 (sha256 (join_lines (contracts s)))))"

section \<open>What a scope grants\<close>

lemma scope_ids_set: "set (scope_ids out ids) = set out \<union> (set ids - {[]})"
  by (induction ids arbitrary: out) auto

lemma scope_ids_distinct: "distinct out \<Longrightarrow> distinct (scope_ids out ids)"
  by (induction ids arbitrary: out) auto

lemma NewScope_contracts: "contracts (NewScope ids) = sorted_list_of_set (set ids - {[]})"
proof -
  have "sort (scope_ids [] ids) = sorted_list_of_set (set ids - {[]})"
    using scope_ids_set [of "[]" ids] scope_ids_distinct [of "[]" ids]
    by (metis distinct.simps(1) distinct_remdups_id sorted_list_of_set_sort_remdups
        empty_set sup_bot_left)
  moreover have "scope_ids [] ids = [] \<Longrightarrow> set ids - {[]} = {}"
    using scope_ids_set [of "[]" ids] by simp
  ultimately show ?thesis by (auto simp: NewScope_def Let_def zero_scope_def)
qed

lemma NewScope_not_wildcard [simp]: "\<not> wildcard (NewScope ids)"
  by (simp add: NewScope_def Let_def zero_scope_def)

text \<open>C35. A scope built from a list of contract ids allows exactly the non-empty ids of the list;
  it denies everything exactly when there is none; and two lists with the same non-empty ids, in
  any order and with any repetitions, give the same scope and so the same cache fingerprint.\<close>

theorem scope_grants_exactly:
  "(Allows (NewScope ids) c \<longleftrightarrow> c \<in> set ids \<and> c \<noteq> []) \<and>
   (DeniesAll (NewScope ids) = (set ids \<subseteq> {[]})) \<and>
   ((set ids - {[]} = set ids' - {[]}) =
     (NewScope ids = NewScope ids' \<and> Fingerprint (NewScope ids) = Fingerprint (NewScope ids')))"
proof (intro conjI)
  have fin: "finite (set ids - {[]})" "finite (set ids' - {[]})" by simp_all
  show "Allows (NewScope ids) c \<longleftrightarrow> c \<in> set ids \<and> c \<noteq> []"
    by (auto simp: Allows_def NewScope_contracts list_ex_iff)
  show "DeniesAll (NewScope ids) = (set ids \<subseteq> {[]})"
    by (auto simp: DeniesAll_def NewScope_contracts)
  have "contracts (NewScope ids) = contracts (NewScope ids') \<longleftrightarrow> NewScope ids = NewScope ids'"
    by (metis NewScope_not_wildcard scope.equality unit.exhaust)
  then show "(set ids - {[]} = set ids' - {[]}) =
     (NewScope ids = NewScope ids' \<and> Fingerprint (NewScope ids) = Fingerprint (NewScope ids'))"
    using sorted_list_of_set.set_sorted_key_list_of_set [OF fin(1)]
      sorted_list_of_set.set_sorted_key_list_of_set [OF fin(2)]
    by (metis NewScope_contracts)
qed

end
