(* ===== verification/Store_Types.thy ===== *)
theory Store_Types
  imports Go_Strconv Scope
begin

text \<open>
  The data the store passes around, \<^verbatim>\<open>internal/store/store.go\<close>: events and event filters. A
  \<^verbatim>\<open>json.RawMessage\<close> is a \<^typ>\<open>string\<close>, empty when it is nil; an optional field (a Go pointer)
  is an \<open>option\<close>. \<^verbatim>\<open>int64\<close> and \<^verbatim>\<open>int32\<close> fields are \<^typ>\<open>int\<close>.
\<close>

record event =
  ev_ID :: string
  ev_ContractID :: string
  ev_Ledger :: int
  ev_Type :: string
  ev_TxHash :: string
  ev_TxIndex :: int
  ev_OpIndex :: int
  ev_InSuccessfulCall :: bool
  ev_Topics :: string
  ev_Value :: string
  ev_CreatedAt :: instant
  ev_Network :: string
  ev_RawTopicXDR :: "string list"
  ev_RawValueXDR :: string
  ev_SEP41Event :: "string option"

record event_filter =
  f_Network :: string
  f_ContractID :: string
  f_ContractIDs :: "string list"
  f_ContractIDPrefix :: string
  f_Types :: "string list"
  f_Topic :: string
  f_TxHash :: string
  f_InSuccessfulCall :: "bool option"
  f_Topic0 :: string
  f_Topic1 :: string
  f_Topic2 :: string
  f_Topic3 :: string
  f_TopicContains :: string
  f_HasValue :: "bool option"
  f_TxIndex :: "int option"
  f_OpIndex :: "int option"
  f_FromLedger :: int
  f_ToLedger :: int
  f_FromTime :: "instant option"
  f_ToTime :: "instant option"
  f_Cursor :: string
  f_Limit :: int
  f_Order :: string
  f_OrderBy :: string
  f_Scope :: scope

abbreviation OrderByID :: string where
  "OrderByID \<equiv> ''id''"

abbreviation OrderByLedger :: string where
  "OrderByLedger \<equiv> ''ledger''"

abbreviation OrderByCreatedAt :: string where
  "OrderByCreatedAt \<equiv> ''created_at''"

text \<open>An event with every field at its zero value, for building concrete ones.\<close>

definition zero_event :: event where
  "zero_event = \<lparr>ev_ID = [], ev_ContractID = [], ev_Ledger = 0, ev_Type = [], ev_TxHash = [],
     ev_TxIndex = 0, ev_OpIndex = 0, ev_InSuccessfulCall = False, ev_Topics = [], ev_Value = [],
     ev_CreatedAt = 0, ev_Network = [], ev_RawTopicXDR = [], ev_RawValueXDR = [],
     ev_SEP41Event = None\<rparr>"

text \<open>The wrap-around of \<^verbatim>\<open>int64\<close> arithmetic.\<close>

definition wrap64 :: "int \<Rightarrow> int" where
  "wrap64 i = signed_take_bit 63 i"

lemma wrap64_id [simp]: "- (2 ^ 63) \<le> i \<Longrightarrow> i < 2 ^ 63 \<Longrightarrow> wrap64 i = i"
  by (simp add: wrap64_def signed_take_bit_int_eq_self)

end
