(* ===== verification/Go_Encoding.thy ===== *)
theory Go_Encoding
  imports Go_Prelude
begin

text \<open>
  \<^verbatim>\<open>base64.RawURLEncoding\<close> (encoding, and decoding as Go does it: line breaks are skipped, the
  unused bits of the last character are not checked, a lone last character is an error) and
  \<^verbatim>\<open>utf8.ValidString\<close>. The main result is that decoding inverts encoding.
\<close>

section \<open>The URL-safe alphabet\<close>

definition b64_char :: "nat \<Rightarrow> char" where
  "b64_char i =
     (if i < 26 then char_of (65 + i) else if i < 52 then char_of (71 + i)
      else if i < 62 then char_of (i - 4) else if i = 62 then CHR ''-'' else CHR ''_'')"

definition b64_val :: "char \<Rightarrow> nat option" where
  "b64_val c =
     (let n = of_char c in
      if 65 \<le> n \<and> n \<le> 90 then Some (n - 65) else if 97 \<le> n \<and> n \<le> 122 then Some (n - 71)
      else if 48 \<le> n \<and> n \<le> 57 then Some (n + 4) else if c = CHR ''-'' then Some 62
      else if c = CHR ''_'' then Some 63 else None)"

lemma b64_val_char [simp]: "i < 64 \<Longrightarrow> b64_val (b64_char i) = Some i"
  by (auto simp: b64_val_def b64_char_def Let_def)

definition b64_alphabet :: "char set" where
  "b64_alphabet = b64_char ` {..<64}"

lemma b64_char_alphabet [simp]: "i < 64 \<Longrightarrow> b64_char i \<in> b64_alphabet"
  by (simp add: b64_alphabet_def)

lemma b64_alphabet_not:
  assumes "c \<in> b64_alphabet"
  shows "c \<noteq> CHR ''.'' \<and> c \<noteq> CHR ''|'' \<and> c \<noteq> CHR 0x0A \<and> c \<noteq> CHR 0x0D"
proof -
  have "b64_val c \<noteq> None" using assms by (auto simp: b64_alphabet_def)
  then show ?thesis by (auto simp: b64_val_def)
qed

section \<open>Encoding and decoding\<close>

fun b64_encode :: "string \<Rightarrow> string" where
  "b64_encode [] = []"
| "b64_encode [x] =
     (let a = of_char x :: nat in [b64_char (a div 4), b64_char (a mod 4 * 16)])"
| "b64_encode [x, y] =
     (let a = of_char x :: nat; b = of_char y :: nat
      in [b64_char (a div 4), b64_char (a mod 4 * 16 + b div 16), b64_char (b mod 16 * 4)])"
| "b64_encode (x # y # z # r) =
     (let a = of_char x :: nat; b = of_char y :: nat; c = of_char z :: nat
      in [b64_char (a div 4), b64_char (a mod 4 * 16 + b div 16),
          b64_char (b mod 16 * 4 + c div 64), b64_char (c mod 64)] @ b64_encode r)"

fun b64_quanta :: "nat list \<Rightarrow> string option" where
  "b64_quanta [] = Some []"
| "b64_quanta [p] = None"
| "b64_quanta [p, q] = Some [char_of (p * 4 + q div 16)]"
| "b64_quanta [p, q, r] = Some [char_of (p * 4 + q div 16), char_of (q mod 16 * 16 + r div 4)]"
| "b64_quanta (p # q # r # s # rest) =
     map_option (\<lambda>t. [char_of (p * 4 + q div 16), char_of (q mod 16 * 16 + r div 4),
                      char_of (r mod 4 * 64 + s)] @ t) (b64_quanta rest)"

definition b64_decode :: "string \<Rightarrow> string option" where
  "b64_decode s =
     (let s = filter (\<lambda>c. c \<noteq> CHR 0x0A \<and> c \<noteq> CHR 0x0D) s
      in if list_all (\<lambda>c. b64_val c \<noteq> None) s then b64_quanta (map (the \<circ> b64_val) s) else None)"

lemma byte_quotients [simp]:
  "(of_char c :: nat) div 4 < 64" "(of_char c :: nat) div 16 < 16" "(of_char c :: nat) div 64 < 4"
  using nat_of_char_less_256 [of c] by (simp_all add: less_mult_imp_div_less)

lemma sextet_bounds [simp]:
  fixes a :: nat
  shows "b < 16 \<Longrightarrow> a mod 4 * 16 + b < 64" "c < 4 \<Longrightarrow> a mod 16 * 4 + c < 64"
    "a mod 4 * 16 < 64" "a mod 16 * 4 < 64"
  using mod_less_divisor [of 4 a] mod_less_divisor [of 16 a] by simp_all

lemma char_of_rejoin [simp]:
  fixes x :: char
  shows "char_of ((of_char x :: nat) div 4 * 4 + (of_char x mod 4 * 16) div 16) = x"
    "b < 16 \<Longrightarrow> char_of ((of_char x :: nat) div 4 * 4 + (of_char x mod 4 * 16 + b) div 16) = x"
  by (simp_all add: div_mult_mod_eq)

lemma rejoin_second [simp]:
  "char_of ((a mod 4 * 16 + (of_char y :: nat) div 16) mod 16 * 16 + (of_char y mod 16 * 4) div 4) = y"
  "c < 4 \<Longrightarrow> char_of ((a mod 4 * 16 + (of_char y :: nat) div 16) mod 16 * 16
     + (of_char y mod 16 * 4 + c) div 4) = y"
  by (simp_all add: div_mult_mod_eq)

lemma rejoin_third [simp]:
  "char_of ((b mod 16 * 4 + (of_char z :: nat) div 64) mod 4 * 64 + of_char z mod 64) = z"
proof -
  have "(of_char z :: nat) div 64 < 4" by simp
  then have "(b mod 16 * 4 + (of_char z :: nat) div 64) mod 4 = of_char z div 64"
    by (simp add: mod_add_left_eq)
  then show ?thesis by simp
qed

lemma b64_encode_alphabet: "set (b64_encode s) \<subseteq> b64_alphabet"
  by (induction s rule: b64_encode.induct) (auto simp: Let_def)

lemma b64_encode_values:
  "list_all (\<lambda>c. b64_val c \<noteq> None) (b64_encode s)"
  "b64_quanta (map (the \<circ> b64_val) (b64_encode s)) = Some s"
  by (induction s rule: b64_encode.induct) (simp_all add: Let_def)

lemma b64_round_trip [simp]: "b64_decode (b64_encode s) = Some s"
proof -
  have "filter (\<lambda>c. c \<noteq> CHR 0x0A \<and> c \<noteq> CHR 0x0D) (b64_encode s) = b64_encode s"
    using b64_encode_alphabet [of s] b64_alphabet_not by (simp add: filter_id_conv subset_iff)
  then show ?thesis by (simp add: b64_decode_def b64_encode_values [simplified])
qed

lemma b64_encode_Nil [simp]: "b64_encode s = [] \<longleftrightarrow> s = []"
  by (cases s rule: b64_encode.cases) (auto simp: Let_def)

lemma b64_encode_no_dot [simp]: "CHR ''.'' \<notin> set (b64_encode s)"
  using b64_encode_alphabet [of s] b64_alphabet_not by blast

section \<open>UTF-8\<close>

definition utf8_cont :: "char \<Rightarrow> bool" where
  "utf8_cont c \<longleftrightarrow> (of_char c :: nat) \<in> {128..191}"

text \<open>The length of the rune at the front of a string, when it is well-formed.\<close>

definition utf8_size :: "string \<Rightarrow> nat option" where
  "utf8_size s =
     (case s of
        [] \<Rightarrow> None
      | c # r \<Rightarrow>
          let n = of_char c :: nat; second_byte = (if r = [] then 0 else of_char (hd r) :: nat)
          in if n < 128 then Some 1
             else if 194 \<le> n \<and> n \<le> 223 \<and> length r \<ge> 1 \<and> utf8_cont (r ! 0) then Some 2
             else if 224 \<le> n \<and> n \<le> 239 \<and> length r \<ge> 2 \<and> utf8_cont (r ! 0) \<and> utf8_cont (r ! 1)
                  \<and> (n = 224 \<longrightarrow> 160 \<le> second_byte) \<and> (n = 237 \<longrightarrow> second_byte \<le> 159) then Some 3
             else if 240 \<le> n \<and> n \<le> 244 \<and> length r \<ge> 3 \<and> utf8_cont (r ! 0) \<and> utf8_cont (r ! 1)
                  \<and> utf8_cont (r ! 2)
                  \<and> (n = 240 \<longrightarrow> 144 \<le> second_byte) \<and> (n = 244 \<longrightarrow> second_byte \<le> 143) then Some 4
             else None)"

lemma utf8_size_pos: "utf8_size s = Some n \<Longrightarrow> 0 < n \<and> s \<noteq> []"
  by (auto simp: utf8_size_def Let_def split: list.splits if_splits)

function ValidString :: "string \<Rightarrow> bool" where
  "ValidString s \<longleftrightarrow>
     s = [] \<or> (case utf8_size s of None \<Rightarrow> False | Some n \<Rightarrow> ValidString (drop n s))"
  by pat_completeness auto
termination
  by (relation "measure length") (auto dest: utf8_size_pos)

declare ValidString.simps [simp del]

lemma ValidString_ascii: "\<forall>c \<in> set s. (of_char c :: nat) < 128 \<Longrightarrow> ValidString s"
  by (induction s) (simp_all add: ValidString.simps [of "_ # _"] ValidString.simps [of "[]"] utf8_size_def)

end
