(* ===== verification/Go_Time.thy ===== *)
theory Go_Time
  imports Go_Strconv
begin

text \<open>
  \<^verbatim>\<open>time.Time\<close> values in UTC as nanoseconds since the Unix epoch, and their text form: the layout
  \<^verbatim>\<open>time.RFC3339Nano\<close> as \<^verbatim>\<open>Format\<close> prints it and as \<^verbatim>\<open>time.Parse\<close> reads it (a one-digit hour,
  a comma before the fraction and offsets of up to 24 hours are accepted, as Go accepts them).
\<close>

section \<open>The calendar\<close>

definition civil_from_days :: "int \<Rightarrow> int \<times> int \<times> int" where
  "civil_from_days days =
     (let z = days + 719468; era = z div 146097; doe = z mod 146097;
          yoe = (doe - doe div 1460 + doe div 36524 - doe div 146096) div 365;
          doy = doe - (365 * yoe + yoe div 4 - yoe div 100);
          mp = (5 * doy + 2) div 153;
          d = doy - (153 * mp + 2) div 5 + 1;
          m = (if mp < 10 then mp + 3 else mp - 9)
      in (yoe + era * 400 + (if m \<le> 2 then 1 else 0), m, d))"

definition days_from_civil :: "int \<Rightarrow> int \<Rightarrow> int \<Rightarrow> int" where
  "days_from_civil year m d =
     (let y = (if m \<le> 2 then year - 1 else year); era = y div 400; yoe = y mod 400;
          doy = (153 * (if m > 2 then m - 3 else m + 9) + 2) div 5 + d - 1;
          doe = yoe * 365 + yoe div 4 - yoe div 100 + doy
      in era * 146097 + doe - 719468)"

definition is_leap :: "int \<Rightarrow> bool" where
  "is_leap y \<longleftrightarrow> y mod 4 = 0 \<and> (y mod 100 \<noteq> 0 \<or> y mod 400 = 0)"

definition days_in :: "int \<Rightarrow> int \<Rightarrow> int" where
  "days_in m year = (if m = 2 then if is_leap year then 29 else 28
     else if m \<in> {4, 6, 9, 11} then 30 else 31)"

section \<open>Format\<close>

definition year_str :: "int \<Rightarrow> string" where
  "year_str y = (if y < 0 then CHR ''-'' # zero_pad 4 (nat_digits (nat (- y)))
     else zero_pad 4 (nat_digits (nat y)))"

definition two :: "int \<Rightarrow> string" where
  "two n = zero_pad 2 (nat_digits (nat n))"

definition nano_str :: "int \<Rightarrow> string" where
  "nano_str ns =
     (if ns = 0 then []
      else CHR ''.'' # rev (dropWhile (\<lambda>c. c = CHR ''0'') (rev (zero_pad 9 (nat_digits (nat ns))))))"

definition FormatRFC3339Nano :: "instant \<Rightarrow> string" where
  "FormatRFC3339Nano t =
     (let sec = t div second; ns = t mod second; s = sec mod 86400
      in case civil_from_days (sec div 86400) of (y, m, d) \<Rightarrow>
           year_str y @ ''-'' @ two m @ ''-'' @ two d @ ''T'' @ two (s div 3600) @ '':''
             @ two (s mod 3600 div 60) @ '':'' @ two (s mod 60) @ nano_str ns @ ''Z'')"

section \<open>Parse\<close>

definition eat :: "char \<Rightarrow> string \<Rightarrow> string option" where
  "eat c s = (case s of [] \<Rightarrow> None | x # r \<Rightarrow> if x = c then Some r else None)"

text \<open>\<^verbatim>\<open>getnum\<close>: two digits, or one when the field is not fixed.\<close>

definition getnum :: "bool \<Rightarrow> string \<Rightarrow> (int \<times> string) option" where
  "getnum fixed s =
     (case s of
        [] \<Rightarrow> None
      | a # r \<Rightarrow>
          if \<not> is_digit a then None
          else case r of
              [] \<Rightarrow> if fixed then None else Some (int (digit_val a), r)
            | b # r' \<Rightarrow>
                if is_digit b then Some (int (digits_val [a, b]), r')
                else if fixed then None else Some (int (digit_val a), r))"

definition getnum_range :: "bool \<Rightarrow> int \<Rightarrow> int \<Rightarrow> string \<Rightarrow> (int \<times> string) option" where
  "getnum_range fixed lo hi s =
     (case getnum fixed s of None \<Rightarrow> None
      | Some (n, r) \<Rightarrow> if lo \<le> n \<and> n \<le> hi then Some (n, r) else None)"

definition parse_fraction :: "string \<Rightarrow> int \<times> string" where
  "parse_fraction s =
     (case s of
        c # d # r \<Rightarrow>
          if (c = CHR ''.'' \<or> c = CHR '','') \<and> is_digit d
          then let ds = takeWhile is_digit (d # r); ds9 = take 9 ds
               in (int (digits_val ds9) * 10 ^ (9 - length ds9), dropWhile is_digit (d # r))
          else (0, s)
      | _ \<Rightarrow> (0, s))"

text \<open>The offset from UTC in seconds.\<close>

definition parse_zone :: "string \<Rightarrow> (int \<times> string) option" where
  "parse_zone s =
     (if take 1 s = ''Z'' then Some (0, drop 1 s)
      else if length s < 6 \<or> s ! 3 \<noteq> CHR '':'' then None
      else case (getnum_range True 0 24 (take 2 (drop 1 s)), getnum_range True 0 60 (take 2 (drop 4 s))) of
          (Some (h, _), Some (m, _)) \<Rightarrow>
            let z = (h * 60 + m) * 60
            in if s ! 0 = CHR ''+'' then Some (z, drop 6 s)
               else if s ! 0 = CHR ''-'' then Some (- z, drop 6 s) else None
        | _ \<Rightarrow> None)"

definition parse_date :: "string \<Rightarrow> (int \<times> string) option" where
  "parse_date s =
     (if length s < 4 \<or> \<not> list_all is_digit (take 4 s) then None
      else Option.bind (eat CHR ''-'' (drop 4 s)) (\<lambda>s1.
        Option.bind (getnum_range True 1 12 s1) (\<lambda>(m, s2).
        Option.bind (eat CHR ''-'' s2) (\<lambda>s3.
        Option.bind (getnum True s3) (\<lambda>(d, s4).
          let y = int (digits_val (take 4 s))
          in if 1 \<le> d \<and> d \<le> days_in m y then Some (days_from_civil y m d, s4) else None)))))"

definition parse_clock :: "string \<Rightarrow> (int \<times> string) option" where
  "parse_clock s =
     Option.bind (getnum_range False 0 23 s) (\<lambda>(h, s1).
     Option.bind (eat CHR '':'' s1) (\<lambda>s2.
     Option.bind (getnum_range True 0 59 s2) (\<lambda>(m, s3).
     Option.bind (eat CHR '':'' s3) (\<lambda>s4.
     Option.bind (getnum_range True 0 59 s4) (\<lambda>(sec, s5).
       case parse_fraction s5 of (ns, s6) \<Rightarrow>
         Some (((h * 60 + m) * 60 + sec) * second + ns, s6))))))"

definition ParseRFC3339Nano :: "string \<Rightarrow> instant option" where
  "ParseRFC3339Nano s =
     Option.bind (parse_date s) (\<lambda>(days, s1).
     Option.bind (eat CHR ''T'' s1) (\<lambda>s2.
     Option.bind (parse_clock s2) (\<lambda>(ns, s3).
     Option.bind (parse_zone s3) (\<lambda>(offset, s4).
       if s4 = [] then Some (days * 86400 * second + ns - offset * second) else None))))"

section \<open>The characters of a formatted time\<close>

lemma nat_digits_no_bar [simp]: "CHR ''|'' \<notin> set (zero_pad w (nat_digits n))"
  using digits_set [of "zero_pad w (nat_digits n)"] by simp

lemma nano_str_no_bar [simp]: "CHR ''|'' \<notin> set (nano_str ns)"
  using set_dropWhileD [of "CHR ''|''" _ "rev (zero_pad 9 (nat_digits (nat ns)))"]
  by (auto simp: nano_str_def)

lemma FormatRFC3339Nano_no_bar [simp]: "CHR ''|'' \<notin> set (FormatRFC3339Nano t)"
  by (simp add: FormatRFC3339Nano_def Let_def year_str_def two_def split: prod.splits)

lemma FormatRFC3339Nano_not_Nil [simp]: "FormatRFC3339Nano t \<noteq> []"
  by (simp add: FormatRFC3339Nano_def Let_def split: prod.splits)

end
