(* ===== verification/Cursor.thy ===== *)
theory Cursor
  imports Store_Types Go_Encoding Go_Time
begin

unbundle bit_operations_syntax

text \<open>
  Pagination cursors, \<^verbatim>\<open>internal/store/cursor.go\<close>: the versioned, backend-tagged envelope with
  its integrity tag, the cursors of the listings, TOID event ids, and the guard on sparse topic
  filters; with \<^verbatim>\<open>ValidCursor\<close> of \<^verbatim>\<open>internal/config/config.go\<close>, the check of the API layer. A Go
  error that wraps sentinels is the list of those sentinels; its text is not modelled.
\<close>

section \<open>Errors\<close>

datatype cursor_sentinel =
  InvalidCursor | StaleCursor | CrossBackendCursor | TamperedCursor | InvalidContractsCursor
  | SparseFilterRangeTooWide

type_synonym cursor_err = "cursor_sentinel list"

section \<open>The envelope\<close>

abbreviation CursorVersionV1 :: string where "CursorVersionV1 \<equiv> ''v1''"
abbreviation CursorVersionCurrent :: string where "CursorVersionCurrent \<equiv> ''v2''"
abbreviation CursorBackendPostgres :: string where "CursorBackendPostgres \<equiv> ''pg''"
abbreviation CursorBackendSQLite :: string where "CursorBackendSQLite \<equiv> ''sq''"
abbreviation CursorBackendClickHouse :: string where "CursorBackendClickHouse \<equiv> ''ch''"
abbreviation CursorBackendAny :: string where "CursorBackendAny \<equiv> ''an''"
abbreviation cursorHMACKey :: string where
  "cursorHMACKey \<equiv> ''sorotrail-cursor-stability-contract-v2''"

definition normalizeCursorBackend :: "string \<Rightarrow> string" where
  "normalizeCursorBackend backend =
     (let b = ToLower (TrimSpace backend)
      in if b \<in> {''pg'', ''postgres'', ''postgresql''} then CursorBackendPostgres
         else if b \<in> {''sq'', ''sqlite'', ''sqlite3''} then CursorBackendSQLite
         else if b \<in> {''ch'', ''clickhouse''} then CursorBackendClickHouse
         else if b \<in> {'''', ''an'', ''any''} then CursorBackendAny
         else [])"

definition cursorMAC :: "string \<Rightarrow> string \<Rightarrow> string \<Rightarrow> string" where
  "cursorMAC version backend encodedPayload =
     b64_encode (take 3 (hmac_sha256 cursorHMACKey
       (version @ ''.'' @ backend @ ''.'' @ encodedPayload)))"

definition validCursorMAC :: "string \<Rightarrow> string \<Rightarrow> string \<Rightarrow> string \<Rightarrow> string \<Rightarrow> bool" where
  "validCursorMAC version rawBackend normBackend encodedPayload gotMAC \<longleftrightarrow>
     (if gotMAC = [] then False
      else if gotMAC = cursorMAC version normBackend encodedPayload then True
      else if rawBackend \<noteq> normBackend \<and> gotMAC = cursorMAC version rawBackend encodedPayload
           then True
      else False)"

definition wrapCursorEnvelope :: "string \<Rightarrow> string \<Rightarrow> string \<Rightarrow> string" where
  "wrapCursorEnvelope version backend payload =
     (let normBackend = normalizeCursorBackend backend;
          normBackend = (if normBackend = [] then CursorBackendAny else normBackend);
          version = (if version = [] then CursorVersionCurrent else version);
          enc = b64_encode payload;
          sig = cursorMAC version normBackend enc
      in version @ ''.'' @ normBackend @ ''.'' @ enc @ ''.'' @ sig)"

definition isDigits :: "string \<Rightarrow> bool" where
  "isDigits s \<longleftrightarrow> s \<noteq> [] \<and> list_all is_digit s"

definition hasCursorEnvelopePrefix :: "string \<Rightarrow> bool" where
  "hasCursorEnvelopePrefix cursor \<longleftrightarrow>
     (case IndexByte cursor CHR ''.'' of
        None \<Rightarrow> False
      | Some dot \<Rightarrow>
          if dot < 2 \<or> cursor ! 0 \<noteq> CHR ''v'' then False
          else isDigits (take (dot - 1) (drop 1 cursor)))"

definition checkCursorBackend :: "string \<Rightarrow> string \<Rightarrow> cursor_err option" where
  "checkCursorBackend envBackend expectedBackend =
     (let normExpected = normalizeCursorBackend expectedBackend
      in if normExpected = [] \<or> normExpected = CursorBackendAny \<or> envBackend = CursorBackendAny
         then None
         else if envBackend \<noteq> normExpected then Some [InvalidCursor, StaleCursor, CrossBackendCursor]
         else None)"

text \<open>The decoding of the payload that every branch of the envelope ends with.\<close>

definition envelope_payload :: "string \<Rightarrow> string \<Rightarrow> string \<Rightarrow> cursor_err + string \<times> string \<times> string" where
  "envelope_payload ver backend part =
     (case b64_decode part of
        None \<Rightarrow> Inl [InvalidCursor, TamperedCursor]
      | Some raw \<Rightarrow> if raw = [] then Inl [InvalidCursor, TamperedCursor] else Inr (raw, ver, backend))"

text \<open>The payload, the version and the backend of an envelope.\<close>

definition unwrapCursorEnvelope ::
  "string \<Rightarrow> string \<Rightarrow> cursor_err + string \<times> string \<times> string" where
  "unwrapCursorEnvelope cursor expectedBackend =
     (if cursor = [] then Inl [InvalidCursor, TamperedCursor]
      else if Contains cursor ''.'' then
        let parts = Split cursor CHR ''.''; ver = parts ! 0
        in if length ver < 2 \<or> ver ! 0 \<noteq> CHR ''v'' \<or> \<not> isDigits (drop 1 ver)
           then Inl [InvalidCursor, TamperedCursor]
           else if ver \<noteq> CursorVersionCurrent \<and> ver \<noteq> CursorVersionV1
           then Inl [InvalidCursor, StaleCursor]
           else if length parts = 4 then
             let normBackend = normalizeCursorBackend (parts ! 1)
             in if normBackend = [] then Inl [InvalidCursor, TamperedCursor]
                else if \<not> validCursorMAC ver (parts ! 1) normBackend (parts ! 2) (parts ! 3)
                then Inl [InvalidCursor, TamperedCursor]
                else (case checkCursorBackend normBackend expectedBackend of
                        Some err \<Rightarrow> Inl err
                      | None \<Rightarrow> envelope_payload ver normBackend (parts ! 2))
           else if ver = CursorVersionV1 \<and> length parts = 3 then
             let normBackend = normalizeCursorBackend (parts ! 1)
             in if normBackend = [] then Inl [InvalidCursor, TamperedCursor]
                else (case checkCursorBackend normBackend expectedBackend of
                        Some err \<Rightarrow> Inl err
                      | None \<Rightarrow> envelope_payload ver normBackend (parts ! 2))
           else if ver = CursorVersionV1 \<and> length parts = 2 then
             envelope_payload ver CursorBackendAny (parts ! 1)
           else Inl [InvalidCursor, TamperedCursor]
      else case b64_decode cursor of
          None \<Rightarrow> Inl [InvalidCursor, TamperedCursor]
        | Some raw \<Rightarrow> Inr (raw, CursorVersionV1, CursorBackendAny))"

section \<open>Composite cursors\<close>

definition encodeCompositeCursorForBackend :: "string \<Rightarrow> string \<Rightarrow> string \<Rightarrow> string" where
  "encodeCompositeCursorForBackend backend sortValue eid =
     wrapCursorEnvelope CursorVersionCurrent backend (sortValue @ ''|'' @ eid)"

definition encodeCompositeCursor :: "string \<Rightarrow> string \<Rightarrow> string" where
  "encodeCompositeCursor sortValue eid = encodeCompositeCursorForBackend CursorBackendAny sortValue eid"

definition decodeCompositeCursorForBackend ::
  "string \<Rightarrow> string \<Rightarrow> cursor_err + string \<times> string" where
  "decodeCompositeCursorForBackend expectedBackend cursor =
     (case unwrapCursorEnvelope cursor expectedBackend of
        Inl err \<Rightarrow> Inl err
      | Inr (raw, _, _) \<Rightarrow>
          (case LastIndex raw CHR ''|'' of
             None \<Rightarrow> Inl [InvalidCursor, TamperedCursor]
           | Some sep \<Rightarrow>
               let sortValue = take sep raw; eid = drop (sep + 1) raw
               in if sortValue = [] \<or> eid = [] then Inl [InvalidCursor, TamperedCursor]
                  else Inr (sortValue, eid)))"

definition decodeCompositeCursor :: "string \<Rightarrow> cursor_err + string \<times> string" where
  "decodeCompositeCursor cursor = decodeCompositeCursorForBackend CursorBackendAny cursor"

section \<open>Event cursors\<close>

definition EncodeCursorForBackend :: "string \<Rightarrow> string \<Rightarrow> event \<Rightarrow> string" where
  "EncodeCursorForBackend backend orderBy e =
     (if orderBy = OrderByLedger
      then encodeCompositeCursorForBackend backend (FormatInt (ev_Ledger e)) (ev_ID e)
      else if orderBy = OrderByCreatedAt
      then encodeCompositeCursorForBackend backend (FormatRFC3339Nano (ev_CreatedAt e)) (ev_ID e)
      else ev_ID e)"

definition EncodeCursor :: "string \<Rightarrow> event \<Rightarrow> string" where
  "EncodeCursor orderBy e = EncodeCursorForBackend CursorBackendAny orderBy e"

definition EncodeVersionedEventCursor :: "string \<Rightarrow> string \<Rightarrow> event \<Rightarrow> string" where
  "EncodeVersionedEventCursor backend orderBy e =
     (if orderBy = OrderByLedger \<or> orderBy = OrderByCreatedAt
      then EncodeCursorForBackend backend orderBy e
      else wrapCursorEnvelope CursorVersionCurrent backend (ev_ID e))"

definition EncodeCursorV1 :: "string \<Rightarrow> string \<Rightarrow> event \<Rightarrow> string" where
  "EncodeCursorV1 backend orderBy e =
     (if orderBy = OrderByLedger
      then wrapCursorEnvelope CursorVersionV1 backend (FormatInt (ev_Ledger e) @ ''|'' @ ev_ID e)
      else if orderBy = OrderByCreatedAt
      then wrapCursorEnvelope CursorVersionV1 backend
             (FormatRFC3339Nano (ev_CreatedAt e) @ ''|'' @ ev_ID e)
      else wrapCursorEnvelope CursorVersionV1 backend (ev_ID e))"

definition DecodeEventIDCursorForBackend :: "string \<Rightarrow> string \<Rightarrow> cursor_err + string" where
  "DecodeEventIDCursorForBackend expectedBackend cursor =
     (if cursor = [] then Inl [InvalidCursor, TamperedCursor]
      else if hasCursorEnvelopePrefix cursor \<or> Contains cursor ''.'' then
        (case unwrapCursorEnvelope cursor expectedBackend of
           Inl err \<Rightarrow> Inl err
         | Inr (eid, _, _) \<Rightarrow>
             if Contains eid ''|'' then Inl [InvalidCursor, StaleCursor]
             else if eid = [] \<or> \<not> ValidString eid then Inl [InvalidCursor, TamperedCursor]
             else Inr eid)
      else case b64_decode cursor of
          None \<Rightarrow> Inr cursor
        | Some raw \<Rightarrow>
            (case LastIndex raw CHR ''|'' of
               None \<Rightarrow> Inr cursor
             | Some sep \<Rightarrow>
                 if 0 < sep \<and> sep < length raw - 1 then
                   let sv = take sep raw
                   in if ParseInt 64 sv \<noteq> None then Inl [InvalidCursor, StaleCursor]
                      else if ParseRFC3339Nano sv \<noteq> None then Inl [InvalidCursor, StaleCursor]
                      else Inr cursor
                 else Inr cursor))"

definition DecodeEventIDCursor :: "string \<Rightarrow> cursor_err + string" where
  "DecodeEventIDCursor cursor = DecodeEventIDCursorForBackend CursorBackendAny cursor"

section \<open>Cursors of the other listings\<close>

definition EncodeContractsCursorForBackend :: "string \<Rightarrow> string \<Rightarrow> string \<Rightarrow> string \<Rightarrow> string" where
  "EncodeContractsCursorForBackend backend sortAs sortValue contractID =
     encodeCompositeCursorForBackend backend sortValue contractID"

definition DecodeContractsCursorForBackend ::
  "string \<Rightarrow> string \<Rightarrow> cursor_err + string \<times> string" where
  "DecodeContractsCursorForBackend expectedBackend cursor =
     (case decodeCompositeCursorForBackend expectedBackend cursor of
        Inl err \<Rightarrow> Inl (InvalidContractsCursor # err)
      | Inr r \<Rightarrow> Inr r)"

definition EncodeSpecOverrideHistoryCursorForBackend :: "string \<Rightarrow> int \<Rightarrow> string" where
  "EncodeSpecOverrideHistoryCursorForBackend backend rid =
     wrapCursorEnvelope CursorVersionCurrent backend (FormatInt rid)"

definition DecodeSpecOverrideHistoryCursorForBackend :: "string \<Rightarrow> string \<Rightarrow> cursor_err + int" where
  "DecodeSpecOverrideHistoryCursorForBackend expectedBackend cursor =
     (case unwrapCursorEnvelope cursor expectedBackend of
        Inl err \<Rightarrow> Inl (InvalidCursor # err)
      | Inr (raw, _, _) \<Rightarrow>
          (case ParseInt 64 raw of
             None \<Rightarrow> Inl [InvalidCursor, TamperedCursor]
           | Some rid \<Rightarrow> if rid \<le> 0 then Inl [InvalidCursor, TamperedCursor] else Inr rid))"

definition EncodeDeadLetterCursorForBackend :: "string \<Rightarrow> int \<Rightarrow> string" where
  "EncodeDeadLetterCursorForBackend backend rid =
     wrapCursorEnvelope CursorVersionCurrent backend (FormatInt rid)"

definition DecodeDeadLetterCursorForBackend :: "string \<Rightarrow> string \<Rightarrow> cursor_err + int" where
  "DecodeDeadLetterCursorForBackend expectedBackend cursor =
     (case unwrapCursorEnvelope cursor expectedBackend of
        Inl err \<Rightarrow> Inl (InvalidContractsCursor # err)
      | Inr (raw, _, _) \<Rightarrow>
          (case ParseInt 64 raw of
             None \<Rightarrow> Inl [InvalidContractsCursor, InvalidCursor, TamperedCursor]
           | Some rid \<Rightarrow>
               if rid \<le> 0 then Inl [InvalidContractsCursor, InvalidCursor, TamperedCursor]
               else Inr rid))"

section \<open>TOID event ids\<close>

definition FormatTOIDCursor :: "int \<Rightarrow> int \<Rightarrow> int \<Rightarrow> int \<Rightarrow> string" where
  "FormatTOIDCursor ledger txIndex opIndex eventIndex =
     (let ledger = (if ledger < 0 then 0 else ledger);
          toid = wrap64 (push_bit 32 ledger) OR push_bit 12 (txIndex AND 0xFFFFF) OR (opIndex AND 0xFFF);
          eventIndex = (if eventIndex < 0 then 0 else eventIndex)
      in FormatPadded 20 toid @ ''-'' @ FormatPadded 10 eventIndex)"

definition CursorLedger :: "string \<Rightarrow> int option" where
  "CursorLedger cursor =
     (case IndexByte cursor CHR ''-'' of
        None \<Rightarrow> None
      | Some sep \<Rightarrow>
          if sep = 0 \<or> sep = length cursor - 1 then None
          else let prefix = take sep cursor; suffix = drop (sep + 1) cursor
               in if \<not> list_all is_digit prefix then None
                  else if \<not> list_all is_digit suffix then None
                  else (case ParseInt 64 prefix of
                          None \<Rightarrow> None
                        | Some toid \<Rightarrow>
                            if toid < 2 ^ 32 then None
                            else let ledger = drop_bit 32 toid
                                 in if ledger \<le> 0 then None else Some ledger))"

section \<open>Guards on client input\<close>

definition HasSparseTopicFilter :: "event_filter \<Rightarrow> bool" where
  "HasSparseTopicFilter f \<longleftrightarrow>
     length (f_Topic f) > 0 \<or> length (f_TopicContains f) > 0 \<or> length (f_Topic0 f) > 0 \<or>
     length (f_Topic1 f) > 0 \<or> length (f_Topic2 f) > 0 \<or> length (f_Topic3 f) > 0"

text \<open>The package-wide limit (an atomic in the source) is an argument.\<close>

definition ValidateSparseFilterRange :: "int \<Rightarrow> event_filter \<Rightarrow> int \<Rightarrow> cursor_err option" where
  "ValidateSparseFilterRange globalMax f maxSpan =
     (let effectiveMax = (if maxSpan \<le> 0 then globalMax else maxSpan)
      in if effectiveMax \<le> 0 \<or> \<not> HasSparseTopicFilter f then None
         else if f_FromLedger f \<le> 0 \<or> f_ToLedger f \<le> 0 then Some [SparseFilterRangeTooWide]
         else if wrap64 (f_ToLedger f - f_FromLedger f) > effectiveMax
         then Some [SparseFilterRangeTooWide]
         else None)"

definition cursor_char :: "char \<Rightarrow> bool" where
  "cursor_char c \<longleftrightarrow>
     (let r = of_char c :: nat
      in 97 \<le> r \<and> r \<le> 122 \<or> 65 \<le> r \<and> r \<le> 90 \<or> 48 \<le> r \<and> r \<le> 57
         \<or> c = CHR ''-'' \<or> c = CHR ''_'' \<or> c = CHR ''.'' \<or> c = CHR '':'')"

definition ValidCursor :: "string \<Rightarrow> bool" where
  "ValidCursor s \<longleftrightarrow> s \<noteq> [] \<and> length s \<le> 128 \<and> list_all cursor_char s"

section \<open>Lemmas on the envelope\<close>

definition backend_tag :: "string \<Rightarrow> string" where
  "backend_tag b = (let n = normalizeCursorBackend b in if n = [] then CursorBackendAny else n)"

lemma normalizeCursorBackend_range:
  "normalizeCursorBackend b \<in> {[], ''pg'', ''sq'', ''ch'', ''an''}"
  by (simp add: normalizeCursorBackend_def Let_def)

lemma normalizeCursorBackend_tags [simp]:
  "normalizeCursorBackend ''pg'' = ''pg''" "normalizeCursorBackend ''sq'' = ''sq''"
  "normalizeCursorBackend ''ch'' = ''ch''" "normalizeCursorBackend ''an'' = ''an''"
  by code_simp+

lemma backend_tag_range: "backend_tag b \<in> {''pg'', ''sq'', ''ch'', ''an''}"
  using normalizeCursorBackend_range [of b] by (auto simp: backend_tag_def Let_def)

lemma backend_tag_props [simp]:
  "normalizeCursorBackend (backend_tag b) = backend_tag b" "backend_tag b \<noteq> []"
  "CHR ''.'' \<notin> set (backend_tag b)" "list_all cursor_char (backend_tag b)"
  "length (backend_tag b) = 2"
  using backend_tag_range [of b] by (auto simp: cursor_char_def Let_def)

lemma cursorMAC_props [simp]:
  "cursorMAC v b p \<noteq> []" "CHR ''.'' \<notin> set (cursorMAC v b p)" "length (cursorMAC v b p) = 4"
proof -
  let ?h = "hmac_sha256 cursorHMACKey (v @ ''.'' @ b @ ''.'' @ p)"
  have three: "\<exists>x y z. xs = [x, y, z]" if "length xs = 3" for xs :: string
    using that by (auto simp: length_Suc_conv numeral_3_eq_3)
  have "length (take 3 ?h) = 3" by simp
  from three [OF this] obtain x y z where "take 3 ?h = [x, y, z]" by blast
  then have mac: "cursorMAC v b p = b64_encode [x, y, z]" by (simp add: cursorMAC_def)
  show "cursorMAC v b p \<noteq> []" unfolding mac b64_encode_Nil by simp
  show "CHR ''.'' \<notin> set (cursorMAC v b p)" unfolding mac by (rule b64_encode_no_dot)
  show "length (cursorMAC v b p) = 4" unfolding mac by (simp add: Let_def)
qed

lemma wrapCursorEnvelope_eq:
  assumes "version \<noteq> []"
  shows "wrapCursorEnvelope version b payload =
    version @ CHR ''.'' # backend_tag b @ CHR ''.'' # b64_encode payload @ CHR ''.'' #
      cursorMAC version (backend_tag b) (b64_encode payload)"
  using assms by (simp add: wrapCursorEnvelope_def backend_tag_def Let_def)

text \<open>What every decoder sees of an envelope the encoders minted.\<close>

lemma unwrap_wrap:
  assumes "version \<in> {CursorVersionV1, CursorVersionCurrent}" "payload \<noteq> []"
  shows "unwrapCursorEnvelope (wrapCursorEnvelope version b payload) expected =
    (case checkCursorBackend (backend_tag b) expected of
       Some err \<Rightarrow> Inl err | None \<Rightarrow> Inr (payload, version, backend_tag b))"
proof -
  have v: "version \<noteq> []" "CHR ''.'' \<notin> set version" "\<not> length version < 2"
    "version ! 0 = CHR ''v''" "isDigits (drop 1 version)"
    using assms(1) by (auto simp: isDigits_def is_digit_def)
  let ?c = "wrapCursorEnvelope version b payload"
  have "Split ?c CHR ''.'' = [version, backend_tag b, b64_encode payload,
      cursorMAC version (backend_tag b) (b64_encode payload)]"
    using v by (simp add: wrapCursorEnvelope_eq)
  moreover have "?c \<noteq> []" "Contains ?c ''.''"
    using v by (simp_all add: wrapCursorEnvelope_eq)
  ultimately show ?thesis
    using v assms
    by (auto simp: unwrapCursorEnvelope_def Let_def validCursorMAC_def envelope_payload_def
        split: option.splits)
qed

lemma wrap_has_dot [simp]: "version \<noteq> [] \<Longrightarrow> CHR ''.'' \<in> set (wrapCursorEnvelope version b p)"
  by (simp add: wrapCursorEnvelope_eq)

text \<open>Two backends agree when one of them is the agnostic tag or they are the same.\<close>

lemma checkCursorBackend_same [simp]: "checkCursorBackend (backend_tag b) b = None"
  by (auto simp: checkCursorBackend_def backend_tag_def Let_def)

lemma checkCursorBackend_any [simp]:
  "checkCursorBackend CursorBackendAny e = None" "checkCursorBackend t CursorBackendAny = None"
  by (simp_all add: checkCursorBackend_def Let_def)

lemma checkCursorBackend_Some:
  "checkCursorBackend t e = Some err \<Longrightarrow> err = [InvalidCursor, StaleCursor, CrossBackendCursor]"
  by (auto simp: checkCursorBackend_def Let_def split: if_splits)

lemma unwrap_error_wraps_invalid:
  "unwrapCursorEnvelope c e = Inl err \<Longrightarrow> InvalidCursor \<in> set err"
  by (auto simp: unwrapCursorEnvelope_def envelope_payload_def Let_def
      split: if_splits option.splits dest!: checkCursorBackend_Some)

lemma Split_join: "Split s c = p # ps \<Longrightarrow> s = p @ concat (map (\<lambda>q. c # q) ps)"
proof (induction s arbitrary: p ps)
  case (Cons x xs)
  obtain q qs where q: "Split xs c = q # qs" by (cases "Split xs c") auto
  from Cons.IH [OF q] have xs: "xs = q @ concat (map (\<lambda>q. c # q) qs)" .
  show ?case
  proof (cases "x = c")
    case True
    with Cons.prems q have "p = []" "ps = q # qs" by auto
    with True xs show ?thesis by simp
  next
    case False
    with Cons.prems q have "p = x # q" "ps = qs" by auto
    with xs show ?thesis by simp
  qed
qed simp

lemma b64_encode_length: "length (b64_encode s) = (4 * length s + 2) div 3"
  by (induction s rule: b64_encode.induct) (simp_all add: Let_def)

lemma b64_alphabet_cursor_char: "c \<in> b64_alphabet \<Longrightarrow> cursor_char c"
proof -
  assume "c \<in> b64_alphabet"
  then have "b64_val c \<noteq> None" by (auto simp: b64_alphabet_def)
  then show ?thesis by (auto simp: b64_val_def cursor_char_def Let_def split: if_splits)
qed

lemma b64_encode_cursor_chars [simp]:
  "list_all cursor_char (b64_encode s)" "list_all cursor_char (cursorMAC v b p)"
  using b64_encode_alphabet b64_alphabet_cursor_char
  by (fastforce simp: list_all_iff cursorMAC_def)+

section \<open>Lemmas on TOID event ids\<close>

text \<open>The fields of a TOID do not overlap: it is a mixed-radix number.\<close>

lemma toid_value:
  fixes l t p :: int
  assumes "0 \<le> l" "l < 2 ^ 31"
  shows "wrap64 (push_bit 32 l) OR push_bit 12 (t AND 0xFFFFF) OR (p AND 0xFFF) =
    (l * 2 ^ 20 + t mod 2 ^ 20) * 2 ^ 12 + p mod 2 ^ 12"
proof -
  have w: "wrap64 (push_bit 32 l) = push_bit 32 l"
    using assms by (intro wrap64_id) (auto simp: push_bit_eq_mult)
  have t: "t AND 0xFFFFF = take_bit 20 t" and p: "p AND 0xFFF = take_bit 12 p"
    by (simp_all add: take_bit_eq_mask mask_eq_exp_minus_1)
  have "push_bit 32 l OR push_bit 12 (take_bit 20 t) OR take_bit 12 p =
      concat_bit 12 p (concat_bit 20 t l)"
    by (simp add: concat_bit_def push_bit_or ac_simps)
  also have "\<dots> = (l * 2 ^ 20 + t mod 2 ^ 20) * 2 ^ 12 + p mod 2 ^ 12"
    by (simp add: concat_bit_eq take_bit_eq_mod push_bit_eq_mult algebra_simps)
  finally show ?thesis by (simp add: w t p)
qed

definition toid :: "int \<Rightarrow> int \<Rightarrow> int \<Rightarrow> int" where
  "toid l t p = (l * 2 ^ 20 + t mod 2 ^ 20) * 2 ^ 12 + p mod 2 ^ 12"

lemma toid_bounds: "0 \<le> l \<Longrightarrow> l < 2 ^ 31 \<Longrightarrow> l * 2 ^ 32 \<le> toid l t p \<and> toid l t p < (l + 1) * 2 ^ 32"
proof -
  have "0 \<le> t mod 2 ^ 20" "t mod 2 ^ 20 < 2 ^ 20" "0 \<le> p mod 2 ^ 12" "p mod 2 ^ 12 < 2 ^ 12"
    by simp_all
  then show ?thesis unfolding toid_def by (simp add: algebra_simps)
qed

lemma FormatTOIDCursor_eq:
  assumes "0 \<le> l" "l < 2 ^ 31" "0 \<le> i"
  shows "FormatTOIDCursor l t p i =
    zero_pad 20 (nat_digits (nat (toid l t p))) @ CHR ''-'' # zero_pad 10 (nat_digits (nat i))"
proof -
  have "0 \<le> l * 2 ^ 32" using assms(1) by simp
  then have "0 \<le> toid l t p" using toid_bounds [OF assms(1,2), of t p] by linarith
  then show ?thesis
    using assms toid_value [OF assms(1,2), of t p, folded toid_def]
    by (simp only: FormatTOIDCursor_def Let_def FormatPadded_def not_less if_not_P append_Cons append_Nil)
qed

lemma toid_digits:
  assumes "0 \<le> l" "l < 2 ^ 31"
  shows "nat (toid l t p) < 2 ^ 63" "length (zero_pad 20 (nat_digits (nat (toid l t p)))) = 20"
proof -
  have "toid l t p < (l + 1) * 2 ^ 32" using toid_bounds [OF assms] by blast
  also have "\<dots> \<le> 2 ^ 31 * 2 ^ 32" using assms(2) by (intro mult_right_mono) auto
  finally have "toid l t p < 2 ^ 63" by simp
  then show "nat (toid l t p) < 2 ^ 63" by simp
  then have "nat (toid l t p) < 10 ^ 20" by simp
  then show "length (zero_pad 20 (nat_digits (nat (toid l t p)))) = 20"
    by (intro zero_pad_length nat_digits_length) simp_all
qed

lemma toid_less_iff:
  assumes "0 \<le> t" "t < 2 ^ 20" "0 \<le> p" "p < 2 ^ 12" "0 \<le> t'" "t' < 2 ^ 20" "0 \<le> p'" "p' < 2 ^ 12"
  shows "toid l t p < toid l' t' p' \<longleftrightarrow> l < l' \<or> l = l' \<and> (t < t' \<or> t = t' \<and> p < p')"
  using assms unfolding toid_def by auto

lemma toid_eq_iff:
  assumes "0 \<le> t" "t < 2 ^ 20" "0 \<le> p" "p < 2 ^ 12" "0 \<le> t'" "t' < 2 ^ 20" "0 \<le> p'" "p' < 2 ^ 12"
  shows "toid l t p = toid l' t' p' \<longleftrightarrow> l = l' \<and> t = t' \<and> p = p'"
  using toid_less_iff [of t p t' p' l l'] toid_less_iff [of t' p' t p l' l] assms
  by (metis less_irrefl linorder_neqE)

section \<open>Bare event ids\<close>

lemma b64_val_digit: "is_digit c \<Longrightarrow> \<exists>v. b64_val c = Some v \<and> 52 \<le> v \<and> v \<le> 61"
  by (auto simp: is_digit_def b64_val_def Let_def)

text \<open>A string that starts with two digits never decodes to a text that starts like a number or
  a date: its first byte is not ASCII.\<close>

lemma b64_decode_digits_hd:
  assumes "is_digit c1" "is_digit c2" "b64_decode (c1 # c2 # r) = Some raw"
  shows "raw \<noteq> [] \<and> 208 \<le> (of_char (hd raw) :: nat)"
proof -
  obtain v1 v2 where v: "b64_val c1 = Some v1" "52 \<le> v1" "v1 \<le> 61"
      "b64_val c2 = Some v2" "52 \<le> v2" "v2 \<le> 61"
    using b64_val_digit [OF assms(1)] b64_val_digit [OF assms(2)] by blast
  have nl: "c1 \<noteq> CHR 0x0A" "c1 \<noteq> CHR 0x0D" "c2 \<noteq> CHR 0x0A" "c2 \<noteq> CHR 0x0D"
    using assms(1,2) by (auto simp: is_digit_def)
  then obtain vs where vs: "b64_quanta (v1 # v2 # vs) = Some raw"
    using assms(3) v by (auto simp: b64_decode_def Let_def split: if_splits)
  then have "raw \<noteq> [] \<and> hd raw = char_of (v1 * 4 + v2 div 16)"
    by (cases "(v1 # v2 # vs)" rule: b64_quanta.cases) auto
  moreover have "v2 div 16 = 3" using v(5,6) by linarith
  ultimately show ?thesis using v(2,3) by simp
qed

lemma not_number_or_date:
  assumes "sv \<noteq> []" "128 \<le> (of_char (hd sv) :: nat)"
  shows "ParseInt 64 sv = None" "ParseRFC3339Nano sv = None"
proof -
  obtain c r where sv: "sv = c # r" using assms(1) by (cases sv) auto
  have c: "\<not> is_digit c" "c \<noteq> CHR ''+''" "c \<noteq> CHR ''-''"
    using assms(2) by (auto simp: sv is_digit_def)
  then show "ParseInt 64 sv = None" by (simp add: ParseInt_def ParseUint_def sv Let_def)
  have "parse_date sv = None" using c(1) by (simp add: parse_date_def sv)
  then show "ParseRFC3339Nano sv = None" by (simp add: ParseRFC3339Nano_def)
qed

lemma no_dot_no_prefix: "CHR ''.'' \<notin> set c \<Longrightarrow> \<not> hasCursorEnvelopePrefix c"
proof -
  assume "CHR ''.'' \<notin> set c"
  then have "IndexByte c CHR ''.'' = None" by (simp only: IndexByte_None not_False_eq_True)
  then show ?thesis by (simp add: hasCursorEnvelopePrefix_def del: IndexByte_None)
qed

lemma decode_bare_digits:
  assumes "is_digit c1" "is_digit c2" "CHR ''.'' \<notin> set r"
  shows "DecodeEventIDCursorForBackend b (c1 # c2 # r) = Inr (c1 # c2 # r)"
proof -
  let ?c = "c1 # c2 # r"
  have dot: "CHR ''.'' \<notin> set ?c" using assms is_digit_not by auto
  then have pre: "\<not> hasCursorEnvelopePrefix ?c" "\<not> Contains ?c ''.''"
    by (simp_all only: no_dot_no_prefix Contains_singleton not_False_eq_True)
  have "ParseInt 64 (take sep raw) = None \<and> ParseRFC3339Nano (take sep raw) = None"
    if "b64_decode ?c = Some raw" "0 < sep" for raw sep
  proof -
    have "raw \<noteq> []" "208 \<le> (of_char (hd raw) :: nat)"
      using b64_decode_digits_hd [OF assms(1,2) that(1)] by auto
    then show ?thesis
      using that(2) not_number_or_date [of "take sep raw"] by (cases raw; cases sep) auto
  qed
  then show ?thesis
    using pre by (auto simp: DecodeEventIDCursorForBackend_def Let_def split: option.splits)
qed

lemma FormatTOIDCursor_starts:
  assumes "0 \<le> l" "l < 2 ^ 31" "0 \<le> i"
  obtains c1 c2 r where "FormatTOIDCursor l t p i = c1 # c2 # r" "is_digit c1" "is_digit c2"
    "CHR ''.'' \<notin> set r"
proof -
  let ?s = "zero_pad 20 (nat_digits (nat (toid l t p)))"
  obtain c1 c2 r where s: "?s = c1 # c2 # r"
    using toid_digits(2) [OF assms(1,2), of t p] by (cases ?s; cases "tl ?s") auto
  have "list_all is_digit ?s" "list_all is_digit (zero_pad 10 (nat_digits (nat i)))" by simp_all
  then show ?thesis
    using that [of c1 c2 "r @ CHR ''-'' # zero_pad 10 (nat_digits (nat i))"] digits_set s
    by (simp add: FormatTOIDCursor_eq [OF assms])
qed

lemma TOID_chars:
  assumes "0 \<le> l" "l < 2 ^ 31" "0 \<le> i"
  shows "CHR ''|'' \<notin> set (FormatTOIDCursor l t p i) \<and>
    (\<forall>c \<in> set (FormatTOIDCursor l t p i). (of_char c :: nat) < 128)"
proof -
  let ?s = "zero_pad 20 (nat_digits (nat (toid l t p)))" and ?u = "zero_pad 10 (nat_digits (nat i))"
  have "list_all is_digit ?s" "list_all is_digit ?u" by simp_all
  then have "\<forall>c \<in> set ?s \<union> set ?u. 48 \<le> (of_char c :: nat) \<and> (of_char c :: nat) \<le> 57"
    by (auto simp: list_all_iff is_digit_def)
  then show ?thesis by (force simp: FormatTOIDCursor_eq [OF assms])
qed

lemma CursorLedger_TOID:
  assumes "0 < l" "l < 2 ^ 31" "0 \<le> i"
  shows "CursorLedger (FormatTOIDCursor l t p i) = Some l"
proof -
  let ?s = "zero_pad 20 (nat_digits (nat (toid l t p)))" and ?u = "zero_pad 10 (nat_digits (nat i))"
  have l: "0 \<le> l" using assms(1) by simp
  have dig: "list_all is_digit ?s" "list_all is_digit ?u" and ne: "?s \<noteq> []" "?u \<noteq> []" by simp_all
  have b: "l * 2 ^ 32 \<le> toid l t p" "toid l t p < (l + 1) * 2 ^ 32"
    using toid_bounds [OF l assms(2)] by auto
  have ge: "2 ^ 32 \<le> toid l t p"
    using b(1) assms(1) by simp
  have "toid l t p div 2 ^ 32 = l"
    using b by (intro int_div_pos_eq [where r = "toid l t p - l * 2 ^ 32"]) (auto simp: algebra_simps)
  then have "drop_bit 32 (toid l t p) = l" by (simp add: drop_bit_eq_div)
  moreover have "ParseInt 64 ?s = Some (toid l t p)"
    using ge toid_digits(1) [OF l assms(2), of t p] by (simp add: ParseInt_digits)
  ultimately show ?thesis
    using dig ne ge assms digits_set [OF dig(1)]
    by (simp add: CursorLedger_def FormatTOIDCursor_eq [OF l assms(2,3)] Let_def)
qed

section \<open>Properties\<close>

text \<open>C25. Cursors round trip: the cursor minted for an event under the ledger or the created_at
  ordering, by the current or by the v1 encoder, decodes on a compatible backend to exactly its
  sort value and its event id, and the ledger sort value parses back to the ledger.\<close>

theorem composite_cursor_round_trip:
  assumes "checkCursorBackend (backend_tag b) expected = None"
    and "ev_ID e \<noteq> []" and "CHR ''|'' \<notin> set (ev_ID e)"
    and "0 \<le> ev_Ledger e" and "ev_Ledger e < 2 ^ 63"
  shows "decodeCompositeCursorForBackend expected (EncodeCursorForBackend b OrderByLedger e) =
      Inr (FormatInt (ev_Ledger e), ev_ID e) \<and>
    decodeCompositeCursorForBackend expected (EncodeCursorForBackend b OrderByCreatedAt e) =
      Inr (FormatRFC3339Nano (ev_CreatedAt e), ev_ID e) \<and>
    decodeCompositeCursorForBackend expected (EncodeCursorV1 b OrderByLedger e) =
      Inr (FormatInt (ev_Ledger e), ev_ID e) \<and>
    decodeCompositeCursorForBackend expected (EncodeCursorV1 b OrderByCreatedAt e) =
      Inr (FormatRFC3339Nano (ev_CreatedAt e), ev_ID e) \<and>
    ParseInt 64 (FormatInt (ev_Ledger e)) = Some (ev_Ledger e)"
  using assms
  by (simp add: EncodeCursorForBackend_def EncodeCursorV1_def encodeCompositeCursorForBackend_def
      decodeCompositeCursorForBackend_def unwrap_wrap ParseInt_FormatInt)

theorem composite_cursor_round_trip_witness:
  "decodeCompositeCursorForBackend ''an''
     (EncodeCursorForBackend ''sqlite'' OrderByLedger (zero_event\<lparr>ev_ID := ''e1'', ev_Ledger := 7\<rparr>)) =
   Inr (FormatInt 7, ''e1'')"
  using composite_cursor_round_trip [of "''sqlite''" "''an''" "zero_event\<lparr>ev_ID := ''e1'', ev_Ledger := 7\<rparr>"]
  by simp



text \<open>C33. Whatever string a client sends, every decoder either returns a usable position (non-empty
  components, an id without separator, a positive 64-bit row id) or an error that wraps the
  invalid-cursor sentinel its handler maps to a 400; for the contracts and dead-letter listings
  also their own sentinel.\<close>

theorem decoders_total:
  "(case decodeCompositeCursorForBackend b c of
      Inl err \<Rightarrow> InvalidCursor \<in> set err
    | Inr (sv, eid) \<Rightarrow> sv \<noteq> [] \<and> eid \<noteq> [] \<and> CHR ''|'' \<notin> set eid) \<and>
   (case DecodeEventIDCursorForBackend b c of
      Inl err \<Rightarrow> InvalidCursor \<in> set err
    | Inr eid \<Rightarrow> eid \<noteq> []) \<and>
   (case DecodeContractsCursorForBackend b c of
      Inl err \<Rightarrow> InvalidContractsCursor \<in> set err \<and> InvalidCursor \<in> set err
    | Inr (sv, cid) \<Rightarrow> sv \<noteq> [] \<and> cid \<noteq> []) \<and>
   (case DecodeDeadLetterCursorForBackend b c of
      Inl err \<Rightarrow> InvalidContractsCursor \<in> set err \<and> InvalidCursor \<in> set err
    | Inr rid \<Rightarrow> 0 < rid \<and> rid < 2 ^ 63) \<and>
   (case DecodeSpecOverrideHistoryCursorForBackend b c of
      Inl err \<Rightarrow> InvalidCursor \<in> set err
    | Inr rid \<Rightarrow> 0 < rid \<and> rid < 2 ^ 63)"
proof (intro conjI)
  have comp: "case decodeCompositeCursorForBackend b c of
      Inl err \<Rightarrow> InvalidCursor \<in> set err
    | Inr (sv, eid) \<Rightarrow> sv \<noteq> [] \<and> eid \<noteq> [] \<and> CHR ''|'' \<notin> set eid"
    using LastIndex_last
    by (auto simp: decodeCompositeCursorForBackend_def Let_def
        dest: unwrap_error_wraps_invalid split: sum.splits option.splits)
  then show "case decodeCompositeCursorForBackend b c of
      Inl err \<Rightarrow> InvalidCursor \<in> set err
    | Inr (sv, eid) \<Rightarrow> sv \<noteq> [] \<and> eid \<noteq> [] \<and> CHR ''|'' \<notin> set eid" .
  from comp show "case DecodeContractsCursorForBackend b c of
      Inl err \<Rightarrow> InvalidContractsCursor \<in> set err \<and> InvalidCursor \<in> set err
    | Inr (sv, cid) \<Rightarrow> sv \<noteq> [] \<and> cid \<noteq> []"
    by (auto simp: DecodeContractsCursorForBackend_def split: sum.splits)
qed (auto simp: DecodeEventIDCursorForBackend_def DecodeDeadLetterCursorForBackend_def
    DecodeSpecOverrideHistoryCursorForBackend_def Let_def
    dest: unwrap_error_wraps_invalid ParseInt_upper split: sum.splits option.splits if_splits)

text \<open>C14. The integrity tag is always checked: a string that is accepted as a current-version
  cursor consists of exactly four parts, names a known backend, carries the keyed checksum of
  its version, backend and payload parts, and its payload is the non-empty base64url decoding of
  the third part.\<close>

theorem accepted_v2_is_authentic:
  assumes "unwrapCursorEnvelope c expected = Inr (raw, ''v2'', b)"
  shows "\<exists>tag enc mac. c = ''v2.'' @ tag @ ''.'' @ enc @ ''.'' @ mac \<and>
    normalizeCursorBackend tag = b \<and> b \<noteq> [] \<and>
    mac \<in> {cursorMAC ''v2'' b enc, cursorMAC ''v2'' tag enc} \<and>
    b64_decode enc = Some raw \<and> raw \<noteq> []"
proof -
  let ?ps = "Split c CHR ''.''"
  have four: "length ?ps = 4" "?ps ! 0 = ''v2''"
    and b: "b = normalizeCursorBackend (?ps ! 1)" "b \<noteq> []"
    and mac: "validCursorMAC ''v2'' (?ps ! 1) b (?ps ! 2) (?ps ! 3)"
    and pay: "b64_decode (?ps ! 2) = Some raw" "raw \<noteq> []"
    using assms
    by (auto simp: unwrapCursorEnvelope_def envelope_payload_def Let_def split: if_splits option.splits)
  obtain tag enc m where ps: "?ps = [''v2'', tag, enc, m]"
    using four by (auto simp: length_Suc_conv eval_nat_numeral)
  with Split_join [OF ps] b mac pay show ?thesis
    by (auto simp: validCursorMAC_def split: if_splits)
qed

theorem accepted_v2_is_authentic_witness:
  "unwrapCursorEnvelope (wrapCursorEnvelope ''v2'' ''ch'' ''7'') ''ch'' = Inr (''7'', ''v2'', ''ch'') \<and>
   (\<exists>tag enc mac. wrapCursorEnvelope ''v2'' ''ch'' ''7'' = ''v2.'' @ tag @ ''.'' @ enc @ ''.'' @ mac \<and>
     mac \<in> {cursorMAC ''v2'' ''ch'' enc, cursorMAC ''v2'' tag enc})"
proof -
  have "unwrapCursorEnvelope (wrapCursorEnvelope ''v2'' ''ch'' ''7'') ''ch'' = Inr (''7'', ''v2'', ''ch'')"
    by (simp add: unwrap_wrap backend_tag_def checkCursorBackend_def Let_def)
  then show ?thesis using accepted_v2_is_authentic by blast
qed

text \<open>C34. Under the id ordering: a bare TOID event id is accepted unchanged, a versioned id
  envelope yields the id, and a cursor of the ledger ordering, as an envelope or in the legacy
  unversioned form, is rejected as stale.\<close>

theorem event_id_cursor:
  assumes "0 \<le> l" "l < 2 ^ 31" "0 \<le> i" and "ev_ID e = FormatTOIDCursor l t p i"
    and "0 \<le> ev_Ledger e" "ev_Ledger e < 2 ^ 63"
  shows "DecodeEventIDCursorForBackend b (EncodeCursorForBackend b OrderByID e) = Inr (ev_ID e) \<and>
    DecodeEventIDCursorForBackend b (EncodeVersionedEventCursor b OrderByID e) = Inr (ev_ID e) \<and>
    DecodeEventIDCursorForBackend b (EncodeCursorForBackend b OrderByLedger e) =
      Inl [InvalidCursor, StaleCursor] \<and>
    DecodeEventIDCursorForBackend b (b64_encode (FormatInt (ev_Ledger e) @ ''|'' @ ev_ID e)) =
      Inl [InvalidCursor, StaleCursor]"
proof (intro conjI)
  obtain c1 c2 r where st: "ev_ID e = c1 # c2 # r" "is_digit c1" "is_digit c2" "CHR ''.'' \<notin> set r"
    using FormatTOIDCursor_starts [OF assms(1-3), of t p] assms(4) by metis
  have ne: "wrapCursorEnvelope ''v2'' b q \<noteq> []" for q by (simp add: wrapCursorEnvelope_eq)
  have toid: "CHR ''|'' \<notin> set (ev_ID e)" "ValidString (ev_ID e)"
    using TOID_chars [OF assms(1-3), of t p] assms(4) ValidString_ascii by auto
  show "DecodeEventIDCursorForBackend b (EncodeCursorForBackend b OrderByID e) = Inr (ev_ID e)"
    using st by (simp add: EncodeCursorForBackend_def decode_bare_digits)
  show "DecodeEventIDCursorForBackend b (EncodeVersionedEventCursor b OrderByID e) = Inr (ev_ID e)"
    using toid ne st(1)
    by (simp add: EncodeVersionedEventCursor_def DecodeEventIDCursorForBackend_def unwrap_wrap)
  show "DecodeEventIDCursorForBackend b (EncodeCursorForBackend b OrderByLedger e) =
      Inl [InvalidCursor, StaleCursor]"
    using ne by (simp add: EncodeCursorForBackend_def encodeCompositeCursorForBackend_def
        DecodeEventIDCursorForBackend_def unwrap_wrap)
  show "DecodeEventIDCursorForBackend b (b64_encode (FormatInt (ev_Ledger e) @ ''|'' @ ev_ID e)) =
      Inl [InvalidCursor, StaleCursor]"
    using toid(1) st(1) assms(5,6) ParseInt_FormatInt [of "ev_Ledger e" 64]
    by (simp add: DecodeEventIDCursorForBackend_def no_dot_no_prefix Let_def)
qed

theorem event_id_cursor_witness:
  "DecodeEventIDCursorForBackend ''pg'' (EncodeCursorForBackend ''pg'' OrderByID
      (zero_event\<lparr>ev_ID := FormatTOIDCursor 500 1 0 2, ev_Ledger := 500\<rparr>)) =
    Inr (FormatTOIDCursor 500 1 0 2)"
  using event_id_cursor [of 500 2 "zero_event\<lparr>ev_ID := FormatTOIDCursor 500 1 0 2, ev_Ledger := 500\<rparr>" 1 0 "''pg''"]
  by simp

text \<open>C27. TOID event ids carry their ledger and sort chronologically: for positions within the
  fields of the format, the byte order of two ids is the order of (ledger, transaction, operation,
  event), and the ledger read back from an id is the one it was built with.\<close>

theorem toid_order_and_ledger:
  assumes "0 < l" "l < 2 ^ 31" "0 \<le> t" "t < 2 ^ 20" "0 \<le> p" "p < 2 ^ 12" "0 \<le> i" "i < 2 ^ 31"
    and "0 < l'" "l' < 2 ^ 31" "0 \<le> t'" "t' < 2 ^ 20" "0 \<le> p'" "p' < 2 ^ 12" "0 \<le> i'" "i' < 2 ^ 31"
  shows "CursorLedger (FormatTOIDCursor l t p i) = Some l \<and>
    (FormatTOIDCursor l t p i < FormatTOIDCursor l' t' p' i' \<longleftrightarrow>
       l < l' \<or> l = l' \<and> (t < t' \<or> t = t' \<and> (p < p' \<or> p = p' \<and> i < i')))"
proof
  let ?d = "\<lambda>w n. zero_pad w (nat_digits (nat n))"
  have len: "length (?d 20 (toid l t p)) = 20" "length (?d 20 (toid l' t' p')) = 20"
    "length (?d 10 i) = 10" "length (?d 10 i') = 10"
    using toid_digits(2) assms by (auto intro!: zero_pad_length nat_digits_length)
  have "0 \<le> toid l t p" "0 \<le> toid l' t' p'" using assms by (auto simp: toid_def)
  then have pre: "?d 20 (toid l t p) < ?d 20 (toid l' t' p') \<longleftrightarrow> toid l t p < toid l' t' p'"
      "?d 20 (toid l t p) = ?d 20 (toid l' t' p') \<longleftrightarrow> toid l t p = toid l' t' p'"
      "?d 10 i < ?d 10 i' \<longleftrightarrow> i < i'"
    using len assms by (auto simp: digits_less_iff digits_eq_iff eq_nat_nat_iff)
  show "FormatTOIDCursor l t p i < FormatTOIDCursor l' t' p' i' \<longleftrightarrow>
       l < l' \<or> l = l' \<and> (t < t' \<or> t = t' \<and> (p < p' \<or> p = p' \<and> i < i'))"
    using assms len pre
    by (auto simp: FormatTOIDCursor_eq append_less_iff toid_less_iff toid_eq_iff)
  show "CursorLedger (FormatTOIDCursor l t p i) = Some l"
    using assms by (intro CursorLedger_TOID) auto
qed

theorem toid_order_and_ledger_witness:
  "FormatTOIDCursor 500 1 0 9 < FormatTOIDCursor 500 1 1 0 \<and>
   CursorLedger (FormatTOIDCursor 500 1 0 9) = Some 500"
  using toid_order_and_ledger [of 500 1 0 9 500 1 1 0] by simp

text \<open>Row-id cursors round trip: every positive 64-bit row id is recovered from its
  dead-letter and its spec-override-history cursor on the backend that minted it, and a
  non-positive id is never accepted back.\<close>

lemma row_id_cursors:
  assumes "- (2 ^ 63) < rid" "rid < 2 ^ 63"
  shows "DecodeDeadLetterCursorForBackend b (EncodeDeadLetterCursorForBackend b rid) =
      (if 0 < rid then Inr rid else Inl [InvalidContractsCursor, InvalidCursor, TamperedCursor]) \<and>
    DecodeSpecOverrideHistoryCursorForBackend b (EncodeSpecOverrideHistoryCursorForBackend b rid) =
      (if 0 < rid then Inr rid else Inl [InvalidCursor, TamperedCursor])"
  using ParseInt_FormatInt [of rid 64] ParseInt_FormatInt_neg [of rid 64] assms
  by (cases "0 \<le> rid")
    (auto simp: DecodeDeadLetterCursorForBackend_def EncodeDeadLetterCursorForBackend_def
      DecodeSpecOverrideHistoryCursorForBackend_def EncodeSpecOverrideHistoryCursorForBackend_def
      unwrap_wrap)


text \<open>A minted cursor passes the API's syntactic check exactly when its payload has at most 87
  bytes: every character is allowed, and the fixed parts leave that much of the 128 characters.\<close>

lemma minted_cursor_valid_iff:
  "ValidCursor (wrapCursorEnvelope CursorVersionCurrent b payload) \<longleftrightarrow> length payload \<le> 87"
proof -
  have "list_all cursor_char (wrapCursorEnvelope ''v2'' b payload)"
    by (simp add: wrapCursorEnvelope_eq) (simp add: cursor_char_def Let_def)
  moreover have "length (wrapCursorEnvelope ''v2'' b payload) = 11 + (4 * length payload + 2) div 3"
    by (simp add: wrapCursorEnvelope_eq b64_encode_length)
  moreover have "11 + (4 * length payload + 2) div 3 \<le> 128 \<longleftrightarrow> length payload \<le> 87"
    by presburger
  ultimately show ?thesis by (auto simp: ValidCursor_def)
qed

end
