(* ===== verification/Go_Json.thy ===== *)
theory Go_Json
  imports Go_Encoding
begin

text \<open>
  The part of \<^verbatim>\<open>encoding/json\<close> the decoders rely on: reading a JSON string literal into a Go
  string (\<^verbatim>\<open>json.Unmarshal\<close> into a \<^verbatim>\<open>string\<close>), with its escapes, surrogate pairs and the
  replacement of malformed UTF-8.
\<close>

section \<open>Runes\<close>

text \<open>\<^verbatim>\<open>utf8.AppendRune\<close> for code points that are not surrogates.\<close>

definition encode_rune :: "nat \<Rightarrow> string" where
  "encode_rune r =
     (if r < 128 then [char_of r]
      else if r < 2048 then [char_of (192 + r div 64), char_of (128 + r mod 64)]
      else if r < 65536
      then [char_of (224 + r div 4096), char_of (128 + r div 64 mod 64), char_of (128 + r mod 64)]
      else [char_of (240 + r div 262144), char_of (128 + r div 4096 mod 64),
            char_of (128 + r div 64 mod 64), char_of (128 + r mod 64)])"

definition replacement :: string where
  "replacement = encode_rune 0xFFFD"

lemma encode_rune_not_ascii:
  assumes "128 \<le> r"
  shows "\<exists>c \<in> set (encode_rune r). 128 \<le> (of_char c :: nat)"
proof -
  have "(128 + r mod 64) mod 256 = 128 + r mod 64"
    by (rule mod_less) (use mod_less_divisor [of 64 r] in simp)
  then have "128 \<le> (of_char (char_of (128 + r mod 64)) :: nat)" by simp
  then show ?thesis using assms by (auto simp: encode_rune_def)
qed

section \<open>String literals\<close>

definition hex_val :: "char \<Rightarrow> nat option" where
  "hex_val c =
     (let n = of_char c :: nat in
      if 48 \<le> n \<and> n \<le> 57 then Some (n - 48) else if 97 \<le> n \<and> n \<le> 102 then Some (n - 87)
      else if 65 \<le> n \<and> n \<le> 70 then Some (n - 55) else None)"

fun getu4 :: "string \<Rightarrow> nat option" where
  "getu4 (a # b # c # d # r) =
     (case (hex_val a, hex_val b, hex_val c, hex_val d) of
        (Some w, Some x, Some y, Some z) \<Rightarrow> Some (((w * 16 + x) * 16 + y) * 16 + z)
      | _ \<Rightarrow> None)"
| "getu4 _ = None"

text \<open>\<^verbatim>\<open>utf16.DecodeRune\<close>: the code point of a surrogate pair.\<close>

definition surrogate_pair :: "nat \<Rightarrow> nat \<Rightarrow> nat option" where
  "surrogate_pair hi lo =
     (if 0xD800 \<le> hi \<and> hi < 0xDC00 \<and> 0xDC00 \<le> lo \<and> lo < 0xE000
      then Some ((hi - 0xD800) * 1024 + (lo - 0xDC00) + 0x10000) else None)"

text \<open>What a \<^verbatim>\<open>\u\<close> escape denotes, and the input after it; the argument starts after the
  \<^verbatim>\<open>u\<close>.\<close>

definition unquote_u :: "string \<Rightarrow> (string \<times> string) option" where
  "unquote_u r =
     (case getu4 r of
        None \<Rightarrow> None
      | Some rr \<Rightarrow>
          let r' = drop 4 r
          in if 0xD800 \<le> rr \<and> rr < 0xE000
             then (if take 2 r' = [CHR 0x5C, CHR ''u'']
                   then case getu4 (drop 2 r') of
                       None \<Rightarrow> Some (replacement, r')
                     | Some rr1 \<Rightarrow>
                         (case surrogate_pair rr rr1 of
                            None \<Rightarrow> Some (replacement, r')
                          | Some cp \<Rightarrow> Some (encode_rune cp, drop 6 r'))
                   else Some (replacement, r'))
             else Some (encode_rune rr, r'))"

definition simple_escape :: "char \<Rightarrow> char option" where
  "simple_escape e =
     (if e = CHR 0x22 \<or> e = CHR 0x5C \<or> e = CHR ''/'' then Some e
      else if e = CHR ''b'' then Some (CHR 0x08) else if e = CHR ''f'' then Some (CHR 0x0C)
      else if e = CHR ''n'' then Some (CHR 0x0A) else if e = CHR ''r'' then Some (CHR 0x0D)
      else if e = CHR ''t'' then Some (CHR 0x09) else None)"

text \<open>The next piece of a literal's body: its bytes, and the input after it.\<close>

definition unquote_step :: "string \<Rightarrow> (string \<times> string) option" where
  "unquote_step b =
     (case b of
        [] \<Rightarrow> None
      | c # s \<Rightarrow>
          if c = CHR 0x5C then
            (case s of
               [] \<Rightarrow> None
             | e # r \<Rightarrow>
                 if e = CHR ''u'' then unquote_u r
                 else map_option (\<lambda>x. ([x], r)) (simple_escape e))
          else if c = CHR 0x22 \<or> (of_char c :: nat) < 32 then None
          else if (of_char c :: nat) < 128 then Some ([c], s)
          else case utf8_size b of
              None \<Rightarrow> Some (replacement, s)
            | Some n \<Rightarrow> Some (take n b, drop n b))"

lemma unquote_u_shorter: "unquote_u r = Some (out, r') \<Longrightarrow> length r' < length r"
  by (cases r rule: getu4.cases)
    (auto simp: unquote_u_def Let_def split: if_splits option.splits)

lemma unquote_step_shorter: "unquote_step b = Some (out, r) \<Longrightarrow> length r < length b"
  by (auto simp: unquote_step_def split: list.splits if_splits option.splits
      dest!: unquote_u_shorter utf8_size_pos)

function json_unquote :: "string \<Rightarrow> string option" where
  "json_unquote b =
     (if b = [] then Some []
      else case unquote_step b of
          None \<Rightarrow> None
        | Some (out, r) \<Rightarrow> map_option (\<lambda>t. out @ t) (json_unquote r))"
  by pat_completeness auto
termination
  by (relation "measure length") (auto dest: unquote_step_shorter)

declare json_unquote.simps [simp del]

section \<open>An ASCII result is no longer than the literal\<close>

definition ascii :: "string \<Rightarrow> bool" where
  "ascii s \<longleftrightarrow> (\<forall>c \<in> set s. (of_char c :: nat) < 128)"

lemma replacement_not_ascii: "\<not> ascii replacement"
  using encode_rune_not_ascii [of "0xFFFD"] by (auto simp: ascii_def replacement_def not_less)

lemma encode_rune_ascii: "ascii (encode_rune r) \<Longrightarrow> length (encode_rune r) = Suc 0"
proof (cases "r < 128")
  case False
  moreover assume "ascii (encode_rune r)"
  ultimately show ?thesis using encode_rune_not_ascii [of r] by (auto simp: ascii_def)
qed (simp add: encode_rune_def)

lemma unquote_u_ascii: "unquote_u r = Some (out, r') \<Longrightarrow> ascii out \<Longrightarrow> length out = 1"
  using replacement_not_ascii
  by (auto simp: unquote_u_def Let_def surrogate_pair_def split: if_splits option.splits
      intro!: encode_rune_ascii)

lemma unquote_step_ascii:
  assumes "unquote_step b = Some (out, r)" "ascii out"
  shows "length out + length r \<le> length b"
proof -
  have u: "length out + length q \<le> length p" if "unquote_u p = Some (out, q)" for p q
    using unquote_u_ascii [OF that assms(2)] unquote_u_shorter [OF that] by simp
  show ?thesis
    using assms replacement_not_ascii
    by (auto simp: unquote_step_def split: list.splits if_splits option.splits
        dest!: u)
qed

lemma json_unquote_ascii: "json_unquote b = Some a \<Longrightarrow> ascii a \<Longrightarrow> length a \<le> length b"
proof (induction b arbitrary: a rule: json_unquote.induct)
  case (1 b)
  show ?case
  proof (cases "b = []")
    case False
    with 1(2) obtain out r t where st: "unquote_step b = Some (out, r)" "json_unquote r = Some t"
        "a = out @ t"
      by (auto simp: json_unquote.simps [of b] split: option.splits)
    with 1(3) have "ascii out" "ascii t" by (auto simp: ascii_def)
    with 1(1) [OF False st(1) _ st(2)] unquote_step_ascii [OF st(1)] st(3) show ?thesis by simp
  qed (use 1 in \<open>simp add: json_unquote.simps\<close>)
qed

lemma json_unquote_plain:
  assumes "\<forall>c \<in> set b. c \<noteq> CHR 0x5C \<and> c \<noteq> CHR 0x22 \<and> 32 \<le> (of_char c :: nat) \<and> (of_char c :: nat) < 128"
  shows "json_unquote b = Some b"
  using assms
  by (induction b) (auto simp: json_unquote.simps [of "[]"] json_unquote.simps [of "_ # _"] unquote_step_def)

end
