(* ===== verification/Address.thy ===== *)
theory Address
  imports Go_Json Go_Strconv
begin

text \<open>
  Address extraction, \<^verbatim>\<open>internal/decode/address.go\<close>: a scanner that finds the strkeys in the
  decoded JSON of an event without parsing it. A position in a byte slice is modelled by the
  bytes from there on, so \<^verbatim>\<open>skipWS(b, i)\<close> is a function of the rest and an end position is a
  number of bytes; a scanner's \<^verbatim>\<open>ok = false\<close> is \<^const>\<open>None\<close>. The calls of the closure
  \<^verbatim>\<open>add\<close> are the list of their arguments, in order, and \<^verbatim>\<open>AppendAddresses\<close> runs the closure
  over that list.
\<close>

section \<open>Scanners\<close>

definition isAddress :: "string \<Rightarrow> bool" where
  "isAddress s \<longleftrightarrow>
     length s = 56 \<and> (s ! 0 = CHR ''G'' \<or> s ! 0 = CHR ''C'') \<and>
     list_all (\<lambda>c. let r = of_char c :: nat in 65 \<le> r \<and> r \<le> 90 \<or> 50 \<le> r \<and> r \<le> 55) (drop 1 s)"

definition isWS :: "char \<Rightarrow> bool" where
  "isWS c \<longleftrightarrow> c = CHR '' '' \<or> c = CHR 0x09 \<or> c = CHR 0x0A \<or> c = CHR 0x0D"

fun skipWS :: "string \<Rightarrow> string" where
  "skipWS [] = []"
| "skipWS (c # s) = (if isWS c then skipWS s else c # s)"

text \<open>The loop of \<^verbatim>\<open>scanJSONStringEnd\<close>, with the bytes consumed so far.\<close>

fun scan_body :: "string \<Rightarrow> nat \<Rightarrow> bool \<Rightarrow> (nat \<times> bool) option" where
  "scan_body [] n esc = None"
| "scan_body (c # s) n esc =
     (if c = CHR 0x5C then scan_body (drop 1 s) (n + 2) True
      else if c = CHR 0x22 then Some (n + 1, esc)
      else scan_body s (n + 1) esc)"

definition scanJSONStringEnd :: "string \<Rightarrow> (nat \<times> bool) option" where
  "scanJSONStringEnd s = (if s = [] \<or> hd s \<noteq> CHR 0x22 then None else scan_body (tl s) 1 False)"

lemma scan_body_ge: "scan_body s n esc = Some (m, e) \<Longrightarrow> n < m"
  by (induction s n esc rule: scan_body.induct) (auto split: if_splits)

lemma scanJSONStringEnd_ge: "scanJSONStringEnd s = Some (m, e) \<Longrightarrow> 1 < m \<and> s \<noteq> []"
  by (auto simp: scanJSONStringEnd_def split: if_splits dest: scan_body_ge)

text \<open>The bracket-matching loop of \<^verbatim>\<open>scanJSONValueEnd\<close>.\<close>

function scan_nest :: "string \<Rightarrow> int \<Rightarrow> nat \<Rightarrow> nat option" where
  "scan_nest s depth n =
     (if s = [] then None
      else if hd s = CHR 0x22 then
        (case scanJSONStringEnd s of
           None \<Rightarrow> None
         | Some (m, _) \<Rightarrow> scan_nest (drop m s) depth (n + m))
      else if hd s = CHR ''{'' \<or> hd s = CHR ''['' then scan_nest (tl s) (depth + 1) (n + 1)
      else if hd s = CHR ''}'' \<or> hd s = CHR '']'' then
        (if depth - 1 = 0 then Some (n + 1) else scan_nest (tl s) (depth - 1) (n + 1))
      else scan_nest (tl s) depth (n + 1))"
  by pat_completeness auto
termination
  by (relation "measure (\<lambda>(s, _, _). length s)") (auto dest: scanJSONStringEnd_ge)

declare scan_nest.simps [simp del]

definition isDelim :: "char \<Rightarrow> bool" where
  "isDelim c \<longleftrightarrow> c = CHR '','' \<or> c = CHR ''}'' \<or> c = CHR '']'' \<or> isWS c"

definition scanJSONValueEnd :: "string \<Rightarrow> nat option" where
  "scanJSONValueEnd s =
     (if s = [] then None
      else if hd s = CHR 0x22 then map_option fst (scanJSONStringEnd s)
      else if hd s = CHR ''{'' \<or> hd s = CHR ''['' then scan_nest s 0 0
      else let n = length (takeWhile (\<lambda>c. \<not> isDelim c) s) in if n > 0 then Some n else None)"

lemma scan_nest_ge: "scan_nest s depth n = Some m \<Longrightarrow> n < m"
proof (induction s depth n arbitrary: m rule: scan_nest.induct)
  case (1 s depth n)
  from 1(5) show ?case
    unfolding scan_nest.simps [of s depth n]
    by (auto split: if_splits option.splits dest: 1(1) [OF _ _ _ refl] 1(2) 1(3) 1(4))
qed

lemma scanJSONValueEnd_pos: "scanJSONValueEnd s = Some n \<Longrightarrow> 0 < n \<and> s \<noteq> []"
  by (auto simp: scanJSONValueEnd_def Let_def split: if_splits
      dest: scanJSONStringEnd_ge scan_nest_ge)

lemma skipWS_length: "length (skipWS s) \<le> length s"
  by (induction s) auto

text \<open>The loops step over a comma after an element.\<close>

definition skipComma :: "string \<Rightarrow> string" where
  "skipComma s = (if s \<noteq> [] \<and> hd s = CHR '','' then tl s else s)"

lemma skipComma_length: "length (skipComma s) \<le> length s"
  by (simp add: skipComma_def)

lemma skip_shorter:
  assumes "scanJSONValueEnd (skipWS s) = Some n"
  shows "length (skipComma (skipWS (drop n (skipWS s)))) < length s"
proof -
  have "length (skipComma (skipWS (drop n (skipWS s)))) \<le> length (drop n (skipWS s))"
    using skipComma_length skipWS_length by (rule order_trans)
  also have "\<dots> < length (skipWS s)" using scanJSONValueEnd_pos [OF assms] by simp
  also have "\<dots> \<le> length s" by (rule skipWS_length)
  finally show ?thesis .
qed

section \<open>The walk\<close>

text \<open>One \<^verbatim>\<open>"key": value\<close> of an object: the key with its quotes, whether it has an escape, the
  value, and the input after it.\<close>

definition scan_member :: "string \<Rightarrow> (string \<times> bool \<times> string \<times> string) option" where
  "scan_member s =
     (case scanJSONStringEnd s of
        None \<Rightarrow> None
      | Some (k, esc) \<Rightarrow>
          let s2 = skipWS (drop k s)
          in if s2 = [] \<or> hd s2 \<noteq> CHR '':'' then None
             else let s3 = skipWS (tl s2)
                  in (case scanJSONValueEnd s3 of
                        None \<Rightarrow> None
                      | Some n \<Rightarrow> Some (take k s, esc, take n s3, skipWS (drop n s3))))"

lemma scan_member_shorter: "scan_member s = Some (k, esc, v, r) \<Longrightarrow> length r < length s"
proof -
  assume "scan_member s = Some (k, esc, v, r)"
  then obtain a n where r: "r = skipWS (drop n (skipWS (tl (skipWS (drop a s)))))" and a: "1 < a" "s \<noteq> []"
    by (auto simp: scan_member_def Let_def split: option.splits if_splits dest!: scanJSONStringEnd_ge)
  let ?t = "skipWS (tl (skipWS (drop a s)))"
  have "length r \<le> length (drop n ?t)" unfolding r by (rule skipWS_length)
  moreover have "length ?t \<le> length (skipWS (drop a s))"
    using skipWS_length [of "tl (skipWS (drop a s))"] by simp
  moreover have "length (skipWS (drop a s)) \<le> length (drop a s)" by (rule skipWS_length)
  ultimately show ?thesis using a by (cases s) auto
qed

text \<open>The loops over the elements of an array and over the members of an object after the first;
  \<open>ex\<close> is what they do with a value of at least 58 bytes.\<close>

function walk_array :: "(string \<Rightarrow> 'a list) \<Rightarrow> string \<Rightarrow> 'a list" where
  "walk_array ex s =
     (let s1 = skipWS s
      in if s1 = [] \<or> hd s1 = CHR '']'' then []
         else case scanJSONValueEnd s1 of
             None \<Rightarrow> []
           | Some n \<Rightarrow>
               (if n \<ge> 58 then ex (take n s1) else []) @
               walk_array ex (skipComma (skipWS (drop n s1))))"
  by pat_completeness auto
termination
  by (relation "measure (\<lambda>(ex, s). length s)") (auto dest: skip_shorter)

function walk_members :: "(string \<Rightarrow> 'a list) \<Rightarrow> string \<Rightarrow> 'a list" where
  "walk_members ex s =
     (if s = [] \<or> hd s \<noteq> CHR '','' then []
      else case scan_member (skipWS (tl s)) of
          None \<Rightarrow> []
        | Some (k, esc, v, r) \<Rightarrow> (if length v \<ge> 58 then ex v else []) @ walk_members ex r)"
  by pat_completeness auto
termination
proof (relation "measure (\<lambda>(ex, s). length s)", goal_cases)
  case (2 ex s m k p esc q v r)
  then have "length r < length (skipWS (tl s))" by (auto dest: scan_member_shorter)
  also have "\<dots> \<le> length (tl s)" by (rule skipWS_length)
  finally show ?case using 2 by (cases s) auto
qed simp

declare walk_array.simps [simp del] walk_members.simps [simp del]

type_synonym add_call = "string \<times> string"

definition maxExtractDepth :: nat where
  "maxExtractDepth = 32"

function extractFromValue :: "string \<Rightarrow> string \<Rightarrow> nat \<Rightarrow> add_call list" where
  "extractFromValue raw role depth =
     (if depth > maxExtractDepth then []
      else let raw = skipWS raw
           in if length raw < 58 then []
              else if hd raw = CHR 0x22 then
                (case scanJSONStringEnd raw of
                   None \<Rightarrow> []
                 | Some (end, hasEscape) \<Rightarrow>
                     if \<not> hasEscape
                     then (if end = 58 \<and> isAddress (take 56 (drop 1 raw))
                           then [(take 56 (drop 1 raw), role)] else [])
                     else (case json_unquote (take (end - 2) (drop 1 raw)) of
                             None \<Rightarrow> []
                           | Some s \<Rightarrow> [(s, role)]))
              else if hd raw = CHR ''['' then
                walk_array (\<lambda>e. extractFromValue e role (depth + 1)) (tl raw)
              else if hd raw = CHR ''{'' then
                (let s = skipWS (tl raw)
                 in if s = [] \<or> hd s = CHR ''}'' then []
                    else case scan_member s of
                        None \<Rightarrow> []
                      | Some (k, esc, v, r) \<Rightarrow>
                          if \<not> esc \<and> k = [CHR 0x22] @ ''unknown'' @ [CHR 0x22] \<and> r \<noteq> [] \<and> hd r = CHR ''}''
                          then []
                          else (if length v \<ge> 58 then extractFromValue v role (depth + 1) else []) @
                               walk_members (\<lambda>e. extractFromValue e role (depth + 1)) r)
              else [])"
  by pat_completeness auto
termination
  by (relation "measure (\<lambda>(raw, role, depth). Suc maxExtractDepth - depth)")
    (auto simp: maxExtractDepth_def)

declare extractFromValue.simps [simp del]

text \<open>\<^verbatim>\<open>string(rune(n))\<close> is \<^const>\<open>encode_rune\<close>.\<close>

definition itoa :: "nat \<Rightarrow> string" where
  "itoa i = (if i < 10 then encode_rune (48 + i)
     else encode_rune (48 + i div 10) @ encode_rune (48 + i mod 10))"

definition precomputedTopicRoles :: "string list" where
  "precomputedTopicRoles =
     [''topic[0]'', ''topic[1]'', ''topic[2]'', ''topic[3]'', ''topic[4]'', ''topic[5]'', ''topic[6]'',
      ''topic[7]'', ''topic[8]'', ''topic[9]'', ''topic[10]'', ''topic[11]'', ''topic[12]'',
      ''topic[13]'', ''topic[14]'', ''topic[15]'']"

definition formatTopicRole :: "nat \<Rightarrow> string" where
  "formatTopicRole i =
     (if i < length precomputedTopicRoles then precomputedTopicRoles ! i
      else ''topic['' @ itoa i @ '']'')"

function walk_topics :: "nat \<Rightarrow> string \<Rightarrow> add_call list" where
  "walk_topics topicIdx s =
     (let s1 = skipWS s
      in if s1 = [] \<or> hd s1 = CHR '']'' then []
         else case scanJSONValueEnd s1 of
             None \<Rightarrow> []
           | Some n \<Rightarrow>
               (if n \<ge> 58 then extractFromValue (take n s1) (formatTopicRole topicIdx) 0 else []) @
               walk_topics (topicIdx + 1) (skipComma (skipWS (drop n s1))))"
  by pat_completeness auto
termination
  by (relation "measure (\<lambda>(i, s). length s)") (auto dest: skip_shorter)

declare walk_topics.simps [simp del]

definition walkTopLevelTopics :: "string \<Rightarrow> add_call list" where
  "walkTopLevelTopics topics =
     (let s = skipWS topics
      in if s = [] \<or> hd s \<noteq> CHR ''['' then [] else walk_topics 0 (tl s))"

section \<open>The deduplicating closure\<close>

record address_ref =
  ref_Address :: string
  ref_Role :: string
  ref_EventID :: string

text \<open>The variables the closure \<^verbatim>\<open>add\<close> captures: up to eight seen pairs in an array, a map from
  the ninth on, and the destination slice.\<close>

record add_state =
  seenSmall :: "add_call list"
  seenMap :: "add_call set option"
  dst :: "address_ref list"

definition addAddress :: "string \<Rightarrow> add_call \<Rightarrow> add_state \<Rightarrow> add_state" where
  "addAddress eventID key st =
     (if \<not> isAddress (fst key) then st
      else let app = (\<lambda>st. st\<lparr>dst := dst st @ [\<lparr>ref_Address = fst key, ref_Role = snd key, ref_EventID = eventID\<rparr>]\<rparr>)
           in case seenMap st of
               Some m \<Rightarrow> if key \<in> m then st else app (st\<lparr>seenMap := Some (insert key m)\<rparr>)
             | None \<Rightarrow>
                 if key \<in> set (seenSmall st) then st
                 else if length (seenSmall st) < 8
                 then app (st\<lparr>seenSmall := seenSmall st @ [key]\<rparr>)
                 else app (st\<lparr>seenMap := Some (insert key (set (seenSmall st)))\<rparr>))"

definition address_calls :: "string \<Rightarrow> string \<Rightarrow> add_call list" where
  "address_calls topics val =
     (if length topics \<ge> 58 then walkTopLevelTopics topics else []) @
     (if length val \<ge> 58 then extractFromValue val ''value'' 0 else [])"

definition AppendAddresses ::
  "address_ref list \<Rightarrow> string \<Rightarrow> string \<Rightarrow> string \<Rightarrow> address_ref list" where
  "AppendAddresses dst0 eventID topics val =
     (if length topics < 58 \<and> length val < 58 then dst0
      else dst (fold (addAddress eventID) (address_calls topics val)
                  \<lparr>seenSmall = [], seenMap = None, dst = dst0\<rparr>))"

definition ExtractAddresses :: "string \<Rightarrow> string \<Rightarrow> address_ref list" where
  "ExtractAddresses topics val = AppendAddresses [] [] topics val"

end
