(* ===== verification/Address_Spec.thy ===== *)
theory Address_Spec
  imports Address
begin

text \<open>
  What address extraction promises, stated on JSON trees: a tree is rendered the way the decoder
  prints it, and the scanner of \<^verbatim>\<open>internal/decode/address.go\<close> finds exactly the strkeys among the
  string values of the tree, in order, leaving out \<^verbatim>\<open>{"unknown": ...}\<close> objects.
\<close>

section \<open>JSON trees\<close>

text \<open>A literal is a number, \<^verbatim>\<open>true\<close>, \<^verbatim>\<open>false\<close> or \<^verbatim>\<open>null\<close>; a string is kept as the body of its
  literal, escapes included.\<close>

datatype json = JLit string | JStr string | JArr "json list" | JObj "(string \<times> json) list"

fun commas :: "string list \<Rightarrow> string" where
  "commas [] = []"
| "commas [x] = x"
| "commas (x # y # xs) = x @ CHR '','' # commas (y # xs)"

definition quoted :: "string \<Rightarrow> string" where
  "quoted b = CHR 0x22 # b @ [CHR 0x22]"

fun render :: "json \<Rightarrow> string" where
  "render (JLit s) = s"
| "render (JStr b) = quoted b"
| "render (JArr xs) = CHR ''['' # commas (map render xs) @ '']''"
| "render (JObj kvs) = CHR ''{'' # commas (map (\<lambda>(k, v). quoted k @ CHR '':'' # render v) kvs) @ ''}''"

fun wf_body :: "string \<Rightarrow> bool" where
  "wf_body [] \<longleftrightarrow> True"
| "wf_body (c # s) \<longleftrightarrow>
     (if c = CHR 0x5C then (case s of [] \<Rightarrow> False | _ # r \<Rightarrow> wf_body r)
      else c \<noteq> CHR 0x22 \<and> wf_body s)"

definition lit_char :: "char \<Rightarrow> bool" where
  "lit_char c \<longleftrightarrow> \<not> isDelim c \<and> c \<noteq> CHR 0x22 \<and> c \<noteq> CHR ''{'' \<and> c \<noteq> CHR ''['' \<and> c \<noteq> CHR '':''"

fun wf_json :: "json \<Rightarrow> bool" where
  "wf_json (JLit s) \<longleftrightarrow> s \<noteq> [] \<and> list_all lit_char s"
| "wf_json (JStr b) \<longleftrightarrow> wf_body b"
| "wf_json (JArr xs) \<longleftrightarrow> (\<forall>x \<in> set xs. wf_json x)"
| "wf_json (JObj kvs) \<longleftrightarrow> (\<forall>kv \<in> set kvs. wf_body (fst kv) \<and> wf_json (snd kv))"

text \<open>Nesting, and the addresses of a tree: the reference the scanner is compared with.\<close>

fun height :: "json \<Rightarrow> nat" where
  "height (JArr xs) = Suc (foldr max (map height xs) 0)"
| "height (JObj kvs) = Suc (foldr max (map (\<lambda>kv. height (snd kv)) kvs) 0)"
| "height _ = 0"

definition body_string :: "string \<Rightarrow> string option" where
  "body_string b = (if CHR 0x5C \<in> set b then json_unquote b else Some b)"

fun addresses :: "json \<Rightarrow> string list" where
  "addresses (JLit s) = []"
| "addresses (JStr b) =
     (case body_string b of None \<Rightarrow> [] | Some a \<Rightarrow> if isAddress a then [a] else [])"
| "addresses (JArr xs) = concat (map addresses xs)"
| "addresses (JObj kvs) =
     (if length kvs = 1 \<and> fst (hd kvs) = ''unknown'' then []
      else concat (map (\<lambda>kv. addresses (snd kv)) kvs))"

section \<open>The scanners on rendered trees\<close>

lemma scan_body_wf:
  "wf_body b \<Longrightarrow> scan_body (b @ CHR 0x22 # r) n esc =
     Some (n + length b + 1, esc \<or> CHR 0x5C \<in> set b)"
proof (induction b arbitrary: n esc rule: wf_body.induct)
  case (2 c s)
  then show ?case by (cases s) (auto split: if_splits)
qed simp

lemma scanJSONStringEnd_quoted [simp]:
  "wf_body b \<Longrightarrow> scanJSONStringEnd (quoted b @ r) = Some (length (quoted b), CHR 0x5C \<in> set b)"
  "wf_body b \<Longrightarrow> scanJSONStringEnd (quoted b) = Some (length (quoted b), CHR 0x5C \<in> set b)"
  using scan_body_wf [of b r 1 False] scan_body_wf [of b "[]" 1 False]
  by (simp_all add: scanJSONStringEnd_def quoted_def)

lemma quoted_simps [simp]: "hd (quoted b) = CHR 0x22" "quoted b \<noteq> []" "length (quoted b) = length b + 2"
  by (simp_all add: quoted_def)

lemma scan_nest_quoted:
  "wf_body b \<Longrightarrow> scan_nest (quoted b @ r) d n = scan_nest r d (n + length (quoted b))"
  by (subst scan_nest.simps) simp

lemma scan_nest_char:
  "c \<noteq> CHR 0x22 \<Longrightarrow> scan_nest (c # r) d n =
     (if c = CHR ''{'' \<or> c = CHR ''['' then scan_nest r (d + 1) (n + 1)
      else if c = CHR ''}'' \<or> c = CHR '']'' then
        (if d = 1 then Some (n + 1) else scan_nest r (d - 1) (n + 1))
      else scan_nest r d (n + 1))"
  by (subst scan_nest.simps) simp

lemma scan_nest_lit: "list_all lit_char s \<Longrightarrow> scan_nest (s @ r) d n = scan_nest r d (n + length s)"
proof (induction s arbitrary: n)
  case (Cons c s)
  then show ?case by (auto simp: scan_nest_char lit_char_def isDelim_def)
qed simp

text \<open>A list of pieces that the bracket matcher passes over at any inner level.\<close>

definition nest_skips :: "string \<Rightarrow> bool" where
  "nest_skips s \<longleftrightarrow> (\<forall>r d n. 1 \<le> d \<longrightarrow> scan_nest (s @ r) d n = scan_nest r d (n + length s))"

lemma nest_skips_commas: "\<forall>p \<in> set ps. nest_skips p \<Longrightarrow> nest_skips (commas ps)"
proof (induction ps rule: commas.induct)
  case (3 x y xs)
  then have "nest_skips x" "nest_skips (commas (y # xs))" by simp_all
  then show ?case by (auto simp: nest_skips_def scan_nest_char add.assoc)
qed (simp_all add: nest_skips_def)

lemma nest_skips_bracket:
  assumes "nest_skips s" "(a, b) \<in> {(CHR ''['', CHR '']''), (CHR ''{'', CHR ''}'')}"
  shows "nest_skips (a # s @ [b])"
  using assms by (auto simp: nest_skips_def scan_nest_char)

lemma nest_skips_member: "wf_body k \<Longrightarrow> nest_skips v \<Longrightarrow> nest_skips (quoted k @ CHR '':'' # v)"
  by (simp add: nest_skips_def scan_nest_quoted scan_nest_char add.assoc)

lemma nest_skips_render: "wf_json j \<Longrightarrow> nest_skips (render j)"
proof (induction j rule: render.induct)
  case (1 s)
  then show ?case by (simp add: nest_skips_def scan_nest_lit)
next
  case (2 b)
  then show ?case by (simp add: nest_skips_def scan_nest_quoted)
next
  case (3 xs)
  then show ?case using nest_skips_bracket [OF nest_skips_commas] by simp
next
  case (4 kvs)
  then have "\<forall>p \<in> set (map (\<lambda>(k, v). quoted k @ CHR '':'' # render v) kvs). nest_skips p"
    by (auto intro!: nest_skips_member)
  from nest_skips_bracket [OF nest_skips_commas [OF this], of "CHR ''{''" "CHR ''}''"]
  show ?case by simp
qed

lemma scan_nest_top:
  assumes "nest_skips s" "(a, b) \<in> {(CHR ''['', CHR '']''), (CHR ''{'', CHR ''}'')}"
  shows "scan_nest (a # s @ b # r) 0 0 = Some (length s + 2)"
  using assms by (auto simp: nest_skips_def scan_nest_char)

definition ends_value :: "string \<Rightarrow> bool" where
  "ends_value r \<longleftrightarrow> r = [] \<or> isDelim (hd r)"

lemma scanJSONValueEnd_render:
  assumes "wf_json j" "ends_value r"
  shows "scanJSONValueEnd (render j @ r) = Some (length (render j))"
proof (cases j)
  case (JLit s)
  with assms have s: "s \<noteq> []" "list_all lit_char s" by auto
  then have "lit_char (hd s)" by (cases s) auto
  moreover have "takeWhile (\<lambda>c. \<not> isDelim c) (s @ r) = s"
    using s(2) assms(2)
    by (subst takeWhile_append2) (auto simp: lit_char_def ends_value_def list_all_iff takeWhile_eq_Nil_iff)
  ultimately show ?thesis using s JLit by (simp add: scanJSONValueEnd_def lit_char_def)
next
  case (JStr b)
  with assms show ?thesis by (simp add: scanJSONValueEnd_def)
next
  case (JArr xs)
  have "nest_skips (commas (map render xs))"
    using assms JArr by (intro nest_skips_commas) (auto intro: nest_skips_render)
  from scan_nest_top [OF this, of "CHR ''[''" "CHR '']''"] JArr
  show ?thesis by (simp add: scanJSONValueEnd_def)
next
  case (JObj kvs)
  have "nest_skips (commas (map (\<lambda>(k, v). quoted k @ CHR '':'' # render v) kvs))"
    using assms JObj by (intro nest_skips_commas) (auto intro!: nest_skips_member nest_skips_render)
  from scan_nest_top [OF this, of "CHR ''{''" "CHR ''}''"] JObj
  show ?thesis by (simp add: scanJSONValueEnd_def)
qed

lemma skipWS_id: "s \<noteq> [] \<Longrightarrow> \<not> isWS (hd s) \<Longrightarrow> skipWS s = s"
  by (cases s) auto

lemma render_start:
  assumes "wf_json j"
  shows "render j \<noteq> []" "\<not> isDelim (hd (render j))"
proof -
  have "render j \<noteq> [] \<and> \<not> isDelim (hd (render j))"
  proof (cases j)
    case (JLit s)
    with assms show ?thesis by (cases s) (auto simp: lit_char_def)
  qed (auto simp: isDelim_def isWS_def)
  then show "render j \<noteq> []" "\<not> isDelim (hd (render j))" by auto
qed

lemma skipWS_render [simp]: "wf_json j \<Longrightarrow> skipWS (render j @ r) = render j @ r"
  using render_start [of j] by (intro skipWS_id) (auto simp: isDelim_def)

lemma skipWS_quoted [simp]: "skipWS (quoted b @ r) = quoted b @ r"
  by (simp add: quoted_def isWS_def)

section \<open>The loops on rendered trees\<close>

lemma walk_array_end [simp]: "walk_array ex (CHR '']'' # r) = []"
  by (subst walk_array.simps) (simp add: isWS_def)

lemma walk_array_render:
  assumes "\<forall>x \<in> set xs. wf_json x"
  shows "walk_array ex (commas (map render xs) @ CHR '']'' # r) =
    concat (map (\<lambda>x. if length (render x) \<ge> 58 then ex (render x) else []) xs)"
  using assms
proof (induction xs rule: induct_list012)
  case 1
  show ?case by simp
next
  case (2 x)
  then show ?case
    using render_start [of x]
    by (subst walk_array.simps)
      (auto simp: scanJSONValueEnd_render ends_value_def isDelim_def isWS_def skipComma_def)
next
  case (3 x y xs)
  then show ?case
    using render_start [of x]
    by (subst walk_array.simps)
      (auto simp: scanJSONValueEnd_render ends_value_def isDelim_def isWS_def skipComma_def)
qed

definition member :: "string \<times> json \<Rightarrow> string" where
  "member kv = quoted (fst kv) @ CHR '':'' # render (snd kv)"

lemma scan_member_render:
  assumes "wf_body k" "wf_json v" "r \<noteq> []" "isDelim (hd r)" "\<not> isWS (hd r)"
  shows "scan_member (member (k, v) @ r) = Some (quoted k, CHR 0x5C \<in> set k, render v, r)"
proof -
  have "skipWS r = r" using assms by (simp add: skipWS_id)
  then show ?thesis
    using assms by (simp add: scan_member_def member_def scanJSONValueEnd_render ends_value_def isWS_def)
qed

lemma walk_members_render:
  assumes "\<forall>kv \<in> set kvs. wf_body (fst kv) \<and> wf_json (snd kv)"
  shows "walk_members ex (concat (map (\<lambda>kv. CHR '','' # member kv) kvs) @ CHR ''}'' # r) =
    concat (map (\<lambda>kv. if length (render (snd kv)) \<ge> 58 then ex (render (snd kv)) else []) kvs)"
  using assms
proof (induction kvs)
  case Nil
  show ?case by (subst walk_members.simps) simp
next
  case (Cons kv kvs)
  let ?r = "concat (map (\<lambda>kv. CHR '','' # member kv) kvs) @ CHR ''}'' # r"
  have "skipWS (member kv @ ?r) = member kv @ ?r" by (simp add: member_def)
  moreover have "?r \<noteq> []" "isDelim (hd ?r)" "\<not> isWS (hd ?r)"
    by (cases kvs; simp add: isDelim_def isWS_def)+
  ultimately show ?case
    using Cons scan_member_render [of "fst kv" "snd kv" ?r]
    by (subst walk_members.simps) simp
qed

lemma commas_Cons: "commas (x # xs) = x @ concat (map (\<lambda>y. CHR '','' # y) xs)"
  by (induction xs arbitrary: x) simp_all

lemma render_JObj: "render (JObj kvs) = CHR ''{'' # commas (map member kvs) @ ''}''"
proof -
  have "(\<lambda>(k, v). quoted k @ CHR '':'' # render v) = member" by (auto simp: member_def)
  then show ?thesis by simp
qed

section \<open>Extraction on rendered trees\<close>

lemma isAddress_ascii: "isAddress a \<Longrightarrow> ascii a \<and> length a = 56"
proof -
  assume a: "isAddress a"
  then obtain c s where "a = c # s" by (cases a) (auto simp: isAddress_def)
  with a show ?thesis by (fastforce simp: isAddress_def ascii_def list_all_iff Let_def)
qed

lemma length_commas: "p \<in> set ps \<Longrightarrow> length p \<le> length (commas ps)"
  by (induction ps rule: commas.induct) auto

lemma addresses_long: "a \<in> set (addresses j) \<Longrightarrow> 58 \<le> length (render j)"
proof (induction j rule: render.induct)
  case (2 b)
  then have "body_string b = Some a" "isAddress a" by (auto split: option.splits if_splits)
  with isAddress_ascii [of a] have "56 \<le> length b"
    using json_unquote_ascii [of b a] by (auto simp: body_string_def split: if_splits)
  then show ?case by simp
next
  case (3 xs)
  then obtain x where "x \<in> set xs" "58 \<le> length (render x)" by auto
  with length_commas [of "render x" "map render xs"] show ?case by simp
next
  case (4 kvs)
  then obtain k v where kv: "(k, v) \<in> set kvs" "58 \<le> length (render v)"
    by (force split: if_splits)
  then have "member (k, v) \<in> set (map member kvs)" by force
  from length_commas [OF this] kv show ?case unfolding render_JObj by (simp add: member_def)
qed simp

lemma addresses_short: "length (render j) < 58 \<Longrightarrow> addresses j = []"
  using addresses_long [of _ j] by (cases "addresses j") fastforce+

lemma foldr_max_ge: "x \<in> set xs \<Longrightarrow> x \<le> foldr max xs (0 :: nat)"
  by (induction xs) auto

abbreviation strkeys :: "add_call list \<Rightarrow> add_call list" where
  "strkeys \<equiv> filter (\<lambda>c. isAddress (fst c))"

text \<open>What the loops contribute for one value, long or short.\<close>

lemma strkeys_value:
  assumes "strkeys (ex (render x)) = map (\<lambda>a. (a, role)) (addresses x)"
  shows "strkeys (if length (render x) \<ge> 58 then ex (render x) else []) =
    map (\<lambda>a. (a, role)) (addresses x)"
  using assms addresses_short [of x] by auto

lemma strkeys_concat:
  assumes "\<And>x. x \<in> set xs \<Longrightarrow> strkeys (f x) = map (\<lambda>a. (a, role)) (g x)"
  shows "strkeys (concat (map f xs)) = map (\<lambda>a. (a, role)) (concat (map g xs))"
  using assms by (induction xs) auto

text \<open>The branches of \<^const>\<open>extractFromValue\<close> on input without leading white space.\<close>

lemma extract_short: "length raw < 58 \<Longrightarrow> extractFromValue raw role d = []"
  unfolding extractFromValue.simps [of raw role d]
  using skipWS_length [of raw] by (simp add: Let_def)

lemma extract_array:
  assumes "58 \<le> length raw" "raw = CHR ''['' # s" "d \<le> 32"
  shows "extractFromValue raw role d = walk_array (\<lambda>e. extractFromValue e role (d + 1)) s"
proof -
  have "skipWS raw = raw" "hd raw = CHR ''[''" "tl raw = s" using assms(2) by (simp_all add: isWS_def)
  with assms(1,3) show ?thesis
    unfolding extractFromValue.simps [of raw role d] by (simp add: Let_def maxExtractDepth_def)
qed

lemma extract_object:
  assumes "58 \<le> length raw" "raw = CHR ''{'' # s" "d \<le> 32" "skipWS s = s" "s \<noteq> []" "hd s \<noteq> CHR ''}''"
    and "scan_member s = Some (k, esc, v, r)"
  shows "extractFromValue raw role d =
    (if \<not> esc \<and> k = quoted ''unknown'' \<and> r \<noteq> [] \<and> hd r = CHR ''}'' then []
     else (if length v \<ge> 58 then extractFromValue v role (d + 1) else []) @
       walk_members (\<lambda>e. extractFromValue e role (d + 1)) r)"
proof -
  have "skipWS raw = raw" "hd raw = CHR ''{''" "tl raw = s" using assms(2) by (simp_all add: isWS_def)
  with assms(1,3-) show ?thesis
    unfolding extractFromValue.simps [of raw role d]
    by (simp add: Let_def maxExtractDepth_def quoted_def)
qed

lemma extract_string:
  assumes "58 \<le> length (quoted b)" "wf_body b" "d \<le> 32"
  shows "extractFromValue (quoted b) role d =
    (if CHR 0x5C \<notin> set b then if length b = 56 \<and> isAddress b then [(b, role)] else []
     else case json_unquote b of None \<Rightarrow> [] | Some s \<Rightarrow> [(s, role)])"
proof -
  have "skipWS (quoted b) = quoted b" using skipWS_quoted [of b "[]"] by simp
  moreover have "take (length b) (drop 1 (quoted b)) = b"
    "length b = 56 \<Longrightarrow> take 56 (drop 1 (quoted b)) = b" by (simp_all add: quoted_def)
  ultimately show ?thesis
    using assms unfolding extractFromValue.simps [of "quoted b" role d]
    by (auto simp: Let_def maxExtractDepth_def)
qed

lemma extract_JStr:
  assumes "wf_body b" "d \<le> 32"
  shows "strkeys (extractFromValue (quoted b) role d) = map (\<lambda>a. (a, role)) (addresses (JStr b))"
proof (cases "length b < 56")
  case True
  then show ?thesis using addresses_short [of "JStr b"] by (simp add: extract_short)
next
  case False
  then show ?thesis
    using assms isAddress_ascii [of b]
    by (auto simp: extract_string body_string_def split: option.splits)
qed

lemma extract_JArr:
  assumes "\<forall>x \<in> set xs. wf_json x" "d \<le> 32"
    and "\<And>x. x \<in> set xs \<Longrightarrow>
      strkeys (extractFromValue (render x) role (d + 1)) = map (\<lambda>a. (a, role)) (addresses x)"
  shows "strkeys (extractFromValue (render (JArr xs)) role d) = map (\<lambda>a. (a, role)) (addresses (JArr xs))"
proof (cases "length (render (JArr xs)) < 58")
  case True
  then show ?thesis using addresses_short [OF True] by (simp only: extract_short filter.simps list.map)
next
  case False
  let ?ex = "\<lambda>e. extractFromValue e role (d + 1)"
  have "extractFromValue (render (JArr xs)) role d = walk_array ?ex (commas (map render xs) @ '']'')"
    by (rule extract_array) (use False assms(2) in auto)
  also have "\<dots> = concat (map (\<lambda>x. if length (render x) \<ge> 58 then ?ex (render x) else []) xs)"
    using walk_array_render [of xs ?ex "[]"] assms(1) by simp
  also have "strkeys \<dots> = map (\<lambda>a. (a, role)) (concat (map addresses xs))"
    by (rule strkeys_concat) (intro strkeys_value assms(3))
  finally show ?thesis by simp
qed

lemma extract_JObj:
  assumes "\<forall>kv \<in> set kvs. wf_body (fst kv) \<and> wf_json (snd kv)" "d \<le> 32"
    and "\<And>kv. kv \<in> set kvs \<Longrightarrow> strkeys (extractFromValue (render (snd kv)) role (d + 1)) =
      map (\<lambda>a. (a, role)) (addresses (snd kv))"
  shows "strkeys (extractFromValue (render (JObj kvs)) role d) = map (\<lambda>a. (a, role)) (addresses (JObj kvs))"
proof (cases "length (render (JObj kvs)) < 58")
  case True
  then show ?thesis using addresses_short [OF True] by (simp only: extract_short filter.simps list.map)
next
  case False
  let ?ex = "\<lambda>e. extractFromValue e role (d + 1)"
  let ?f = "\<lambda>kv. if length (render (snd kv)) \<ge> 58 then ?ex (render (snd kv)) else []"
  obtain kv kvs' where kvs: "kvs = kv # kvs'" using False by (cases kvs) auto
  let ?r = "concat (map (\<lambda>kv. CHR '','' # member kv) kvs') @ ''}''"
  have r: "?r \<noteq> []" "isDelim (hd ?r)" "\<not> isWS (hd ?r)" "hd ?r = CHR ''}'' \<longleftrightarrow> kvs' = []"
    by (cases kvs'; simp add: isDelim_def isWS_def)+
  have raw: "render (JObj kvs) = CHR ''{'' # (member kv @ ?r)"
    unfolding render_JObj by (simp add: kvs commas_Cons o_def)
  have sm: "scan_member (member kv @ ?r) =
      Some (quoted (fst kv), CHR 0x5C \<in> set (fst kv), render (snd kv), ?r)"
    using scan_member_render [of "fst kv" "snd kv" ?r] r assms(1) kvs by simp
  have start: "skipWS (member kv @ ?r) = member kv @ ?r" "member kv @ ?r \<noteq> []"
    "hd (member kv @ ?r) \<noteq> CHR ''}''" by (simp_all add: member_def quoted_def isWS_def)
  have "extractFromValue (render (JObj kvs)) role d =
      (if kvs' = [] \<and> fst kv = ''unknown'' then [] else ?f kv @ walk_members ?ex ?r)"
    using extract_object [OF _ raw assms(2) start sm] False r
    by (auto simp: quoted_def)
  also have "walk_members ?ex ?r = concat (map ?f kvs')"
    using walk_members_render [of kvs' ?ex "[]"] assms(1) kvs by simp
  also have "?f kv @ concat (map ?f kvs') = concat (map ?f kvs)" by (simp add: kvs)
  finally have ex: "extractFromValue (render (JObj kvs)) role d =
      (if kvs' = [] \<and> fst kv = ''unknown'' then [] else concat (map ?f kvs))" .
  have "strkeys (concat (map ?f kvs)) = map (\<lambda>a. (a, role)) (concat (map (\<lambda>kv. addresses (snd kv)) kvs))"
    by (rule strkeys_concat) (intro strkeys_value assms(3))
  then show ?thesis unfolding ex by (auto simp: kvs)
qed

lemma extract_render:
  assumes "wf_json j" "height j + d \<le> 32"
  shows "strkeys (extractFromValue (render j) role d) = map (\<lambda>a. (a, role)) (addresses j)"
  using assms
proof (induction j arbitrary: d rule: render.induct)
  case (1 s)
  then have "lit_char (hd s)" "skipWS s = s"
    using skipWS_render [of "JLit s" "[]"] by (cases s; auto)+
  then have "extractFromValue s role d = []"
    unfolding extractFromValue.simps [of s role d] by (auto simp: lit_char_def Let_def)
  then show ?case by simp
next
  case (2 b)
  then show ?case by (simp add: extract_JStr)
next
  case (3 xs)
  have "height x + (d + 1) \<le> 32" if "x \<in> set xs" for x
    using foldr_max_ge [of "height x" "map height xs"] 3(3) that by simp
  with 3 show ?case by (intro extract_JArr) auto
next
  case (4 kvs)
  have "height (snd m) + (d + 1) \<le> 32" if "m \<in> set kvs" for m
    using foldr_max_ge [of "height (snd m)" "map (\<lambda>kv. height (snd kv)) kvs"] 4(3) that by simp
  with 4 show ?case by (intro extract_JObj) auto
qed

section \<open>The topics array\<close>

lemma walk_topics_end [simp]: "walk_topics i (CHR '']'' # r) = []"
  by (subst walk_topics.simps) (simp add: isWS_def)

lemma walk_topics_render:
  assumes "\<forall>x \<in> set xs. wf_json x"
  shows "walk_topics i (commas (map render xs) @ CHR '']'' # r) =
    concat (map (\<lambda>(n, x). if length (render x) \<ge> 58
      then extractFromValue (render x) (formatTopicRole n) 0 else []) (enumerate i xs))"
  using assms
proof (induction xs arbitrary: i rule: induct_list012)
  case (2 x)
  then show ?case
    using render_start [of x]
    by (subst walk_topics.simps)
      (auto simp: scanJSONValueEnd_render ends_value_def isDelim_def isWS_def skipComma_def)
next
  case (3 x y xs)
  then show ?case
    using render_start [of x]
    by (subst walk_topics.simps)
      (auto simp: scanJSONValueEnd_render ends_value_def isDelim_def isWS_def skipComma_def)
qed simp

definition topic_addresses :: "json list \<Rightarrow> add_call list" where
  "topic_addresses ts =
     concat (map (\<lambda>(n, t). map (\<lambda>a. (a, formatTopicRole n)) (addresses t)) (enumerate 0 ts))"

lemma strkeys_topics:
  assumes "\<forall>t \<in> set ts. wf_json t \<and> height t \<le> 32"
  shows "strkeys (walkTopLevelTopics (render (JArr ts))) = topic_addresses ts"
proof -
  have "walkTopLevelTopics (render (JArr ts)) = walk_topics 0 (commas (map render ts) @ '']'')"
    by (simp add: walkTopLevelTopics_def isWS_def)
  also have "\<dots> = concat (map (\<lambda>(n, x). if length (render x) \<ge> 58
      then extractFromValue (render x) (formatTopicRole n) 0 else []) (enumerate 0 ts))"
    using walk_topics_render [of ts 0 "[]"] assms by simp
  also have "strkeys \<dots> = concat (map (\<lambda>(n, t). map (\<lambda>a. (a, formatTopicRole n)) (addresses t)) (enumerate 0 ts))"
  proof -
    have "strkeys (if length (render t) \<ge> 58 then extractFromValue (render t) (formatTopicRole n) 0 else []) =
        map (\<lambda>a. (a, formatTopicRole n)) (addresses t)" if "(n, t) \<in> set (enumerate 0 ts)" for n t
    proof -
      have "t \<in> set ts" using that by (metis map_snd_enumerate snd_conv image_eqI set_map)
      with assms show ?thesis by (intro strkeys_value extract_render) auto
    qed
    then show ?thesis by (simp add: filter_concat o_def case_prod_unfold cong: map_cong)
  qed
  finally show ?thesis by (simp add: topic_addresses_def)
qed

lemma topic_addresses_short: "length (render (JArr ts)) < 58 \<Longrightarrow> topic_addresses ts = []"
proof -
  assume "length (render (JArr ts)) < 58"
  then have "addresses (JArr ts) = []" by (rule addresses_short)
  then have "\<forall>t \<in> set ts. addresses t = []" by simp
  then show ?thesis by (auto simp: topic_addresses_def in_set_enumerate_eq)
qed

section \<open>Deduplication\<close>

definition mk_ref :: "string \<Rightarrow> add_call \<Rightarrow> address_ref" where
  "mk_ref eventID c = \<lparr>ref_Address = fst c, ref_Role = snd c, ref_EventID = eventID\<rparr>"

text \<open>The first occurrences in a list, in order.\<close>

definition firsts :: "'a list \<Rightarrow> 'a list" where
  "firsts xs = rev (remdups (rev xs))"

lemma firsts_simps [simp]:
  "firsts [] = []" "firsts (xs @ [x]) = (if x \<in> set xs then firsts xs else firsts xs @ [x])"
  "set (firsts xs) = set xs" "distinct (firsts xs)"
  by (simp_all add: firsts_def)

definition add_inv :: "string \<Rightarrow> address_ref list \<Rightarrow> add_call list \<Rightarrow> add_state \<Rightarrow> bool" where
  "add_inv eventID dst0 ks st \<longleftrightarrow>
     dst st = dst0 @ map (mk_ref eventID) ks \<and> seenSmall st = take 8 ks \<and>
     seenMap st = (if length ks \<le> 8 then None else Some (set ks))"

lemma add_inv_step:
  assumes "add_inv eventID dst0 ks st"
  shows "add_inv eventID dst0 (if isAddress (fst c) \<and> c \<notin> set ks then ks @ [c] else ks)
    (addAddress eventID c st)"
  using assms by (auto simp: add_inv_def addAddress_def Let_def mk_ref_def)

lemma add_inv_fold:
  "add_inv eventID dst0 (firsts (strkeys cs))
     (fold (addAddress eventID) cs \<lparr>seenSmall = [], seenMap = None, dst = dst0\<rparr>)"
proof (induction cs rule: rev_induct)
  case (snoc c cs)
  from add_inv_step [OF snoc, of c] show ?case by (auto split: if_splits)
qed (simp add: add_inv_def)

lemma address_calls_short: "length topics < 58 \<Longrightarrow> length val < 58 \<Longrightarrow> address_calls topics val = []"
  by (simp add: address_calls_def)

lemma AppendAddresses_eq:
  "AppendAddresses dst0 eventID topics val =
     dst0 @ map (mk_ref eventID) (firsts (strkeys (address_calls topics val)))"
  using add_inv_fold [of eventID dst0 "address_calls topics val"]
  by (auto simp: AppendAddresses_def add_inv_def address_calls_short)

section \<open>Properties\<close>

text \<open>C36. Whatever bytes an event carries, \<^verbatim>\<open>AppendAddresses\<close> keeps the slice it is given and
  appends the strkeys the scanner reports, each (address, role) pair once, at its first occurrence
  and tagged with the event: the eight-entry array that spills into a map is the plain first-
  occurrence filter.\<close>

theorem append_addresses_dedup:
  "AppendAddresses dst0 eventID topics val =
     dst0 @ map (mk_ref eventID) (firsts (strkeys (address_calls topics val))) \<and>
   distinct (map (\<lambda>r. (ref_Address r, ref_Role r)) (ExtractAddresses topics val)) \<and>
   (\<forall>r. r \<in> set (ExtractAddresses topics val) \<longrightarrow> isAddress (ref_Address r))"
  by (auto simp: ExtractAddresses_def AppendAddresses_eq mk_ref_def o_def)

theorem append_addresses_dedup_witness:
  "\<exists>r. r \<in> set (ExtractAddresses [] (quoted (replicate 56 CHR ''G''))) \<and> isAddress (ref_Address r)"
proof -
  let ?g = "replicate 56 (CHR ''G'')" and ?b = "quoted (replicate 56 CHR ''G'')"
  have g: "isAddress ?g" by (simp add: isAddress_def list_all_iff)
  have "wf_body ?g" by (simp add: eval_nat_numeral)
  then have "extractFromValue ?b ''value'' 0 = [(?g, ''value'')]"
    using g by (simp add: extract_string)
  then have "mk_ref [] (?g, ''value'') \<in> set (ExtractAddresses [] ?b)"
    using g by (simp add: ExtractAddresses_def AppendAddresses_eq address_calls_def)
  with append_addresses_dedup [of "[]" "[]" "[]" ?b] show ?thesis by blast
qed

text \<open>C15. On the JSON the decoder prints, nested at most 32 deep, the extraction is complete and
  sound: the references of an event are the strkeys among the string values of its topics, each
  with the role of its topic, then those of its value, first occurrences only, and nothing from
  inside an object whose only key is \<^verbatim>\<open>unknown\<close>. The scanner's shortcuts (the 58-byte cut-off,
  skipping by brackets) lose nothing.\<close>

theorem extract_addresses_correct:
  assumes "\<forall>t \<in> set ts. wf_json t \<and> height t \<le> 32" and "wf_json v" "height v \<le> 32"
  shows "AppendAddresses dst0 eventID (render (JArr ts)) (render v) =
    dst0 @ map (mk_ref eventID)
      (firsts (topic_addresses ts @ map (\<lambda>a. (a, ''value'')) (addresses v)))"
proof -
  have "strkeys (address_calls (render (JArr ts)) (render v)) =
      topic_addresses ts @ map (\<lambda>a. (a, ''value'')) (addresses v)"
    using strkeys_topics [OF assms(1)] extract_render [OF assms(2), of 0 "''value''"] assms(3)
      topic_addresses_short [of ts] addresses_short [of v]
    by (cases "length (render (JArr ts)) < 58"; cases "length (render v) < 58")
      (simp_all add: address_calls_def del: render.simps)
  then show ?thesis by (simp add: AppendAddresses_eq)
qed

theorem extract_addresses_correct_witness:
  "let g = replicate 56 CHR ''G'' in
   ExtractAddresses (render (JArr [JObj [(''address'', JStr g)], JObj [(''unknown'', JStr g)]]))
     (render (JArr [JStr g, JStr g])) =
   [\<lparr>ref_Address = g, ref_Role = ''topic[0]'', ref_EventID = []\<rparr>,
    \<lparr>ref_Address = g, ref_Role = ''value'', ref_EventID = []\<rparr>]"
proof -
  let ?g = "replicate 56 (CHR ''G'')"
  have g: "isAddress ?g" by (simp add: isAddress_def list_all_iff)
  have b: "body_string ?g = Some ?g" by (simp add: body_string_def)
  have "wf_body ?g" by (simp add: eval_nat_numeral)
  then have "AppendAddresses [] [] (render (JArr [JObj [(''address'', JStr ?g)], JObj [(''unknown'', JStr ?g)]]))
     (render (JArr [JStr ?g, JStr ?g])) = [] @ map (mk_ref [])
      (firsts (topic_addresses [JObj [(''address'', JStr ?g)], JObj [(''unknown'', JStr ?g)]] @
        map (\<lambda>a. (a, ''value'')) (addresses (JArr [JStr ?g, JStr ?g]))))"
    by (intro extract_addresses_correct) simp_all
  with g b show ?thesis
    by (simp add: ExtractAddresses_def topic_addresses_def firsts_def mk_ref_def
        formatTopicRole_def precomputedTopicRoles_def del: render.simps)
qed

text \<open>Topic roles are what they say for every index the role format is meant for: below 100,
  the role of topic \<^verbatim>\<open>i\<close> is \<^verbatim>\<open>topic[i]\<close> with \<^verbatim>\<open>i\<close> in decimal.\<close>

lemma topic_role_decimal:
  assumes "i < 100"
  shows "formatTopicRole i = ''topic['' @ FormatInt (int i) @ '']''"
proof (cases "i < 16")
  case True
  then have "i \<in> set [0..<16]" by simp
  moreover have "\<forall>i \<in> set [0..<16]. formatTopicRole i = ''topic['' @ FormatInt (int i) @ '']''"
    by code_simp
  ultimately show ?thesis by blast
next
  case False
  moreover have "i div 10 < 10" using assms by simp
  ultimately show ?thesis
    by (simp add: formatTopicRole_def precomputedTopicRoles_def itoa_def encode_rune_def
        FormatInt_def digit_def nat_digits.simps [of i] nat_digits.simps [of "i div 10"])
qed

end
