(* ===== verification/Event_Store.thy ===== *)
theory Event_Store
  imports Store_Types "HOL-Library.Product_Lexorder"
begin

text \<open>
  The tables of the Postgres store that ingestion and reorg repair write,
  \<^verbatim>\<open>internal/store/postgres.go\<close> and the row types of \<^verbatim>\<open>internal/store/store.go\<close>, with one
  function per SQL statement. A table is the list of its rows; \<open>put\<close> is
  \<^verbatim>\<open>INSERT ... ON CONFLICT (key)\<close>, whose second argument builds the row left behind by a
  conflict. The bookkeeping timestamps (\<^verbatim>\<open>updated_at\<close>, \<^verbatim>\<open>added_at\<close>, \<^verbatim>\<open>last_attempt\<close>) and the
  creation of partitions are left out, and a JSON column is read back as it was written.
\<close>

section \<open>Keyed tables\<close>

primrec put :: "('r \<Rightarrow> 'k) \<Rightarrow> ('r \<Rightarrow> 'r \<Rightarrow> 'r) \<Rightarrow> 'r \<Rightarrow> 'r list \<Rightarrow> 'r list" where
  "put key upd r [] = [r]"
| "put key upd r (x # xs) = (if key x = key r then upd x r # xs else x # put key upd r xs)"

definition row_at :: "('r \<Rightarrow> 'k) \<Rightarrow> 'k \<Rightarrow> 'r list \<Rightarrow> 'r option" where
  "row_at key k rows = find (\<lambda>r. key r = k) rows"

lemma row_at_simps [simp]:
  "row_at key k [] = None"
  "row_at key k (x # xs) = (if key x = k then Some x else row_at key k xs)"
  by (simp_all add: row_at_def)

lemma row_at_Some: "row_at key k rows = Some r \<Longrightarrow> r \<in> set rows \<and> key r = k"
  by (induction rows) (auto split: if_splits)

lemma row_at_None [simp]: "row_at key k rows = None \<longleftrightarrow> k \<notin> key ` set rows"
  by (induction rows) auto

text \<open>
  The contract of a table with a unique key: the row a conflict leaves has the key of the row
  inserted. What the operations of the store rely on follows from it.
\<close>

locale keyed_table =
  fixes key :: "'r \<Rightarrow> 'k" and upd :: "'r \<Rightarrow> 'r \<Rightarrow> 'r"
  assumes upd_key: "key x = key r \<Longrightarrow> key (upd x r) = key r"
begin

lemma put_row_at:
  "row_at key k (put key upd r rows) =
     (if k = key r then Some (case row_at key k rows of None \<Rightarrow> r | Some x \<Rightarrow> upd x r)
      else row_at key k rows)"
  by (induction rows) (auto simp: upd_key)

lemma put_keys: "key ` set (put key upd r rows) = insert (key r) (key ` set rows)"
  by (induction rows) (auto simp: upd_key)

lemma put_unique: "distinct (map key rows) \<Longrightarrow> distinct (map key (put key upd r rows))"
proof (induction rows)
  case (Cons x xs)
  thus ?case using put_keys [of r xs] by (auto simp: upd_key simp flip: set_map)
qed simp

lemma puts_keys: "key ` set (fold (put key upd) rs rows) = key ` set rs \<union> key ` set rows"
  by (induction rs arbitrary: rows) (auto simp: put_keys)

lemma puts_unique: "distinct (map key rows) \<Longrightarrow> distinct (map key (fold (put key upd) rs rows))"
  by (induction rs arbitrary: rows) (simp_all add: put_unique)

lemma put_new: "key r \<notin> key ` set rows \<Longrightarrow> put key upd r rows = rows @ [r]"
  by (induction rows) auto

lemma put_set: "set (put key upd r rows) \<subseteq> set rows \<union> {r} \<union> {upd x r | x. x \<in> set rows \<and> key x = key r}"
  by (induction rows) auto

lemma put_keeps: "x \<in> set rows \<Longrightarrow> key x \<noteq> key r \<Longrightarrow> x \<in> set (put key upd r rows)"
  by (induction rows) auto

lemma puts_new:
  "distinct (map key rs) \<Longrightarrow> key ` set rs \<inter> key ` set rows = {} \<Longrightarrow>
     fold (put key upd) rs rows = rows @ rs"
proof (induction rs arbitrary: rows)
  case (Cons r rs)
  hence "put key upd r rows = rows @ [r]" by (intro put_new) auto
  moreover have "fold (put key upd) rs (rows @ [r]) = (rows @ [r]) @ rs"
    using Cons.prems by (intro Cons.IH) auto
  ultimately show ?case by simp
qed simp

end

text \<open>\<^verbatim>\<open>DO NOTHING\<close> keeps the row that is there, \<^verbatim>\<open>DO UPDATE\<close> of every other column replaces it.\<close>

abbreviation do_nothing :: "'r \<Rightarrow> 'r \<Rightarrow> 'r" where "do_nothing old new \<equiv> old"

abbreviation do_replace :: "'r \<Rightarrow> 'r \<Rightarrow> 'r" where "do_replace old new \<equiv> new"

section \<open>Rows\<close>

definition defaultNetwork :: "string \<Rightarrow> string" where
  "defaultNetwork network = (if network = [] then ''default'' else network)"

record ingestion_state =
  is_Network :: string
  is_LastIngestedLedger :: int
  is_LastCursor :: string
  is_LastSuccessfulPoll :: "instant option"

record contract_cursor =
  cc_ContractID :: string
  cc_LastIngestedLedger :: int
  cc_LastCursor :: string

record audit_state =
  as_Network :: string
  as_VerifiedThroughLedger :: int

record watched_contract =
  wc_ContractID :: string
  wc_Network :: string

record store_address_ref =
  ar_Address :: string
  ar_EventID :: string
  ar_Role :: string

record dead_letter_input =
  in_EventID :: string
  in_ContractID :: string
  in_Ledger :: int
  in_Type :: string
  in_TxHash :: string
  in_TopicXDR :: "string list"
  in_ValueXDR :: string
  in_Err :: string

record dead_letter = dead_letter_input +
  dl_Attempts :: nat

text \<open>
  \<open>t_watched\<close> is the operator's list \<^verbatim>\<open>watched_contracts\<close> and \<open>t_tenant_watched\<close> the one of the
  tenants.
\<close>

record db =
  t_events :: "event list"
  t_addresses :: "store_address_ref list"
  t_dead :: "dead_letter list"
  t_cursors :: "contract_cursor list"
  t_ingestion :: "ingestion_state list"
  t_audit :: "audit_state list"
  t_watched :: "watched_contract list"
  t_tenant_watched :: "watched_contract list"

definition empty_db :: db where
  "empty_db = \<lparr>t_events = [], t_addresses = [], t_dead = [], t_cursors = [], t_ingestion = [],
     t_audit = [], t_watched = [], t_tenant_watched = []\<rparr>"

section \<open>Statements on events\<close>

definition event_key :: "event \<Rightarrow> string \<times> int \<times> string" where
  "event_key e = (ev_Network e, ev_Ledger e, ev_ID e)"

definition event_row :: "event \<Rightarrow> event" where
  "event_row e = e\<lparr>ev_Network := defaultNetwork (ev_Network e), ev_SEP41Event := None\<rparr>"

definition coalesce_xdr :: "event \<Rightarrow> event \<Rightarrow> event" where
  "coalesce_xdr old new =
     new\<lparr>ev_RawTopicXDR := (if ev_RawTopicXDR new = [] then ev_RawTopicXDR old else ev_RawTopicXDR new),
         ev_RawValueXDR := (if ev_RawValueXDR new = [] then ev_RawValueXDR old else ev_RawValueXDR new)\<rparr>"

text \<open>One statement of \<^verbatim>\<open>insertEventsBatch\<close>, with the number of rows it affects.\<close>

definition insert_event :: "bool \<Rightarrow> event \<Rightarrow> event list \<times> int \<Rightarrow> event list \<times> int" where
  "insert_event onUpdate e st =
     (let r = event_row e; rows = fst st
      in if onUpdate then (put event_key coalesce_xdr r rows, snd st + 1)
         else (put event_key do_nothing r rows,
               if event_key r \<in> event_key ` set rows then snd st else snd st + 1))"

definition insertEventsBatch :: "bool \<Rightarrow> event list \<Rightarrow> event list \<Rightarrow> event list \<times> int" where
  "insertEventsBatch onUpdate events rows = fold (insert_event onUpdate) events (rows, 0)"

definition upsertEvents :: "bool \<Rightarrow> event list \<Rightarrow> db \<Rightarrow> int \<times> db" where
  "upsertEvents onUpdate events d =
     (if events = [] then (0, d)
      else let results = insertEventsBatch onUpdate events (t_events d)
           in (snd results, d\<lparr>t_events := fst results\<rparr>))"

definition UpsertEvents :: "event list \<Rightarrow> db \<Rightarrow> int \<times> db" where
  "UpsertEvents events d = (if events = [] then (0, d) else upsertEvents False events d)"

definition PruneEventsBefore :: "instant \<Rightarrow> db \<Rightarrow> int \<times> db" where
  "PruneEventsBefore cutoff d =
     (let kept = filter (\<lambda>e. \<not> ev_CreatedAt e < cutoff) (t_events d)
      in (int (length (t_events d)) - int (length kept), d\<lparr>t_events := kept\<rparr>))"

text \<open>The condition \<^verbatim>\<open>network = $1 AND ledger BETWEEN $2 AND $3\<close>.\<close>

definition in_range :: "string \<Rightarrow> int \<Rightarrow> int \<Rightarrow> event \<Rightarrow> bool" where
  "in_range network fromLedger toLedger e \<longleftrightarrow>
     ev_Network e = network \<and> fromLedger \<le> ev_Ledger e \<and> ev_Ledger e \<le> toLedger"

type_synonym raw_xdr = "string list \<times> string"

definition rawXDRInRange :: "string \<Rightarrow> int \<Rightarrow> int \<Rightarrow> event list \<Rightarrow> (string \<rightharpoonup> raw_xdr)" where
  "rawXDRInRange network fromLedger toLedger rows =
     fold (\<lambda>e m. m(ev_ID e \<mapsto> (ev_RawTopicXDR e, ev_RawValueXDR e)))
       (filter (\<lambda>e. in_range network fromLedger toLedger e
                    \<and> (ev_RawTopicXDR e \<noteq> [] \<or> ev_RawValueXDR e \<noteq> [])) rows) Map.empty"

definition restore_one :: "(string \<rightharpoonup> raw_xdr) \<Rightarrow> event \<Rightarrow> event" where
  "restore_one kept e =
     (case kept (ev_ID e) of
        None \<Rightarrow> e
      | Some (topics, val) \<Rightarrow>
          e\<lparr>ev_RawTopicXDR := (if ev_RawTopicXDR e = [] then topics else ev_RawTopicXDR e),
            ev_RawValueXDR := (if ev_RawValueXDR e = [] then val else ev_RawValueXDR e)\<rparr>)"

definition restoreRawXDR :: "event list \<Rightarrow> (string \<rightharpoonup> raw_xdr) \<Rightarrow> event list" where
  "restoreRawXDR events kept = map (restore_one kept) events"

definition ReplaceEventsInRange :: "event list \<Rightarrow> int \<Rightarrow> int \<Rightarrow> db \<Rightarrow> db" where
  "ReplaceEventsInRange events fromLedger toLedger d =
     (if events = [] then d
      else let network = ev_Network (hd events);
               kept = rawXDRInRange network fromLedger toLedger (t_events d);
               rows = filter (\<lambda>e. \<not> in_range network fromLedger toLedger e) (t_events d)
           in d\<lparr>t_events := fst (insertEventsBatch True (restoreRawXDR events kept) rows)\<rparr>)"

definition DeleteEventsInRange :: "string \<Rightarrow> int \<Rightarrow> int \<Rightarrow> db \<Rightarrow> string list \<times> db" where
  "DeleteEventsInRange network fromLedger toLedger d =
     (let network = defaultNetwork network;
          gone = filter (in_range network fromLedger toLedger) (t_events d)
      in (sort (map ev_ID gone),
          d\<lparr>t_events := filter (\<lambda>e. \<not> in_range network fromLedger toLedger e) (t_events d)\<rparr>))"

section \<open>Statements on the other tables\<close>

definition address_key :: "store_address_ref \<Rightarrow> string \<times> string \<times> string" where
  "address_key r = (ar_Address r, ar_EventID r, ar_Role r)"

definition UpsertAddressRefs :: "store_address_ref list \<Rightarrow> db \<Rightarrow> db" where
  "UpsertAddressRefs refs d = d\<lparr>t_addresses := fold (put address_key do_nothing) refs (t_addresses d)\<rparr>"

definition DeleteAddressRefsByEventIDs :: "string list \<Rightarrow> db \<Rightarrow> int \<times> db" where
  "DeleteAddressRefsByEventIDs ids d =
     (if ids = [] then (0, d)
      else let kept = filter (\<lambda>r. ar_EventID r \<notin> set ids) (t_addresses d)
           in (int (length (t_addresses d)) - int (length kept), d\<lparr>t_addresses := kept\<rparr>))"

definition dead_letter_again :: "dead_letter \<Rightarrow> dead_letter \<Rightarrow> dead_letter" where
  "dead_letter_again old new =
     old\<lparr>in_Err := in_Err new, dl_Attempts := dl_Attempts old + 1,
         in_TopicXDR := in_TopicXDR new, in_ValueXDR := in_ValueXDR new\<rparr>"

definition DeadLetterEvent :: "dead_letter_input \<Rightarrow> db \<Rightarrow> db" where
  "DeadLetterEvent inp d =
     d\<lparr>t_dead := put in_EventID dead_letter_again
                   (dead_letter_input.extend inp (dead_letter.fields 1)) (t_dead d)\<rparr>"

definition DeleteDeadLettersInRange :: "int \<Rightarrow> int \<Rightarrow> db \<Rightarrow> int \<times> db" where
  "DeleteDeadLettersInRange fromLedger toLedger d =
     (let kept = filter (\<lambda>l. \<not> (fromLedger \<le> in_Ledger l \<and> in_Ledger l \<le> toLedger)) (t_dead d)
      in (int (length (t_dead d)) - int (length kept), d\<lparr>t_dead := kept\<rparr>))"

definition GetIngestionStateForNetwork :: "string \<Rightarrow> db \<Rightarrow> ingestion_state option" where
  "GetIngestionStateForNetwork network d = row_at is_Network (defaultNetwork network) (t_ingestion d)"

definition GetIngestionState :: "db \<Rightarrow> ingestion_state option" where
  "GetIngestionState d = GetIngestionStateForNetwork ''default'' d"

definition SaveIngestionState :: "ingestion_state \<Rightarrow> db \<Rightarrow> db" where
  "SaveIngestionState s d =
     d\<lparr>t_ingestion := put is_Network do_replace (s\<lparr>is_Network := defaultNetwork (is_Network s)\<rparr>)
                        (t_ingestion d)\<rparr>"

definition GetAuditState :: "string \<Rightarrow> db \<Rightarrow> audit_state option" where
  "GetAuditState network d = row_at as_Network network (t_audit d)"

definition SaveAuditState :: "audit_state \<Rightarrow> db \<Rightarrow> db" where
  "SaveAuditState s d =
     d\<lparr>t_audit := put as_Network do_replace (s\<lparr>as_Network := defaultNetwork (as_Network s)\<rparr>)
                    (t_audit d)\<rparr>"

definition audit_if_greater :: "audit_state \<Rightarrow> audit_state \<Rightarrow> audit_state" where
  "audit_if_greater old new =
     (if as_VerifiedThroughLedger new > as_VerifiedThroughLedger old then new else old)"

definition SaveAuditStateIfGreater :: "string \<Rightarrow> int \<Rightarrow> db \<Rightarrow> audit_state option \<times> db" where
  "SaveAuditStateIfGreater network ledger d =
     (let network = defaultNetwork network;
          d' = d\<lparr>t_audit := put as_Network audit_if_greater
                 \<lparr>as_Network = network, as_VerifiedThroughLedger = ledger\<rparr> (t_audit d)\<rparr>
      in (GetAuditState network d', d'))"

definition watched_key :: "watched_contract \<Rightarrow> string \<times> string" where
  "watched_key w = (wc_Network w, wc_ContractID w)"

definition ListWatchedContracts :: "db \<Rightarrow> watched_contract list" where
  "ListWatchedContracts d = sort_key watched_key (remdups (t_watched d @ t_tenant_watched d))"

definition ListWatchedContractsScoped :: "scope \<Rightarrow> db \<Rightarrow> watched_contract list" where
  "ListWatchedContractsScoped sc d =
     (if DeniesAll sc then []
      else if \<not> IsWildcard sc
      then filter (\<lambda>w. wc_ContractID w \<in> set (Contracts sc)) (ListWatchedContracts d)
      else ListWatchedContracts d)"

definition AddWatchedContract :: "watched_contract \<Rightarrow> db \<Rightarrow> db" where
  "AddWatchedContract w d =
     d\<lparr>t_watched := put watched_key do_nothing (w\<lparr>wc_Network := defaultNetwork (wc_Network w)\<rparr>)
                      (t_watched d)\<rparr>"

definition RemoveWatchedContract :: "watched_contract \<Rightarrow> db \<Rightarrow> bool \<times> db" where
  "RemoveWatchedContract w d =
     (let k = (defaultNetwork (wc_Network w), wc_ContractID w);
          kept = filter (\<lambda>r. watched_key r \<noteq> k) (t_watched d)
      in (length kept \<noteq> length (t_watched d), d\<lparr>t_watched := kept\<rparr>))"

definition GetContractCursor :: "string \<Rightarrow> db \<Rightarrow> contract_cursor option" where
  "GetContractCursor contractID d = row_at cc_ContractID contractID (t_cursors d)"

definition SaveContractCursor :: "contract_cursor \<Rightarrow> db \<Rightarrow> db" where
  "SaveContractCursor c d = d\<lparr>t_cursors := put cc_ContractID do_replace c (t_cursors d)\<rparr>"

definition DeleteContractCursor :: "string \<Rightarrow> db \<Rightarrow> bool \<times> db" where
  "DeleteContractCursor contractID d =
     (let kept = filter (\<lambda>c. cc_ContractID c \<noteq> contractID) (t_cursors d)
      in (length kept \<noteq> length (t_cursors d), d\<lparr>t_cursors := kept\<rparr>))"

definition ListContractCursors :: "db \<Rightarrow> contract_cursor list" where
  "ListContractCursors d = t_cursors d"

section \<open>The tables obey their contract\<close>

interpretation ev_ignore: keyed_table event_key do_nothing
  by unfold_locales simp

interpretation ev_update: keyed_table event_key coalesce_xdr
  by unfold_locales (simp add: event_key_def coalesce_xdr_def)

interpretation addr: keyed_table address_key do_nothing
  by unfold_locales simp

interpretation dead: keyed_table "in_EventID :: dead_letter \<Rightarrow> string" dead_letter_again
  by unfold_locales (simp add: dead_letter_again_def)

interpretation ingestion: keyed_table is_Network do_replace
  by unfold_locales simp

interpretation audit: keyed_table as_Network do_replace
  by unfold_locales simp

interpretation audit_max: keyed_table as_Network audit_if_greater
  by unfold_locales (simp add: audit_if_greater_def)

interpretation cursors: keyed_table cc_ContractID do_replace
  by unfold_locales simp

interpretation watched: keyed_table watched_key do_nothing
  by unfold_locales simp

lemma defaultNetwork_simps [simp]:
  "defaultNetwork n \<noteq> []" "defaultNetwork (defaultNetwork n) = defaultNetwork n"
  "n \<noteq> [] \<Longrightarrow> defaultNetwork n = n" "defaultNetwork [] = ''default''"
  by (simp_all add: defaultNetwork_def)

lemma event_row_simps [simp]:
  "ev_ID (event_row e) = ev_ID e" "ev_Ledger (event_row e) = ev_Ledger e"
  "ev_Network (event_row e) = defaultNetwork (ev_Network e)"
  "ev_ContractID (event_row e) = ev_ContractID e" "ev_Topics (event_row e) = ev_Topics e"
  "ev_Value (event_row e) = ev_Value e" "ev_SEP41Event (event_row e) = None"
  by (simp_all add: event_row_def)

lemma insertEventsBatch_rows:
  "fst (insertEventsBatch onUpdate events rows) =
     fold (put event_key (if onUpdate then coalesce_xdr else do_nothing)) (map event_row events) rows"
proof -
  have "fst (fold (insert_event onUpdate) events st) =
          fold (put event_key (if onUpdate then coalesce_xdr else do_nothing)) (map event_row events) (fst st)"
    for st
    by (induction events arbitrary: st) (simp_all add: insert_event_def Let_def)
  thus ?thesis by (simp add: insertEventsBatch_def)
qed

lemma insertEventsBatch_keys:
  "event_key ` set (fst (insertEventsBatch onUpdate events rows)) =
     (event_key \<circ> event_row) ` set events \<union> event_key ` set rows"
  by (cases onUpdate)
    (simp_all add: insertEventsBatch_rows ev_update.puts_keys ev_ignore.puts_keys image_comp)

lemma insertEventsBatch_unique:
  "distinct (map event_key rows) \<Longrightarrow> distinct (map event_key (fst (insertEventsBatch onUpdate events rows)))"
  by (cases onUpdate) (simp_all add: insertEventsBatch_rows ev_update.puts_unique ev_ignore.puts_unique)

lemma upsertEvents_events:
  "t_events (snd (upsertEvents onUpdate events d)) = fst (insertEventsBatch onUpdate events (t_events d))"
  by (simp add: upsertEvents_def insertEventsBatch_def Let_def)

section \<open>Well-formed databases\<close>

definition db_wf :: "db \<Rightarrow> bool" where
  "db_wf d \<longleftrightarrow>
     distinct (map event_key (t_events d)) \<and> list_all (\<lambda>e. ev_Network e \<noteq> []) (t_events d)
     \<and> distinct (map address_key (t_addresses d)) \<and> distinct (map in_EventID (t_dead d))
     \<and> distinct (map cc_ContractID (t_cursors d)) \<and> distinct (map is_Network (t_ingestion d))
     \<and> distinct (map as_Network (t_audit d)) \<and> distinct (map watched_key (t_watched d))"

text \<open>The writes of the store, as one type of requests.\<close>

datatype store_op =
    OpUpsert "event list" | OpPrune instant | OpReplace "event list" int int
  | OpDeleteEvents string int int | OpAddresses "store_address_ref list"
  | OpDeleteAddresses "string list" | OpDeadLetter dead_letter_input | OpDeleteDead int int
  | OpIngestion ingestion_state | OpAudit audit_state | OpAuditMax string int
  | OpCursor contract_cursor | OpDeleteCursor string
  | OpWatch watched_contract | OpUnwatch watched_contract

fun store_apply :: "store_op \<Rightarrow> db \<Rightarrow> db" where
  "store_apply (OpUpsert es) d = snd (UpsertEvents es d)"
| "store_apply (OpPrune t) d = snd (PruneEventsBefore t d)"
| "store_apply (OpReplace es a b) d = ReplaceEventsInRange es a b d"
| "store_apply (OpDeleteEvents n a b) d = snd (DeleteEventsInRange n a b d)"
| "store_apply (OpAddresses rs) d = UpsertAddressRefs rs d"
| "store_apply (OpDeleteAddresses ids) d = snd (DeleteAddressRefsByEventIDs ids d)"
| "store_apply (OpDeadLetter i) d = DeadLetterEvent i d"
| "store_apply (OpDeleteDead a b) d = snd (DeleteDeadLettersInRange a b d)"
| "store_apply (OpIngestion s) d = SaveIngestionState s d"
| "store_apply (OpAudit s) d = SaveAuditState s d"
| "store_apply (OpAuditMax n l) d = snd (SaveAuditStateIfGreater n l d)"
| "store_apply (OpCursor c) d = SaveContractCursor c d"
| "store_apply (OpDeleteCursor i) d = snd (DeleteContractCursor i d)"
| "store_apply (OpWatch w) d = AddWatchedContract w d"
| "store_apply (OpUnwatch w) d = snd (RemoveWatchedContract w d)"

lemmas store_op_defs =
  UpsertEvents_def upsertEvents_def PruneEventsBefore_def ReplaceEventsInRange_def
  DeleteEventsInRange_def UpsertAddressRefs_def DeleteAddressRefsByEventIDs_def
  DeadLetterEvent_def DeleteDeadLettersInRange_def SaveIngestionState_def SaveAuditState_def
  SaveAuditStateIfGreater_def SaveContractCursor_def DeleteContractCursor_def
  AddWatchedContract_def RemoveWatchedContract_def

lemma distinct_filter_map [simp]: "distinct (map f xs) \<Longrightarrow> distinct (map f (filter P xs))"
  by (induction xs) auto

lemma insertEventsBatch_networks:
  assumes "list_all (\<lambda>e. ev_Network e \<noteq> []) rows"
  shows "list_all (\<lambda>e. ev_Network e \<noteq> []) (fst (insertEventsBatch onUpdate events rows))"
proof -
  let ?f = "fst (insertEventsBatch onUpdate events rows)"
  have "fst (event_key e) \<noteq> []" if "e \<in> set ?f" for e
  proof -
    have "event_key e \<in> event_key ` set ?f" using that by (rule imageI)
    thus ?thesis using assms unfolding insertEventsBatch_keys
      by (auto simp: event_key_def list_all_iff)
  qed
  thus ?thesis by (simp add: list_all_iff event_key_def)
qed

lemma list_all_filter [simp]: "list_all P xs \<Longrightarrow> list_all P (filter Q xs)"
  by (simp add: list_all_iff)

lemma store_apply_wf: "db_wf d \<Longrightarrow> db_wf (store_apply x d)"
  by (cases x)
    (auto simp: store_op_defs db_wf_def Let_def insertEventsBatch_unique insertEventsBatch_networks
       addr.puts_unique dead.put_unique ingestion.put_unique audit.put_unique audit_max.put_unique
       cursors.put_unique watched.put_unique)

section \<open>Replacing a range\<close>

lemma restore_one_simps [simp]:
  "ev_ID (restore_one kept e) = ev_ID e" "ev_Ledger (restore_one kept e) = ev_Ledger e"
  "ev_Network (restore_one kept e) = ev_Network e"
  by (simp_all add: restore_one_def split: option.splits)

lemma insert_distinct:
  assumes "distinct (map ev_ID events)" and "\<And>e. e \<in> set events \<Longrightarrow> in_range n a b (event_row e)"
    and "\<And>r. r \<in> set rows \<Longrightarrow> \<not> in_range n a b r"
  shows "fst (insertEventsBatch True events rows) = rows @ map event_row events"
proof -
  have "distinct (map event_key (map event_row events))"
    using assms(1) by (induction events) (auto simp: event_key_def)
  moreover have "event_key ` set (map event_row events) \<inter> event_key ` set rows = {}"
  proof (rule equals0I)
    fix k assume "k \<in> event_key ` set (map event_row events) \<inter> event_key ` set rows"
    then obtain e r where "e \<in> set events" "r \<in> set rows" "event_key (event_row e) = event_key r"
      by auto
    thus False using assms(2) [of e] assms(3) [of r] by (simp add: in_range_def event_key_def)
  qed
  ultimately have "fold (put event_key coalesce_xdr) (map event_row events) rows = rows @ map event_row events"
    by (rule ev_update.puts_new)
  thus ?thesis by (simp add: insertEventsBatch_rows)
qed

lemma replace_exact:
  assumes "events \<noteq> []" and "n \<noteq> []" and "distinct (map ev_ID events)"
    and "\<And>e. e \<in> set events \<Longrightarrow> ev_Network e = n \<and> a \<le> ev_Ledger e \<and> ev_Ledger e \<le> b"
  shows "t_events (ReplaceEventsInRange events a b d) =
           filter (\<lambda>e. \<not> in_range n a b e) (t_events d)
           @ map event_row (restoreRawXDR events (rawXDRInRange n a b (t_events d)))"
proof -
  let ?kept = "rawXDRInRange n a b (t_events d)"
  let ?rows = "filter (\<lambda>e. \<not> in_range n a b e) (t_events d)"
  have n: "ev_Network (hd events) = n" using assms(1,4) by simp
  have "distinct (map ev_ID (restoreRawXDR events ?kept))"
    using assms(3) by (simp add: restoreRawXDR_def comp_def)
  moreover have "in_range n a b (event_row e)" if "e \<in> set (restoreRawXDR events ?kept)" for e
    using that assms(2,4) by (auto simp: restoreRawXDR_def in_range_def)
  ultimately have "fst (insertEventsBatch True (restoreRawXDR events ?kept) ?rows) =
                     ?rows @ map event_row (restoreRawXDR events ?kept)"
    by (rule insert_distinct) auto
  thus ?thesis using assms(1) n by (simp add: ReplaceEventsInRange_def Let_def)
qed

text \<open>
  With the empty network, the one an ingester without a configured network passes, the delete
  matches no row: nothing that was stored goes away.
\<close>

lemma replace_empty_network:
  assumes "db_wf d" and "ev_Network (hd events) = []"
  shows "event_key ` set (t_events d) \<subseteq> event_key ` set (t_events (ReplaceEventsInRange events a b d))"
proof -
  have "filter (\<lambda>e. \<not> in_range [] a b e) (t_events d) = t_events d"
    using assms(1) by (simp add: filter_id_conv in_range_def db_wf_def list_all_iff)
  thus ?thesis
    using assms(2) by (auto simp: ReplaceEventsInRange_def Let_def insertEventsBatch_keys)
qed

section \<open>Properties\<close>


lemma insert_known:
  "event_key ` set (map event_row events) \<subseteq> event_key ` set rows \<Longrightarrow>
     fold (insert_event False) events (rows, n) = (rows, n)"
proof (induction events arbitrary: n)
  case (Cons e es)
  have "event_key r \<in> event_key ` set rows \<Longrightarrow> put event_key do_nothing r rows = rows" for r
    by (induction rows) auto
  thus ?case using Cons by (simp add: insert_event_def)
qed simp

lemma insert_ignore_keeps:
  "fst (insertEventsBatch False events rows) = rows @ drop (length rows) (fst (insertEventsBatch False events rows))"
proof -
  have "\<exists>ys. put event_key do_nothing r xs = xs @ ys" for r xs
    by (induction xs) auto
  hence "\<exists>ys. fold (put event_key do_nothing) rs xs = xs @ ys" for rs xs
  proof (induction rs arbitrary: xs)
    case (Cons r rs)
    then obtain ys zs where "put event_key do_nothing r xs = xs @ ys"
      "fold (put event_key do_nothing) rs (xs @ ys) = (xs @ ys) @ zs" by metis
    thus ?case by simp
  qed simp
  then obtain ys where "fst (insertEventsBatch False events rows) = rows @ ys"
    by (auto simp: insertEventsBatch_rows)
  thus ?thesis by simp
qed

text \<open>
  Ingesting a batch a second time is harmless: the first write leaves every row that was
  there where it was, has a row for every event of the batch, and the second write changes
  nothing and reports no row inserted.
\<close>

lemma upsert_idempotent:
  "(\<exists>added. t_events (snd (UpsertEvents events d)) = t_events d @ added)
   \<and> (event_key \<circ> event_row) ` set events \<subseteq> event_key ` set (t_events (snd (UpsertEvents events d)))
   \<and> UpsertEvents events (snd (UpsertEvents events d)) = (0, snd (UpsertEvents events d))"
proof (cases "events = []")
  case False
  let ?rows = "fst (insertEventsBatch False events (t_events d))"
  have keys: "event_key ` set (map event_row events) \<subseteq> event_key ` set ?rows"
    by (simp add: insertEventsBatch_keys image_comp)
  have "insertEventsBatch False events ?rows = (?rows, 0)"
    unfolding insertEventsBatch_def [of False events ?rows] by (rule insert_known [OF keys])
  moreover have "\<exists>added. ?rows = t_events d @ added"
    using insert_ignore_keeps [of events "t_events d"] by blast
  ultimately show ?thesis
    using False keys by (simp add: UpsertEvents_def upsertEvents_def image_comp Let_def)
qed (simp add: UpsertEvents_def)

end
