(* ===== verification/Store_Spec.thy ===== *)
theory Store_Spec
  imports Event_Store
begin

text \<open>
  What the store promises its clients: every table is a finite map from its key, and a write is an
  equation on the maps. The statements of \<^verbatim>\<open>internal/store/postgres.go\<close>, as lists of rows with
  conflict clauses, refine it under any sequence of writes. The raw XDR kept for replay is not part
  of the promise.
\<close>

section \<open>The specification\<close>

record tables =
  s_events :: "string \<times> int \<times> string \<rightharpoonup> event"
  s_addresses :: "store_address_ref set"
  s_dead :: "string \<rightharpoonup> dead_letter"
  s_cursors :: "string \<rightharpoonup> int \<times> string"
  s_ingestion :: "string \<rightharpoonup> int \<times> string \<times> instant option"
  s_audit :: "string \<rightharpoonup> int"
  s_watched :: "(string \<times> string) set"

definition no_tables :: tables where
  "no_tables = \<lparr>s_events = Map.empty, s_addresses = {}, s_dead = Map.empty, s_cursors = Map.empty,
     s_ingestion = Map.empty, s_audit = Map.empty, s_watched = {}\<rparr>"

definition drop_rows :: "('r \<Rightarrow> bool) \<Rightarrow> ('k \<rightharpoonup> 'r) \<Rightarrow> ('k \<rightharpoonup> 'r)" where
  "drop_rows P m = (\<lambda>k. case m k of None \<Rightarrow> None | Some r \<Rightarrow> if P r then None else Some r)"

text \<open>An event without its raw XDR, under the key of its row.\<close>

definition content :: "event \<Rightarrow> event" where
  "content e = e\<lparr>ev_RawTopicXDR := [], ev_RawValueXDR := []\<rparr>"

definition entry :: "event \<Rightarrow> (string \<times> int \<times> string) \<times> event" where
  "entry e = (event_key (event_row e), content (event_row e))"

fun spec_apply :: "store_op \<Rightarrow> tables \<Rightarrow> tables" where
  "spec_apply (OpUpsert es) s = s\<lparr>s_events := map_of (map entry es) ++ s_events s\<rparr>"
| "spec_apply (OpPrune t) s = s\<lparr>s_events := drop_rows (\<lambda>e. ev_CreatedAt e < t) (s_events s)\<rparr>"
| "spec_apply (OpReplace es a b) s =
     (if es = [] then s
      else s\<lparr>s_events := drop_rows (in_range (ev_Network (hd es)) a b) (s_events s) ++ map_of (rev (map entry es))\<rparr>)"
| "spec_apply (OpDeleteEvents n a b) s =
     s\<lparr>s_events := drop_rows (in_range (defaultNetwork n) a b) (s_events s)\<rparr>"
| "spec_apply (OpAddresses rs) s = s\<lparr>s_addresses := s_addresses s \<union> set rs\<rparr>"
| "spec_apply (OpDeleteAddresses ids) s =
     s\<lparr>s_addresses := {r \<in> s_addresses s. ar_EventID r \<notin> set ids}\<rparr>"
| "spec_apply (OpDeadLetter i) s =
     s\<lparr>s_dead := (s_dead s)(in_EventID i \<mapsto>
         (case s_dead s (in_EventID i) of
            None \<Rightarrow> dead_letter_input.extend i (dead_letter.fields 1)
          | Some l \<Rightarrow> l\<lparr>in_Err := in_Err i, dl_Attempts := Suc (dl_Attempts l), in_TopicXDR := in_TopicXDR i,
                       in_ValueXDR := in_ValueXDR i\<rparr>))\<rparr>"
| "spec_apply (OpDeleteDead a b) s =
     s\<lparr>s_dead := drop_rows (\<lambda>l. a \<le> in_Ledger l \<and> in_Ledger l \<le> b) (s_dead s)\<rparr>"
| "spec_apply (OpIngestion i) s =
     s\<lparr>s_ingestion := (s_ingestion s)(defaultNetwork (is_Network i) \<mapsto>
         (is_LastIngestedLedger i, is_LastCursor i, is_LastSuccessfulPoll i))\<rparr>"
| "spec_apply (OpAudit a) s =
     s\<lparr>s_audit := (s_audit s)(defaultNetwork (as_Network a) \<mapsto> as_VerifiedThroughLedger a)\<rparr>"
| "spec_apply (OpAuditMax n l) s =
     s\<lparr>s_audit := (s_audit s)(defaultNetwork n \<mapsto>
         (case s_audit s (defaultNetwork n) of None \<Rightarrow> l | Some v \<Rightarrow> max v l))\<rparr>"
| "spec_apply (OpCursor c) s =
     s\<lparr>s_cursors := (s_cursors s)(cc_ContractID c \<mapsto> (cc_LastIngestedLedger c, cc_LastCursor c))\<rparr>"
| "spec_apply (OpDeleteCursor i) s = s\<lparr>s_cursors := (s_cursors s)(i := None)\<rparr>"
| "spec_apply (OpWatch w) s =
     s\<lparr>s_watched := insert (defaultNetwork (wc_Network w), wc_ContractID w) (s_watched s)\<rparr>"
| "spec_apply (OpUnwatch w) s =
     s\<lparr>s_watched := s_watched s - {(defaultNetwork (wc_Network w), wc_ContractID w)}\<rparr>"

section \<open>The abstraction\<close>

definition table :: "('r \<Rightarrow> 'k) \<Rightarrow> ('r \<Rightarrow> 'v) \<Rightarrow> 'r list \<Rightarrow> ('k \<rightharpoonup> 'v)" where
  "table key val rows = (\<lambda>k. map_option val (row_at key k rows))"

definition tables_of :: "db \<Rightarrow> tables" where
  "tables_of d =
     \<lparr>s_events = table event_key content (t_events d), s_addresses = set (t_addresses d),
      s_dead = table in_EventID id (t_dead d),
      s_cursors = table cc_ContractID (\<lambda>c. (cc_LastIngestedLedger c, cc_LastCursor c)) (t_cursors d),
      s_ingestion = table is_Network
        (\<lambda>i. (is_LastIngestedLedger i, is_LastCursor i, is_LastSuccessfulPoll i)) (t_ingestion d),
      s_audit = table as_Network as_VerifiedThroughLedger (t_audit d),
      s_watched = watched_key ` set (t_watched d)\<rparr>"

lemma row_at_filter:
  "distinct (map key rows) \<Longrightarrow>
   row_at key k (filter P rows) = (case row_at key k rows of None \<Rightarrow> None | Some r \<Rightarrow> if P r then Some r else None)"
proof (induction rows)
  case (Cons x xs)
  hence "key x = k \<Longrightarrow> row_at key k xs = None" by auto
  thus ?case using Cons by (cases "key x = k") (auto simp del: row_at_None)
qed simp

text \<open>Deleting rows: the condition only reads what the abstraction keeps.\<close>

lemma table_filter:
  assumes "distinct (map key rows)" and "\<And>r. P r \<longleftrightarrow> \<not> Q (val r)"
  shows "table key val (filter P rows) = drop_rows Q (table key val rows)"
proof
  fix k
  show "table key val (filter P rows) k = drop_rows Q (table key val rows) k"
    using assms by (cases "row_at key k rows") (simp_all add: table_def drop_rows_def row_at_filter del: row_at_None)
qed

context keyed_table
begin

lemma table_put:
  "table key val (put key upd r rows) =
     (table key val rows)(key r \<mapsto> val (case row_at key (key r) rows of None \<Rightarrow> r | Some x \<Rightarrow> upd x r))"
  by (auto simp: table_def put_row_at)

end

lemma table_puts_keep:
  "table event_key val (fold (put event_key do_nothing) rs rows) =
     map_of (map (\<lambda>r. (event_key r, val r)) rs) ++ table event_key val rows"
proof (induction rs arbitrary: rows)
  case (Cons r rs)
  have "table event_key val (put event_key do_nothing r rows) = [event_key r \<mapsto> val r] ++ table event_key val rows"
    unfolding ev_ignore.table_put
    by (rule ext, cases "row_at event_key (event_key r) rows")
      (auto simp: table_def map_add_def simp del: row_at_None split: option.split)
  thus ?case by (auto simp: Cons map_add_def fun_eq_iff split: option.split)
qed simp

lemma table_puts_replace:
  assumes "\<And>x r. val (coalesce_xdr x r) = val r"
  shows "table event_key val (fold (put event_key coalesce_xdr) rs rows) =
     table event_key val rows ++ map_of (rev (map (\<lambda>r. (event_key r, val r)) rs))"
proof (induction rs arbitrary: rows)
  case (Cons r rs)
  have "val (case opt of None \<Rightarrow> r | Some x \<Rightarrow> coalesce_xdr x r) = val r" for opt
    using assms by (simp split: option.split)
  hence "table event_key val (put event_key coalesce_xdr r rows) =
      table event_key val rows ++ [event_key r \<mapsto> val r]"
    unfolding ev_update.table_put by simp
  thus ?case by (auto simp: Cons map_add_def fun_eq_iff split: option.split)
qed simp

section \<open>Events\<close>

lemma content_simps [simp]:
  "content (coalesce_xdr x r) = content r" "content (event_row (restore_one kept e)) = content (event_row e)"
  "ev_CreatedAt (content e) = ev_CreatedAt e" "in_range n a b (content e) = in_range n a b e"
  by (simp_all add: content_def coalesce_xdr_def event_row_def restore_one_def in_range_def split: option.splits)

lemma event_entry: "(\<lambda>r. (event_key r, content r)) \<circ> event_row = entry"
  by (simp add: fun_eq_iff entry_def)

lemma restore_entry: "map entry (restoreRawXDR es kept) = map entry es"
  by (simp add: restoreRawXDR_def entry_def event_key_def)

lemma events_upsert:
  "table event_key content (t_events (snd (UpsertEvents es d))) =
     map_of (map entry es) ++ table event_key content (t_events d)"
  using table_puts_keep [of content "map event_row es" "t_events d"]
  by (simp add: UpsertEvents_def upsertEvents_events insertEventsBatch_rows event_entry)

lemma events_replace:
  assumes "distinct (map event_key (t_events d))" and "es \<noteq> []"
  shows "table event_key content (t_events (ReplaceEventsInRange es a b d)) =
     drop_rows (in_range (ev_Network (hd es)) a b) (table event_key content (t_events d)) ++ map_of (rev (map entry es))"
proof -
  let ?n = "ev_Network (hd es)"
  let ?es = "restoreRawXDR es (rawXDRInRange ?n a b (t_events d))"
  have "table event_key content (filter (\<lambda>e. \<not> in_range ?n a b e) (t_events d)) =
      drop_rows (in_range ?n a b) (table event_key content (t_events d))"
    using assms(1) by (rule table_filter) simp
  moreover have "map (\<lambda>r. (event_key r, content r)) (map event_row ?es) = map entry es"
    using restore_entry [of es] by (simp add: event_entry)
  ultimately show ?thesis
    using table_puts_replace [of content "map event_row ?es" "filter (\<lambda>e. \<not> in_range ?n a b e) (t_events d)"] assms(2)
    by (simp add: ReplaceEventsInRange_def insertEventsBatch_rows Let_def)
qed

section \<open>The other tables\<close>

lemma puts_set: "inj key \<Longrightarrow> set (fold (put key do_nothing) rs rows) = set rows \<union> set rs"
proof (induction rs arbitrary: rows)
  case (Cons r rs)
  have "set (put key do_nothing r xs) = insert r (set xs)" for xs
    using Cons.prems by (induction xs) (auto dest: injD)
  thus ?case using Cons by auto
qed simp

lemma inj_address_key: "inj address_key"
  by (rule injI) (simp add: address_key_def)

lemma in_EventID_extend [simp]: "in_EventID (dead_letter_input.extend i (dead_letter.fields n)) = in_EventID i"
  by (simp add: dead_letter_input.extend_def dead_letter.fields_def)

lemma dead_table:
  "table in_EventID id (put in_EventID dead_letter_again (dead_letter_input.extend i (dead_letter.fields 1)) rows) =
     (table in_EventID id rows)(in_EventID i \<mapsto>
        (case table in_EventID id rows (in_EventID i) of
           None \<Rightarrow> dead_letter_input.extend i (dead_letter.fields 1)
         | Some l \<Rightarrow> l\<lparr>in_Err := in_Err i, dl_Attempts := Suc (dl_Attempts l), in_TopicXDR := in_TopicXDR i,
                      in_ValueXDR := in_ValueXDR i\<rparr>))"
  unfolding dead.table_put
  by (cases "row_at in_EventID (in_EventID i) rows")
    (simp_all add: table_def dead_letter_again_def dead_letter_input.extend_def dead_letter.fields_def
      del: row_at_None)

lemma audit_table:
  "table as_Network as_VerifiedThroughLedger
     (put as_Network audit_if_greater \<lparr>as_Network = n, as_VerifiedThroughLedger = l\<rparr> rows) =
   (table as_Network as_VerifiedThroughLedger rows)(n \<mapsto>
     (case table as_Network as_VerifiedThroughLedger rows n of None \<Rightarrow> l | Some v \<Rightarrow> max v l))"
  unfolding audit_max.table_put
  by (cases "row_at as_Network n rows") (auto simp: table_def audit_if_greater_def max_def simp del: row_at_None)

lemma cursor_table:
  assumes "distinct (map cc_ContractID rows)"
  shows "table cc_ContractID val (filter (\<lambda>c. cc_ContractID c \<noteq> i) rows) = (table cc_ContractID val rows)(i := None)"
proof
  fix k
  show "table cc_ContractID val (filter (\<lambda>c. cc_ContractID c \<noteq> i) rows) k =
      ((table cc_ContractID val rows)(i := None)) k"
    using assms row_at_Some [of cc_ContractID k rows]
    by (cases "row_at cc_ContractID k rows") (auto simp: table_def row_at_filter simp del: row_at_None)
qed

section \<open>The refinement\<close>

lemmas unfold_tables = tables_of_def cursors.table_put ingestion.table_put audit.table_put

lemma store_step:
  assumes wf: "db_wf d"
  shows "tables_of (store_apply x d) = spec_apply x (tables_of d)"
proof -
  have keys: "distinct (map event_key (t_events d))" "distinct (map in_EventID (t_dead d))"
    "distinct (map cc_ContractID (t_cursors d))"
    using wf by (simp_all add: db_wf_def)
  have kept: "(case opt of None \<Rightarrow> r | Some x \<Rightarrow> r) = r" for opt :: "'a option" and r :: 'b
    by (cases opt) simp_all
  show ?thesis
  proof (cases x)
    case (OpUpsert es)
    thus ?thesis using events_upsert [of es d]
      by (simp add: tables_of_def) (simp add: UpsertEvents_def upsertEvents_def Let_def)
  next
    case (OpPrune t)
    thus ?thesis using table_filter [OF keys(1), of _ "\<lambda>e. ev_CreatedAt e < t" content]
      by (simp add: tables_of_def PruneEventsBefore_def Let_def)
  next
    case (OpReplace es a b)
    thus ?thesis using events_replace [OF keys(1), of es a b]
      by (cases "es = []") (simp_all add: tables_of_def, simp_all add: ReplaceEventsInRange_def Let_def)
  next
    case (OpDeleteEvents n a b)
    thus ?thesis using table_filter [OF keys(1), of _ "in_range (defaultNetwork n) a b" content]
      by (simp add: tables_of_def DeleteEventsInRange_def Let_def)
  next
    case (OpAddresses rs)
    thus ?thesis by (simp add: tables_of_def UpsertAddressRefs_def puts_set inj_address_key)
  next
    case (OpDeleteAddresses ids)
    thus ?thesis by (cases "ids = []") (auto simp: tables_of_def DeleteAddressRefsByEventIDs_def Let_def)
  next
    case (OpDeadLetter i)
    thus ?thesis by (simp add: tables_of_def DeadLetterEvent_def dead_table del: One_nat_def)
  next
    case (OpDeleteDead a b)
    thus ?thesis
      using table_filter [OF keys(2), of _ "\<lambda>l. a \<le> in_Ledger l \<and> in_Ledger l \<le> b" id]
      by (simp add: tables_of_def DeleteDeadLettersInRange_def Let_def)
  next
    case (OpAuditMax n l)
    thus ?thesis by (simp add: tables_of_def SaveAuditStateIfGreater_def Let_def audit_table)
  next
    case (OpDeleteCursor i)
    thus ?thesis by (simp add: tables_of_def DeleteContractCursor_def Let_def cursor_table keys)
  next
    case (OpWatch w)
    thus ?thesis by (simp add: tables_of_def AddWatchedContract_def watched.put_keys) (simp add: watched_key_def)
  next
    case (OpUnwatch w)
    thus ?thesis by (auto simp: tables_of_def RemoveWatchedContract_def Let_def)
  qed (simp_all add: unfold_tables kept SaveIngestionState_def SaveAuditState_def SaveContractCursor_def)
qed

text \<open>
  C6. The statements of the store implement its contract. Start from the empty database and apply
  any sequence of writes: the tables, read through their keys, are what the specification gives
  for the same sequence. In particular ingesting an event again changes nothing, a repair leaves of
  a range what it was given, and an audit mark only goes up.
\<close>

theorem store_refines_spec:
  "tables_of (fold store_apply ops empty_db) = fold spec_apply ops no_tables"
proof -
  have "db_wf d \<Longrightarrow> tables_of (fold store_apply ops d) = fold spec_apply ops (tables_of d)" for d
    by (induction ops arbitrary: d) (simp_all add: store_apply_wf store_step)
  moreover have "db_wf empty_db" "tables_of empty_db = no_tables"
    by (simp_all add: db_wf_def empty_db_def tables_of_def no_tables_def table_def)
  ultimately show ?thesis by simp
qed

end
