(* ===== verification/Go_Json_Scan.thy ===== *)
theory Go_Json_Scan
  imports Go_Json
begin

text \<open>
  The byte scanner of \<^verbatim>\<open>encoding/json\<close> and \<^verbatim>\<open>json.Compact\<close>, which drops the insignificant
  white space of a valid JSON text and fails on any other text. A state is the scanner's step
  function with its stack of open objects and arrays; a step says whether the byte is white space
  between tokens, and is \<^const>\<open>None\<close> on a syntax error.
\<close>

datatype parse_state = ParseObjectKey | ParseObjectValue | ParseArrayValue

datatype scan_state =
    BeginValue | BeginValueOrEmpty | BeginString | BeginStringOrEmpty | EndValue | EndTop
  | InString | InStringEsc | InStringEscU nat | Neg | Digits | Zero | Dot | Dot0 | Exp | ExpSign | Exp0
  | Literal string

type_synonym scanner = "scan_state \<times> parse_state list"

type_synonym scan_result = "(scanner \<times> bool) option"

abbreviation maxNestingDepth :: nat where "maxNestingDepth \<equiv> 10000"

definition isSpace :: "char \<Rightarrow> bool" where
  "isSpace c \<longleftrightarrow> c = CHR '' '' \<or> c = CHR 0x09 \<or> c = CHR 0x0A \<or> c = CHR 0x0D"

definition pushParseState :: "scan_state \<Rightarrow> parse_state \<Rightarrow> parse_state list \<Rightarrow> scan_result" where
  "pushParseState st p ps =
     (if length (p # ps) \<le> maxNestingDepth then Some ((st, p # ps), False) else None)"

definition popParseState :: "parse_state list \<Rightarrow> scan_result" where
  "popParseState ps = Some ((if tl ps = [] then EndTop else EndValue, tl ps), False)"

definition scanEndTop :: "parse_state list \<Rightarrow> char \<Rightarrow> scan_result" where
  "scanEndTop ps c = (if isSpace c then Some ((EndTop, ps), True) else None)"

definition scanEndValue :: "parse_state list \<Rightarrow> char \<Rightarrow> scan_result" where
  "scanEndValue ps c =
     (case ps of
        [] \<Rightarrow> scanEndTop ps c
      | p # r \<Rightarrow>
          if isSpace c then Some ((EndValue, ps), True)
          else case p of
              ParseObjectKey \<Rightarrow>
                if c = CHR '':'' then Some ((BeginValue, ParseObjectValue # r), False) else None
            | ParseObjectValue \<Rightarrow>
                if c = CHR '','' then Some ((BeginString, ParseObjectKey # r), False)
                else if c = CHR ''}'' then popParseState ps else None
            | ParseArrayValue \<Rightarrow>
                if c = CHR '','' then Some ((BeginValue, ps), False)
                else if c = CHR '']'' then popParseState ps else None)"

definition scanBeginValue :: "parse_state list \<Rightarrow> char \<Rightarrow> scan_result" where
  "scanBeginValue ps c =
     (if isSpace c then Some ((BeginValue, ps), True)
      else if c = CHR ''{'' then pushParseState BeginStringOrEmpty ParseObjectKey ps
      else if c = CHR ''['' then pushParseState BeginValueOrEmpty ParseArrayValue ps
      else if c = CHR 0x22 then Some ((InString, ps), False)
      else if c = CHR ''-'' then Some ((Neg, ps), False)
      else if c = CHR ''0'' then Some ((Zero, ps), False)
      else if is_digit c then Some ((Digits, ps), False)
      else if c = CHR ''t'' then Some ((Literal ''rue'', ps), False)
      else if c = CHR ''f'' then Some ((Literal ''alse'', ps), False)
      else if c = CHR ''n'' then Some ((Literal ''ull'', ps), False)
      else None)"

definition scanBeginString :: "parse_state list \<Rightarrow> char \<Rightarrow> scan_result" where
  "scanBeginString ps c =
     (if isSpace c then Some ((BeginString, ps), True)
      else if c = CHR 0x22 then Some ((InString, ps), False) else None)"

definition scanZero :: "parse_state list \<Rightarrow> char \<Rightarrow> scan_result" where
  "scanZero ps c =
     (if c = CHR ''.'' then Some ((Dot, ps), False)
      else if c = CHR ''e'' \<or> c = CHR ''E'' then Some ((Exp, ps), False)
      else scanEndValue ps c)"

definition scanExpSign :: "parse_state list \<Rightarrow> char \<Rightarrow> scan_result" where
  "scanExpSign ps c = (if is_digit c then Some ((Exp0, ps), False) else None)"

fun scan_step :: "scanner \<Rightarrow> char \<Rightarrow> scan_result" where
  "scan_step (BeginValue, ps) c = scanBeginValue ps c"
| "scan_step (BeginValueOrEmpty, ps) c =
     (if isSpace c then Some ((BeginValueOrEmpty, ps), True)
      else if c = CHR '']'' then scanEndValue ps c else scanBeginValue ps c)"
| "scan_step (BeginString, ps) c = scanBeginString ps c"
| "scan_step (BeginStringOrEmpty, ps) c =
     (if isSpace c then Some ((BeginStringOrEmpty, ps), True)
      else if c = CHR ''}'' then scanEndValue (ParseObjectValue # tl ps) c else scanBeginString ps c)"
| "scan_step (EndValue, ps) c = scanEndValue ps c"
| "scan_step (EndTop, ps) c = scanEndTop ps c"
| "scan_step (InString, ps) c =
     (if c = CHR 0x22 then Some ((EndValue, ps), False)
      else if c = CHR 0x5C then Some ((InStringEsc, ps), False)
      else if (of_char c :: nat) < 32 then None else Some ((InString, ps), False))"
| "scan_step (InStringEsc, ps) c =
     (if c \<in> set ''bfnrt/'' \<or> c = CHR 0x5C \<or> c = CHR 0x22 then Some ((InString, ps), False)
      else if c = CHR ''u'' then Some ((InStringEscU 3, ps), False) else None)"
| "scan_step (InStringEscU k, ps) c =
     (if hex_val c = None then None
      else Some ((case k of 0 \<Rightarrow> InString | Suc m \<Rightarrow> InStringEscU m, ps), False))"
| "scan_step (Neg, ps) c =
     (if c = CHR ''0'' then Some ((Zero, ps), False)
      else if is_digit c then Some ((Digits, ps), False) else None)"
| "scan_step (Digits, ps) c = (if is_digit c then Some ((Digits, ps), False) else scanZero ps c)"
| "scan_step (Zero, ps) c = scanZero ps c"
| "scan_step (Dot, ps) c = (if is_digit c then Some ((Dot0, ps), False) else None)"
| "scan_step (Dot0, ps) c =
     (if is_digit c then Some ((Dot0, ps), False)
      else if c = CHR ''e'' \<or> c = CHR ''E'' then Some ((Exp, ps), False) else scanEndValue ps c)"
| "scan_step (Exp, ps) c =
     (if c = CHR ''+'' \<or> c = CHR ''-'' then Some ((ExpSign, ps), False) else scanExpSign ps c)"
| "scan_step (ExpSign, ps) c = scanExpSign ps c"
| "scan_step (Exp0, ps) c = (if is_digit c then Some ((Exp0, ps), False) else scanEndValue ps c)"
| "scan_step (Literal [], ps) c = scanEndValue ps c"
| "scan_step (Literal (x # xs), ps) c =
     (if c = x then Some ((if xs = [] then EndValue else Literal xs, ps), False) else None)"

definition scan_eof :: "scanner \<Rightarrow> bool" where
  "scan_eof s \<longleftrightarrow>
     fst s = EndTop \<or> (case scan_step s (CHR '' '') of None \<Rightarrow> False | Some (s', _) \<Rightarrow> fst s' = EndTop)"

fun compact_from :: "scanner \<Rightarrow> string \<Rightarrow> string option" where
  "compact_from s [] = (if scan_eof s then Some [] else None)"
| "compact_from s (c # cs) =
     (case scan_step s c of
        None \<Rightarrow> None
      | Some (s', skip) \<Rightarrow> map_option (if skip then id else (#) c) (compact_from s' cs))"

definition Compact :: "string \<Rightarrow> string option" where
  "Compact src = compact_from (BeginValue, []) src"

lemma Compact_examples:
  "Compact ''  [1 , {} ] '' = Some ''[1,{}]''" "Compact ''[1,'' = None" "Compact ''- 1'' = None"
  by code_simp+

end
