(* ===== verification/Store_Reorg.thy ===== *)
theory Store_Reorg
  imports Event_Store Go_Json_Scan
begin

text \<open>
  Reorg reconciliation in the store, \<^verbatim>\<open>internal/store/reorg.go\<close>: the normalisation of the
  canonical events, the diff against the stored snapshot, and the transaction that replaces the
  events of a ledger range with everything derived from them. The Postgres and the SQLite
  transaction run the same statements with a different test for a row's network and a different
  row, so one definition takes that test and the insertion as arguments. Errors of the database
  roll the transaction back; here every statement succeeds.
\<close>

section \<open>Options and result\<close>

record reorg_options =
  ro_Network :: string
  ro_FromLedger :: int
  ro_ToLedger :: int
  ro_CanonicalEvents :: "event list"
  ro_CanonicalAddressRefs :: "store_address_ref list"
  ro_NewHeadLedger :: int
  ro_RewindCursorsToFromLedger :: bool

record reorg_result =
  rr_FromLedger :: int
  rr_ToLedger :: int
  rr_PreviousEventIDs :: "string list"
  rr_RetractedEventIDs :: "string list"
  rr_InsertedEventIDs :: "string list"
  rr_RetractedAddressRefs :: int
  rr_InsertedAddressRefs :: int
  rr_RetractedDeadLetters :: int
  rr_RewoundContractCursors :: int
  rr_RewoundIngestionLedger :: int
  rr_RewoundAuditLedger :: int

definition zero_result :: reorg_result where
  "zero_result = \<lparr>rr_FromLedger = 0, rr_ToLedger = 0, rr_PreviousEventIDs = [],
     rr_RetractedEventIDs = [], rr_InsertedEventIDs = [], rr_RetractedAddressRefs = 0,
     rr_InsertedAddressRefs = 0, rr_RetractedDeadLetters = 0, rr_RewoundContractCursors = 0,
     rr_RewoundIngestionLedger = 0, rr_RewoundAuditLedger = 0\<rparr>"

section \<open>Comparing events\<close>

definition canonicalJSONEqual :: "string \<Rightarrow> string \<Rightarrow> bool" where
  "canonicalJSONEqual a b =
     (if a = b then True
      else case (Compact a, Compact b) of
          (Some ca, Some cb) \<Rightarrow> ca = cb
        | _ \<Rightarrow> TrimSpace a = TrimSpace b)"

definition sameCanonicalEventContent :: "event \<Rightarrow> event \<Rightarrow> bool" where
  "sameCanonicalEventContent a b \<longleftrightarrow>
     ev_ID a = ev_ID b \<and> ev_ContractID a = ev_ContractID b \<and> ev_Ledger a = ev_Ledger b
     \<and> ev_Type a = ev_Type b \<and> ev_TxHash a = ev_TxHash b \<and> ev_TxIndex a = ev_TxIndex b
     \<and> ev_OpIndex a = ev_OpIndex b \<and> ev_InSuccessfulCall a = ev_InSuccessfulCall b
     \<and> canonicalJSONEqual (ev_Topics a) (ev_Topics b) \<and> canonicalJSONEqual (ev_Value a) (ev_Value b)"

text \<open>A Go map filled in a loop: the last event of an ID is the one kept.\<close>

definition by_id :: "event list \<Rightarrow> (string \<rightharpoonup> event)" where
  "by_id events = map_of (rev (map (\<lambda>e. (ev_ID e, e)) events))"

definition has_xdr :: "event \<Rightarrow> bool" where
  "has_xdr e \<longleftrightarrow> ev_RawTopicXDR e \<noteq> [] \<or> ev_RawValueXDR e \<noteq> []"

definition merge_xdr :: "event list \<Rightarrow> event \<Rightarrow> event" where
  "merge_xdr existingEvents e =
     (case (by_id (filter has_xdr existingEvents) (ev_ID e), by_id existingEvents (ev_ID e)) of
        (Some oldXDR, Some oldEv) \<Rightarrow>
          if sameCanonicalEventContent oldEv e
          then e\<lparr>ev_RawTopicXDR := (if ev_RawTopicXDR e = [] then ev_RawTopicXDR oldXDR else ev_RawTopicXDR e),
                 ev_RawValueXDR := (if ev_RawValueXDR e = [] then ev_RawValueXDR oldXDR else ev_RawValueXDR e)\<rparr>
          else e
      | _ \<Rightarrow> e)"

definition is_retracted :: "event list \<Rightarrow> (string \<rightharpoonup> event) \<Rightarrow> string \<Rightarrow> bool" where
  "is_retracted existingEvents canonicalByID i \<longleftrightarrow>
     (case by_id existingEvents i of
        None \<Rightarrow> False
      | Some oldEv \<Rightarrow>
          (case canonicalByID i of
             None \<Rightarrow> True
           | Some newEv \<Rightarrow> \<not> sameCanonicalEventContent oldEv newEv))"

definition reconcileSnapshotWithCanonical ::
  "event list \<Rightarrow> event list \<Rightarrow> (string \<rightharpoonup> event) \<Rightarrow> string list \<times> string list \<times> event list" where
  "reconcileSnapshotWithCanonical existingEvents canonical canonicalByID =
     (let ids = map ev_ID existingEvents
      in (sort ids, sort (filter (is_retracted existingEvents canonicalByID) (remdups ids)),
          map (merge_xdr existingEvents) canonical))"

fun dedup_refs ::
  "(string \<times> string \<times> string) set \<Rightarrow> store_address_ref list \<Rightarrow> store_address_ref list" where
  "dedup_refs seen [] = []"
| "dedup_refs seen (r # rs) =
     (if address_key r \<in> seen then dedup_refs seen rs
      else r # dedup_refs (insert (address_key r) seen) rs)"

definition deduplicateAddressRefs ::
  "store_address_ref list \<Rightarrow> (string \<rightharpoonup> event) \<Rightarrow> store_address_ref list" where
  "deduplicateAddressRefs refs allowedEvents =
     dedup_refs {} (filter (\<lambda>r. allowedEvents (ar_EventID r) \<noteq> None) refs)"

section \<open>The transaction\<close>

text \<open>
  \<open>own\<close> tells whether a row's network is the one reconciled. The test on watched contracts that
  the dead-letter delete and the cursor query share: the contract is watched on another network
  and not on this one.
\<close>

definition foreign_contract :: "(string \<Rightarrow> bool) \<Rightarrow> watched_contract list \<Rightarrow> string \<Rightarrow> bool" where
  "foreign_contract own watched c \<longleftrightarrow>
     list_ex (\<lambda>w. wc_ContractID w = c \<and> \<not> own (wc_Network w)
                 \<and> \<not> list_ex (\<lambda>w2. wc_ContractID w2 = c \<and> own (wc_Network w2)) watched) watched"

definition own_range :: "(string \<Rightarrow> bool) \<Rightarrow> reorg_options \<Rightarrow> event \<Rightarrow> bool" where
  "own_range own opts e \<longleftrightarrow>
     own (ev_Network e) \<and> ro_FromLedger opts \<le> ev_Ledger e \<and> ev_Ledger e \<le> ro_ToLedger opts"

definition tx_snapshot :: "(string \<Rightarrow> bool) \<Rightarrow> reorg_options \<Rightarrow> db \<Rightarrow> event list" where
  "tx_snapshot own opts d = sort_key ev_ID (filter (own_range own opts) (t_events d))"

definition stale_ref :: "(string \<Rightarrow> bool) \<Rightarrow> string list \<Rightarrow> db \<Rightarrow> store_address_ref \<Rightarrow> bool" where
  "stale_ref own previousIDs d r \<longleftrightarrow>
     ar_EventID r \<in> set previousIDs
     \<and> \<not> list_ex (\<lambda>e. ev_ID e = ar_EventID r \<and> \<not> own (ev_Network e)) (t_events d)"

definition tx_retract_refs ::
  "(string \<Rightarrow> bool) \<Rightarrow> string list \<Rightarrow> reorg_result \<times> db \<Rightarrow> reorg_result \<times> db" where
  "tx_retract_refs own previousIDs st =
     (let (res, d) = st
      in if previousIDs = [] then st
         else (res\<lparr>rr_RetractedAddressRefs := int (length (filter (stale_ref own previousIDs d) (t_addresses d)))\<rparr>,
               d\<lparr>t_addresses := filter (\<lambda>r. \<not> stale_ref own previousIDs d r) (t_addresses d)\<rparr>))"

definition tx_replace_events ::
  "(event list \<Rightarrow> event list \<Rightarrow> event list) \<Rightarrow> (string \<Rightarrow> bool) \<Rightarrow> reorg_options \<Rightarrow> event list
   \<Rightarrow> reorg_result \<times> db \<Rightarrow> reorg_result \<times> db" where
  "tx_replace_events ins own opts canonical st =
     (let (res, d) = st; rows = filter (\<lambda>e. \<not> own_range own opts e) (t_events d)
      in (res, d\<lparr>t_events := (if canonical = [] then rows else ins canonical rows)\<rparr>))"

definition stale_dead ::
  "(string \<Rightarrow> bool) \<Rightarrow> reorg_options \<Rightarrow> watched_contract list \<Rightarrow> dead_letter \<Rightarrow> bool" where
  "stale_dead own opts watched l \<longleftrightarrow>
     ro_FromLedger opts \<le> in_Ledger l \<and> in_Ledger l \<le> ro_ToLedger opts
     \<and> \<not> foreign_contract own watched (in_ContractID l)"

definition tx_retract_dead ::
  "(string \<Rightarrow> bool) \<Rightarrow> reorg_options \<Rightarrow> reorg_result \<times> db \<Rightarrow> reorg_result \<times> db" where
  "tx_retract_dead own opts st =
     (let (res, d) = st
      in (res\<lparr>rr_RetractedDeadLetters := int (length (filter (stale_dead own opts (t_watched d)) (t_dead d)))\<rparr>,
          d\<lparr>t_dead := filter (\<lambda>l. \<not> stale_dead own opts (t_watched d) l) (t_dead d)\<rparr>))"

definition tx_index_refs ::
  "store_address_ref list \<Rightarrow> reorg_result \<times> db \<Rightarrow> reorg_result \<times> db" where
  "tx_index_refs refs st =
     (let (res, d) = st
      in if refs = [] then st
         else (res\<lparr>rr_InsertedAddressRefs := int (length refs)\<rparr>, UpsertAddressRefs refs d))"

definition target_ledger :: "reorg_options \<Rightarrow> int \<Rightarrow> int" where
  "target_ledger opts ledger =
     (if ro_RewindCursorsToFromLedger opts then ro_FromLedger opts - 1
      else if ro_NewHeadLedger opts > 0 \<and> ledger > ro_NewHeadLedger opts then ro_NewHeadLedger opts
      else ledger)"

definition rewinds ::
  "(string \<Rightarrow> bool) \<Rightarrow> reorg_options \<Rightarrow> watched_contract list \<Rightarrow> contract_cursor \<Rightarrow> bool" where
  "rewinds own opts watched c \<longleftrightarrow>
     cc_LastIngestedLedger c \<ge> ro_FromLedger opts \<and> \<not> foreign_contract own watched (cc_ContractID c)
     \<and> (target_ledger opts (cc_LastIngestedLedger c) \<noteq> cc_LastIngestedLedger c \<or> cc_LastCursor c \<noteq> [])"

definition tx_rewind_cursors ::
  "(string \<Rightarrow> bool) \<Rightarrow> reorg_options \<Rightarrow> reorg_result \<times> db \<Rightarrow> reorg_result \<times> db" where
  "tx_rewind_cursors own opts st =
     (let (res, d) = st
      in (res\<lparr>rr_RewoundContractCursors := int (length (filter (rewinds own opts (t_watched d)) (t_cursors d)))\<rparr>,
          d\<lparr>t_cursors := map (\<lambda>c. if rewinds own opts (t_watched d) c
                then c\<lparr>cc_LastIngestedLedger := target_ledger opts (cc_LastIngestedLedger c), cc_LastCursor := []\<rparr>
                else c) (t_cursors d)\<rparr>))"

definition rewind_ingestion :: "reorg_options \<Rightarrow> ingestion_state \<Rightarrow> ingestion_state option" where
  "rewind_ingestion opts s =
     (if is_LastIngestedLedger s \<ge> ro_FromLedger opts
      then let ledger = is_LastIngestedLedger s;
               targetLedger = target_ledger opts ledger;
               clearCursor = (is_LastCursor s \<noteq> [] \<and> (ledger \<le> ro_ToLedger opts \<or> targetLedger \<noteq> ledger))
           in if targetLedger \<noteq> ledger \<or> clearCursor
              then Some (s\<lparr>is_LastIngestedLedger := targetLedger,
                           is_LastCursor := (if clearCursor then [] else is_LastCursor s)\<rparr>)
              else None
      else None)"

definition tx_rewind_ingestion ::
  "string \<Rightarrow> reorg_options \<Rightarrow> reorg_result \<times> db \<Rightarrow> reorg_result \<times> db" where
  "tx_rewind_ingestion network opts st =
     (let (res, d) = st
      in case row_at is_Network network (t_ingestion d) of
          None \<Rightarrow> st
        | Some s \<Rightarrow>
            (case rewind_ingestion opts s of
               None \<Rightarrow> st
             | Some s' \<Rightarrow> (res\<lparr>rr_RewoundIngestionLedger := is_LastIngestedLedger s'\<rparr>,
                            d\<lparr>t_ingestion := put is_Network do_replace s' (t_ingestion d)\<rparr>)))"

definition tx_clamp_audit ::
  "string \<Rightarrow> reorg_options \<Rightarrow> reorg_result \<times> db \<Rightarrow> reorg_result \<times> db" where
  "tx_clamp_audit network opts st =
     (let (res, d) = st
      in case row_at as_Network network (t_audit d) of
          None \<Rightarrow> st
        | Some a \<Rightarrow>
            if as_VerifiedThroughLedger a \<ge> ro_FromLedger opts
            then let clamped = max (ro_FromLedger opts - 1) 0
                 in (res\<lparr>rr_RewoundAuditLedger := clamped\<rparr>,
                     d\<lparr>t_audit := put as_Network do_replace (a\<lparr>as_VerifiedThroughLedger := clamped\<rparr>) (t_audit d)\<rparr>)
            else st)"

definition reconcile_tx ::
  "(event list \<Rightarrow> event list \<Rightarrow> event list) \<Rightarrow> (string \<Rightarrow> string \<Rightarrow> bool) \<Rightarrow> reorg_options \<Rightarrow> event list
   \<Rightarrow> (string \<rightharpoonup> event) \<Rightarrow> store_address_ref list \<Rightarrow> string list \<Rightarrow> db \<Rightarrow> reorg_result \<times> db" where
  "reconcile_tx ins own_network opts canonical canonicalByID dedupRefs insertedIDs d =
     (let network = defaultNetwork (ro_Network opts);
          own = own_network network;
          existingEvents = tx_snapshot own opts d;
          (previousIDs, retractedIDs, canonical) =
            reconcileSnapshotWithCanonical existingEvents canonical canonicalByID;
          res = zero_result\<lparr>rr_FromLedger := ro_FromLedger opts, rr_ToLedger := ro_ToLedger opts,
                  rr_InsertedEventIDs := insertedIDs, rr_PreviousEventIDs := previousIDs,
                  rr_RetractedEventIDs := retractedIDs\<rparr>;
          st = tx_retract_refs own previousIDs (res, d);
          st = tx_replace_events ins own opts canonical st;
          st = tx_retract_dead own opts st;
          st = tx_index_refs dedupRefs st;
          st = tx_rewind_cursors own opts st;
          st = tx_rewind_ingestion network opts st
      in tx_clamp_audit network opts st)"

text \<open>Postgres: a row's network is compared as it is, and normalised when it is written.\<close>

definition pg_own :: "string \<Rightarrow> string \<Rightarrow> bool" where
  "pg_own network n \<longleftrightarrow> n = network"

definition pg_ReconcileReorgTx ::
  "reorg_options \<Rightarrow> event list \<Rightarrow> (string \<rightharpoonup> event) \<Rightarrow> store_address_ref list \<Rightarrow> string list
   \<Rightarrow> db \<Rightarrow> reorg_result \<times> db" where
  "pg_ReconcileReorgTx =
     reconcile_tx (\<lambda>canonical rows. fst (insertEventsBatch True canonical rows)) pg_own"

text \<open>SQLite: an empty network counts as the default one, and the key is the network and the ID.\<close>

definition sqlite_own :: "string \<Rightarrow> string \<Rightarrow> bool" where
  "sqlite_own network n \<longleftrightarrow> n = network \<or> (network = ''default'' \<and> n = [])"

definition sqlite_key :: "event \<Rightarrow> string \<times> string" where
  "sqlite_key e = (ev_Network e, ev_ID e)"

definition upsertCanonicalEventsSQLiteTx :: "event list \<Rightarrow> event list \<Rightarrow> event list" where
  "upsertCanonicalEventsSQLiteTx events rows =
     fold (put sqlite_key coalesce_xdr) (map (\<lambda>e. e\<lparr>ev_SEP41Event := None\<rparr>) events) rows"

definition sqlite_ReconcileReorgTx ::
  "reorg_options \<Rightarrow> event list \<Rightarrow> (string \<rightharpoonup> event) \<Rightarrow> store_address_ref list \<Rightarrow> string list
   \<Rightarrow> db \<Rightarrow> reorg_result \<times> db" where
  "sqlite_ReconcileReorgTx = reconcile_tx upsertCanonicalEventsSQLiteTx sqlite_own"

section \<open>Entry point\<close>

text \<open>The loop that filters, tags and deduplicates the canonical events.\<close>

fun normalise_canonical :: "reorg_options \<Rightarrow> string set \<Rightarrow> event list \<Rightarrow> event list" where
  "normalise_canonical opts seen [] = []"
| "normalise_canonical opts seen (ev # evs) =
     (if ev_Ledger ev < ro_FromLedger opts \<or> ev_Ledger ev > ro_ToLedger opts
      then normalise_canonical opts seen evs
      else if ev_ID ev \<in> seen then normalise_canonical opts seen evs
      else (if ev_Network ev = [] \<and> ro_Network opts \<noteq> [] then ev\<lparr>ev_Network := ro_Network opts\<rparr> else ev)
           # normalise_canonical opts (insert (ev_ID ev) seen) evs)"

datatype reorg_error = InvalidReorgRange int int

definition ReconcileReorgRange ::
  "(reorg_options \<Rightarrow> event list \<Rightarrow> (string \<rightharpoonup> event) \<Rightarrow> store_address_ref list \<Rightarrow> string list
    \<Rightarrow> db \<Rightarrow> reorg_result \<times> db)
   \<Rightarrow> reorg_options \<Rightarrow> db \<Rightarrow> (reorg_error + reorg_result) \<times> db" where
  "ReconcileReorgRange tx opts d =
     (if ro_FromLedger opts \<le> 0 \<or> ro_ToLedger opts \<le> 0 \<or> ro_FromLedger opts > ro_ToLedger opts
      then (Inl (InvalidReorgRange (ro_FromLedger opts) (ro_ToLedger opts)), d)
      else let canonical = normalise_canonical opts {} (ro_CanonicalEvents opts);
               canonicalByID = by_id canonical;
               insertedIDs = sort (map ev_ID canonical);
               dedupRefs = deduplicateAddressRefs (ro_CanonicalAddressRefs opts) canonicalByID;
               (res, d') = tx opts canonical canonicalByID dedupRefs insertedIDs d
           in (Inr res, d'))"

section \<open>Lemmas\<close>

interpretation sqlite_events: keyed_table sqlite_key coalesce_xdr
  by unfold_locales (simp add: sqlite_key_def coalesce_xdr_def)

lemma merge_xdr_simps [simp]:
  "ev_ID (merge_xdr ex e) = ev_ID e" "ev_Ledger (merge_xdr ex e) = ev_Ledger e"
  "ev_Network (merge_xdr ex e) = ev_Network e"
  by (simp_all add: merge_xdr_def split: option.splits)

lemma normalise_ids: "e \<in> set (normalise_canonical opts seen evs) \<Longrightarrow> ev_ID e \<notin> seen"
  by (induction opts seen evs rule: normalise_canonical.induct) (auto split: if_splits)

lemma normalise_distinct: "distinct (map ev_ID (normalise_canonical opts seen evs))"
  by (induction opts seen evs rule: normalise_canonical.induct)
    (auto dest!: normalise_ids)

lemma normalise_range:
  "e \<in> set (normalise_canonical opts seen evs) \<Longrightarrow>
     ro_FromLedger opts \<le> ev_Ledger e \<and> ev_Ledger e \<le> ro_ToLedger opts"
  by (induction opts seen evs rule: normalise_canonical.induct) (auto split: if_splits)

lemma normalise_network:
  "e \<in> set (normalise_canonical opts seen evs) \<Longrightarrow>
     (\<And>ev. ev \<in> set evs \<Longrightarrow> ev_Network ev = [] \<or> ev_Network ev = ro_Network opts) \<Longrightarrow>
     ev_Network e = ro_Network opts"
  by (induction opts seen evs rule: normalise_canonical.induct) (auto split: if_splits)

subsection \<open>What each step touches\<close>

lemma tx_retract_refs_simps [simp]:
  "t_events (snd (tx_retract_refs own ids st)) = t_events (snd st)"
  "t_dead (snd (tx_retract_refs own ids st)) = t_dead (snd st)"
  "t_cursors (snd (tx_retract_refs own ids st)) = t_cursors (snd st)"
  "t_ingestion (snd (tx_retract_refs own ids st)) = t_ingestion (snd st)"
  "t_audit (snd (tx_retract_refs own ids st)) = t_audit (snd st)"
  "t_watched (snd (tx_retract_refs own ids st)) = t_watched (snd st)"
  "t_addresses (snd (tx_retract_refs own ids st)) =
     filter (\<lambda>r. \<not> stale_ref own ids (snd st) r) (t_addresses (snd st))"
  by (cases st; simp add: tx_retract_refs_def stale_ref_def)+

lemma tx_replace_events_simps [simp]:
  "t_dead (snd (tx_replace_events ins own opts c st)) = t_dead (snd st)"
  "t_cursors (snd (tx_replace_events ins own opts c st)) = t_cursors (snd st)"
  "t_ingestion (snd (tx_replace_events ins own opts c st)) = t_ingestion (snd st)"
  "t_audit (snd (tx_replace_events ins own opts c st)) = t_audit (snd st)"
  "t_watched (snd (tx_replace_events ins own opts c st)) = t_watched (snd st)"
  "t_addresses (snd (tx_replace_events ins own opts c st)) = t_addresses (snd st)"
  "t_events (snd (tx_replace_events ins own opts c st)) =
     (let rows = filter (\<lambda>e. \<not> own_range own opts e) (t_events (snd st))
      in if c = [] then rows else ins c rows)"
  by (cases st; simp add: tx_replace_events_def Let_def)+

lemma tx_retract_dead_simps [simp]:
  "t_events (snd (tx_retract_dead own opts st)) = t_events (snd st)"
  "t_cursors (snd (tx_retract_dead own opts st)) = t_cursors (snd st)"
  "t_ingestion (snd (tx_retract_dead own opts st)) = t_ingestion (snd st)"
  "t_audit (snd (tx_retract_dead own opts st)) = t_audit (snd st)"
  "t_watched (snd (tx_retract_dead own opts st)) = t_watched (snd st)"
  "t_addresses (snd (tx_retract_dead own opts st)) = t_addresses (snd st)"
  "t_dead (snd (tx_retract_dead own opts st)) =
     filter (\<lambda>l. \<not> stale_dead own opts (t_watched (snd st)) l) (t_dead (snd st))"
  by (cases st; simp add: tx_retract_dead_def)+

lemma tx_index_refs_simps [simp]:
  "t_events (snd (tx_index_refs refs st)) = t_events (snd st)"
  "t_dead (snd (tx_index_refs refs st)) = t_dead (snd st)"
  "t_cursors (snd (tx_index_refs refs st)) = t_cursors (snd st)"
  "t_ingestion (snd (tx_index_refs refs st)) = t_ingestion (snd st)"
  "t_audit (snd (tx_index_refs refs st)) = t_audit (snd st)"
  "t_watched (snd (tx_index_refs refs st)) = t_watched (snd st)"
  "t_addresses (snd (tx_index_refs refs st)) = fold (put address_key do_nothing) refs (t_addresses (snd st))"
  by (cases st; simp add: tx_index_refs_def UpsertAddressRefs_def)+

lemma tx_rewind_cursors_simps [simp]:
  "t_events (snd (tx_rewind_cursors own opts st)) = t_events (snd st)"
  "t_dead (snd (tx_rewind_cursors own opts st)) = t_dead (snd st)"
  "t_ingestion (snd (tx_rewind_cursors own opts st)) = t_ingestion (snd st)"
  "t_audit (snd (tx_rewind_cursors own opts st)) = t_audit (snd st)"
  "t_watched (snd (tx_rewind_cursors own opts st)) = t_watched (snd st)"
  "t_addresses (snd (tx_rewind_cursors own opts st)) = t_addresses (snd st)"
  "t_cursors (snd (tx_rewind_cursors own opts st)) =
     map (\<lambda>c. if rewinds own opts (t_watched (snd st)) c
              then c\<lparr>cc_LastIngestedLedger := target_ledger opts (cc_LastIngestedLedger c), cc_LastCursor := []\<rparr>
              else c) (t_cursors (snd st))"
  by (cases st; simp add: tx_rewind_cursors_def)+

lemma tx_rewind_ingestion_simps [simp]:
  "t_events (snd (tx_rewind_ingestion n opts st)) = t_events (snd st)"
  "t_dead (snd (tx_rewind_ingestion n opts st)) = t_dead (snd st)"
  "t_cursors (snd (tx_rewind_ingestion n opts st)) = t_cursors (snd st)"
  "t_audit (snd (tx_rewind_ingestion n opts st)) = t_audit (snd st)"
  "t_watched (snd (tx_rewind_ingestion n opts st)) = t_watched (snd st)"
  "t_addresses (snd (tx_rewind_ingestion n opts st)) = t_addresses (snd st)"
  by (cases st; simp add: tx_rewind_ingestion_def split: option.splits)+

lemma tx_clamp_audit_simps [simp]:
  "t_events (snd (tx_clamp_audit n opts st)) = t_events (snd st)"
  "t_dead (snd (tx_clamp_audit n opts st)) = t_dead (snd st)"
  "t_cursors (snd (tx_clamp_audit n opts st)) = t_cursors (snd st)"
  "t_ingestion (snd (tx_clamp_audit n opts st)) = t_ingestion (snd st)"
  "t_watched (snd (tx_clamp_audit n opts st)) = t_watched (snd st)"
  "t_addresses (snd (tx_clamp_audit n opts st)) = t_addresses (snd st)"
  by (cases st; simp add: tx_clamp_audit_def Let_def split: option.splits)+

lemma rewind_ingestion_network: "rewind_ingestion opts s = Some s' \<Longrightarrow> is_Network s' = is_Network s"
  by (auto simp: rewind_ingestion_def Let_def split: if_splits)

lemma tx_rewind_ingestion_row:
  "row_at is_Network k (t_ingestion (snd (tx_rewind_ingestion n opts st))) =
     (if k = n
      then map_option (\<lambda>s. case rewind_ingestion opts s of None \<Rightarrow> s | Some s' \<Rightarrow> s')
             (row_at is_Network n (t_ingestion (snd st)))
      else row_at is_Network k (t_ingestion (snd st)))"
proof (cases st)
  case (Pair res d)
  show ?thesis
  proof (cases "row_at is_Network n (t_ingestion d)")
    case None
    thus ?thesis using Pair by (simp add: tx_rewind_ingestion_def del: row_at_None)
  next
    case (Some s)
    hence "is_Network s = n" using row_at_Some by fastforce
    thus ?thesis
      using Pair Some
      by (auto simp: tx_rewind_ingestion_def ingestion.put_row_at rewind_ingestion_network
          split: option.splits simp del: row_at_None)
  qed
qed

lemma tx_clamp_audit_row:
  "row_at as_Network k (t_audit (snd (tx_clamp_audit n opts st))) =
     (if k = n
      then map_option (\<lambda>a. if as_VerifiedThroughLedger a \<ge> ro_FromLedger opts
                           then a\<lparr>as_VerifiedThroughLedger := max (ro_FromLedger opts - 1) 0\<rparr> else a)
             (row_at as_Network n (t_audit (snd st)))
      else row_at as_Network k (t_audit (snd st)))"
proof (cases st)
  case (Pair res d)
  show ?thesis
  proof (cases "row_at as_Network n (t_audit d)")
    case None
    thus ?thesis using Pair by (simp add: tx_clamp_audit_def del: row_at_None)
  next
    case (Some a)
    hence "as_Network a = n" using row_at_Some by fastforce
    thus ?thesis
      using Pair Some by (auto simp: tx_clamp_audit_def Let_def audit.put_row_at simp del: row_at_None)
  qed
qed

text \<open>The tables after the transaction.\<close>

lemma reconcile_tx_events:
  "t_events (snd (reconcile_tx ins ownn opts canonical m refs ids d)) =
     (let own = ownn (defaultNetwork (ro_Network opts));
          rows = filter (\<lambda>e. \<not> own_range own opts e) (t_events d)
      in if canonical = [] then rows else ins (map (merge_xdr (tx_snapshot own opts d)) canonical) rows)"
  by (simp add: reconcile_tx_def reconcileSnapshotWithCanonical_def Let_def)

lemma reconcile_tx_cursors:
  "t_cursors (snd (reconcile_tx ins ownn opts canonical m refs ids d)) =
     map (\<lambda>c. if rewinds (ownn (defaultNetwork (ro_Network opts))) opts (t_watched d) c
              then c\<lparr>cc_LastIngestedLedger := target_ledger opts (cc_LastIngestedLedger c), cc_LastCursor := []\<rparr>
              else c) (t_cursors d)"
  by (simp add: reconcile_tx_def reconcileSnapshotWithCanonical_def Let_def)

lemma reconcile_tx_ingestion:
  "row_at is_Network k (t_ingestion (snd (reconcile_tx ins ownn opts canonical m refs ids d))) =
     (if k = defaultNetwork (ro_Network opts)
      then map_option (\<lambda>s. case rewind_ingestion opts s of None \<Rightarrow> s | Some s' \<Rightarrow> s')
             (row_at is_Network k (t_ingestion d))
      else row_at is_Network k (t_ingestion d))"
  by (simp add: reconcile_tx_def reconcileSnapshotWithCanonical_def Let_def tx_rewind_ingestion_row)

lemma reconcile_tx_audit:
  "row_at as_Network k (t_audit (snd (reconcile_tx ins ownn opts canonical m refs ids d))) =
     (if k = defaultNetwork (ro_Network opts)
      then map_option (\<lambda>a. if as_VerifiedThroughLedger a \<ge> ro_FromLedger opts
                           then a\<lparr>as_VerifiedThroughLedger := max (ro_FromLedger opts - 1) 0\<rparr> else a)
             (row_at as_Network k (t_audit d))
      else row_at as_Network k (t_audit d))"
  by (simp add: reconcile_tx_def reconcileSnapshotWithCanonical_def Let_def tx_clamp_audit_row)

lemma reconcile_tx_watched:
  "t_watched (snd (reconcile_tx ins ownn opts canonical m refs ids d)) = t_watched d"
  by (simp add: reconcile_tx_def reconcileSnapshotWithCanonical_def Let_def)

lemma by_id_Some:
  assumes "distinct (map ev_ID es)"
  shows "by_id es i = Some e \<longleftrightarrow> e \<in> set es \<and> ev_ID e = i"
proof -
  have "distinct (map fst (rev (map (\<lambda>e. (ev_ID e, e)) es)))"
    using assms by (simp add: rev_map [symmetric] comp_def)
  hence "by_id es i = Some e \<longleftrightarrow> (i, e) \<in> set (map (\<lambda>e. (ev_ID e, e)) es)"
    unfolding by_id_def by (simp add: map_of_eq_Some_iff)
  thus ?thesis by auto
qed

lemma retracted_set:
  assumes "distinct (map ev_ID ex)" and "distinct (map ev_ID canonical)"
  shows "{i \<in> ev_ID ` set ex. is_retracted ex (by_id canonical) i} =
           ev_ID ` {e \<in> set ex. \<not> (\<exists>c \<in> set canonical. sameCanonicalEventContent e c)}"
proof -
  have "is_retracted ex (by_id canonical) (ev_ID e) \<longleftrightarrow> \<not> (\<exists>c \<in> set canonical. sameCanonicalEventContent e c)"
    if "e \<in> set ex" for e
  proof -
    have ex: "by_id ex (ev_ID e) = Some e" using that assms(1) by (simp add: by_id_Some)
    have same: "c = c'" if "by_id canonical (ev_ID e) = Some c" "c' \<in> set canonical"
      "sameCanonicalEventContent e c'" for c c'
      using that by_id_Some [OF assms(2), of "ev_ID e" c'] by (simp add: sameCanonicalEventContent_def)
    show ?thesis
    proof (cases "by_id canonical (ev_ID e)")
      case None
      hence "\<not> sameCanonicalEventContent e c" if "c \<in> set canonical" for c
        using that by_id_Some [OF assms(2), of "ev_ID e" c] by (auto simp: sameCanonicalEventContent_def)
      thus ?thesis using ex None by (auto simp: is_retracted_def)
    next
      case (Some c)
      hence "c \<in> set canonical" by (simp add: by_id_Some [OF assms(2)])
      thus ?thesis using ex Some same [OF Some] by (auto simp: is_retracted_def)
    qed
  qed
  thus ?thesis by auto
qed

lemma reconcile_tx_retracted:
  "rr_RetractedEventIDs (fst (reconcile_tx ins ownn opts canonical m refs ids d)) =
     fst (snd (reconcileSnapshotWithCanonical
                 (tx_snapshot (ownn (defaultNetwork (ro_Network opts))) opts d) canonical m))"
proof -
  let ?R = "\<lambda>st :: reorg_result \<times> db. rr_RetractedEventIDs (fst st)"
  have "?R (tx_retract_refs own xs st) = ?R st" "?R (tx_replace_events ins own opts c st) = ?R st"
    "?R (tx_retract_dead own opts st) = ?R st" "?R (tx_index_refs refs st) = ?R st"
    "?R (tx_rewind_cursors own opts st) = ?R st" "?R (tx_rewind_ingestion n opts st) = ?R st"
    "?R (tx_clamp_audit n opts st) = ?R st" for own xs c n st
    by (cases st; simp add: tx_retract_refs_def tx_replace_events_def tx_retract_dead_def
          tx_index_refs_def tx_rewind_cursors_def tx_rewind_ingestion_def tx_clamp_audit_def Let_def
          split: option.splits)+
  thus ?thesis by (simp add: reconcile_tx_def Let_def split_def)
qed

section \<open>Properties\<close>

text \<open>
  C4. Reconciling a valid range on Postgres with canonical events of the reconciled network
  leaves every row outside the range untouched and makes the rows inside it exactly the canonical
  events, first occurrence of each ID, with the raw XDR of an unchanged stored event where the
  canonical one has none; the retraction it reports is precisely the set of stored events of the
  range that no canonical event matches in content.
\<close>

theorem reconcile_exact:
  fixes opts :: reorg_options and d :: db
  defines "n \<equiv> defaultNetwork (ro_Network opts)"
  defines "stored \<equiv> filter (in_range n (ro_FromLedger opts) (ro_ToLedger opts)) (t_events d)"
  defines "canonical \<equiv> normalise_canonical opts {} (ro_CanonicalEvents opts)"
  assumes "0 < ro_FromLedger opts" and "ro_FromLedger opts \<le> ro_ToLedger opts"
    and "list_all (\<lambda>e. ev_Network e \<in> {[], ro_Network opts}) (ro_CanonicalEvents opts)"
    and "distinct (map ev_ID stored)"
  shows "\<exists>res d'. ReconcileReorgRange pg_ReconcileReorgTx opts d = (Inr res, d')
    \<and> t_events d' =
        filter (\<lambda>e. \<not> in_range n (ro_FromLedger opts) (ro_ToLedger opts) e) (t_events d)
        @ map (event_row \<circ> merge_xdr (sort_key ev_ID stored)) canonical
    \<and> set (rr_RetractedEventIDs res) =
        ev_ID ` {e \<in> set stored. \<not> (\<exists>c \<in> set canonical. sameCanonicalEventContent e c)}"
proof -
  let ?own = "pg_own n"
  have range: "own_range ?own opts = in_range n (ro_FromLedger opts) (ro_ToLedger opts)"
    by (simp add: fun_eq_iff own_range_def in_range_def pg_own_def)
  have snap: "tx_snapshot ?own opts d = sort_key ev_ID stored"
    by (simp add: tx_snapshot_def range stored_def)
  let ?merged = "map (merge_xdr (sort_key ev_ID stored)) canonical"
  let ?rows = "filter (\<lambda>e. \<not> in_range n (ro_FromLedger opts) (ro_ToLedger opts) e) (t_events d)"
  let ?run = "pg_ReconcileReorgTx opts canonical (by_id canonical)
     (deduplicateAddressRefs (ro_CanonicalAddressRefs opts) (by_id canonical)) (sort (map ev_ID canonical)) d"
  have "in_range n (ro_FromLedger opts) (ro_ToLedger opts) (event_row e)" if "e \<in> set ?merged" for e
  proof -
    obtain c where c: "c \<in> set canonical" and e: "e = merge_xdr (sort_key ev_ID stored) c"
      using \<open>e \<in> set ?merged\<close> by auto
    have "ev_Network c = ro_Network opts"
      using normalise_network [OF c [unfolded canonical_def]] assms(6) by (auto simp: list_all_iff)
    thus ?thesis
      using normalise_range [OF c [unfolded canonical_def]] by (simp add: e in_range_def n_def)
  qed
  hence "fst (insertEventsBatch True ?merged ?rows) = ?rows @ map event_row ?merged"
    using normalise_distinct [of opts "{}"]
    by (intro insert_distinct) (auto simp: comp_def canonical_def)
  hence events: "t_events (snd ?run) = ?rows @ map (event_row \<circ> merge_xdr (sort_key ev_ID stored)) canonical"
    by (simp add: pg_ReconcileReorgTx_def reconcile_tx_events Let_def range snap flip: n_def)
  have "set (rr_RetractedEventIDs (fst ?run)) =
          {i \<in> ev_ID ` set (sort_key ev_ID stored). is_retracted (sort_key ev_ID stored) (by_id canonical) i}"
    by (auto simp: pg_ReconcileReorgTx_def reconcile_tx_retracted reconcileSnapshotWithCanonical_def
        snap Let_def simp flip: n_def)
  also have "\<dots> = ev_ID ` {e \<in> set stored. \<not> (\<exists>c \<in> set canonical. sameCanonicalEventContent e c)}"
    using assms(7) normalise_distinct [of opts "{}"]
    by (subst retracted_set) (auto simp: canonical_def distinct_map)
  finally show ?thesis
    using events assms(4,5)
    by (intro exI [of _ "fst ?run"] exI [of _ "snd ?run"])
      (simp add: ReconcileReorgRange_def Let_def split_def flip: canonical_def)
qed

theorem reconcile_exact_witness:
  fixes a b :: event and opts :: reorg_options and d :: db
  defines "a \<equiv> zero_event\<lparr>ev_ID := ''a'', ev_Ledger := 5, ev_Network := ''default''\<rparr>"
    and "b \<equiv> zero_event\<lparr>ev_ID := ''b'', ev_Ledger := 6\<rparr>"
  defines "opts \<equiv> \<lparr>ro_Network = [], ro_FromLedger = 5, ro_ToLedger = 6, ro_CanonicalEvents = [b],
     ro_CanonicalAddressRefs = [], ro_NewHeadLedger = 0, ro_RewindCursorsToFromLedger = False\<rparr>"
    and "d \<equiv> empty_db\<lparr>t_events := [a]\<rparr>"
  shows "\<exists>res d'. ReconcileReorgRange pg_ReconcileReorgTx opts d = (Inr res, d')
    \<and> map event_key (t_events d') = [(''default'', 6, ''b'')] \<and> set (rr_RetractedEventIDs res) = {''a''}"
proof -
  note defs = opts_def d_def a_def b_def zero_event_def empty_db_def in_range_def
  have "0 < ro_FromLedger opts" "ro_FromLedger opts \<le> ro_ToLedger opts"
    "list_all (\<lambda>e. ev_Network e \<in> {[], ro_Network opts}) (ro_CanonicalEvents opts)"
    "distinct (map ev_ID (filter (in_range (defaultNetwork (ro_Network opts)) (ro_FromLedger opts)
       (ro_ToLedger opts)) (t_events d)))"
    by (simp_all add: defs)
  from reconcile_exact [OF this] show ?thesis
    by (auto simp: defs event_key_def sameCanonicalEventContent_def Collect_conv_if)
qed

text \<open>
  C5. Rolling the chain back to a head \<open>h\<close> (the range starts right above it) leaves no resume
  position ahead of the head: neither the network's ingestion frontier, nor its audit mark, nor the
  cursor of any contract that is not watched on another network only. The positions of other
  networks, and the cursors of contracts watched only there, stay as they were.
\<close>

theorem rollback_positions:
  fixes opts :: reorg_options and d :: db
  defines "n \<equiv> defaultNetwork (ro_Network opts)"
  assumes "0 < ro_NewHeadLedger opts" and "ro_FromLedger opts = ro_NewHeadLedger opts + 1"
    and "ro_FromLedger opts \<le> ro_ToLedger opts"
  shows "\<exists>res d'. ReconcileReorgRange pg_ReconcileReorgTx opts d = (Inr res, d')
    \<and> (\<forall>s. row_at is_Network n (t_ingestion d') = Some s \<longrightarrow> is_LastIngestedLedger s \<le> ro_NewHeadLedger opts)
    \<and> (\<forall>a. row_at as_Network n (t_audit d') = Some a \<longrightarrow> as_VerifiedThroughLedger a \<le> ro_NewHeadLedger opts)
    \<and> (\<forall>c \<in> set (t_cursors d'). foreign_contract (pg_own n) (t_watched d) (cc_ContractID c)
          \<or> cc_LastIngestedLedger c \<le> ro_NewHeadLedger opts)
    \<and> (\<forall>k. k \<noteq> n \<longrightarrow> row_at is_Network k (t_ingestion d') = row_at is_Network k (t_ingestion d)
                     \<and> row_at as_Network k (t_audit d') = row_at as_Network k (t_audit d))
    \<and> filter (\<lambda>c. foreign_contract (pg_own n) (t_watched d) (cc_ContractID c)) (t_cursors d') =
        filter (\<lambda>c. foreign_contract (pg_own n) (t_watched d) (cc_ContractID c)) (t_cursors d)"
proof -
  let ?c = "normalise_canonical opts {} (ro_CanonicalEvents opts)"
  let ?run = "pg_ReconcileReorgTx opts ?c (by_id ?c)
     (deduplicateAddressRefs (ro_CanonicalAddressRefs opts) (by_id ?c)) (sort (map ev_ID ?c)) d"
  have run: "ReconcileReorgRange pg_ReconcileReorgTx opts d = (Inr (fst ?run), snd ?run)"
    using assms(2-) by (simp add: ReconcileReorgRange_def Let_def split_def)
  have target: "target_ledger opts l \<le> ro_NewHeadLedger opts" if "ro_FromLedger opts \<le> l" for l
    using that assms(2-) by (auto simp: target_ledger_def)
  have ingestion: "is_LastIngestedLedger (case rewind_ingestion opts s of None \<Rightarrow> s | Some s' \<Rightarrow> s')
        \<le> ro_NewHeadLedger opts" for s
    using target [of "is_LastIngestedLedger s"] assms(3)
    by (auto simp: rewind_ingestion_def Let_def)
  let ?f = "\<lambda>c. if rewinds (pg_own n) opts (t_watched d) c
              then c\<lparr>cc_LastIngestedLedger := target_ledger opts (cc_LastIngestedLedger c), cc_LastCursor := []\<rparr>
              else c"
  have cursors: "t_cursors (snd ?run) = map ?f (t_cursors d)"
    by (simp add: pg_ReconcileReorgTx_def reconcile_tx_cursors flip: n_def)
  have one: "foreign_contract (pg_own n) (t_watched d) (cc_ContractID (?f c))
          \<or> cc_LastIngestedLedger (?f c) \<le> ro_NewHeadLedger opts" for c
    using target [of "cc_LastIngestedLedger c"] assms(3) by (auto simp: rewinds_def)
  have c1: "\<forall>c \<in> set (t_cursors (snd ?run)). foreign_contract (pg_own n) (t_watched d) (cc_ContractID c)
          \<or> cc_LastIngestedLedger c \<le> ro_NewHeadLedger opts"
    unfolding cursors set_map by (intro ballI, elim imageE, hypsubst) (rule one)
  have c2: "filter (\<lambda>c. foreign_contract (pg_own n) (t_watched d) (cc_ContractID c)) (t_cursors (snd ?run)) =
        filter (\<lambda>c. foreign_contract (pg_own n) (t_watched d) (cc_ContractID c)) (t_cursors d)"
    unfolding cursors filter_map comp_def
    by (rule map_idI [THEN trans, OF _ filter_cong]) (auto simp: rewinds_def)
  have i: "row_at is_Network k (t_ingestion (snd ?run)) =
     (if k = n then map_option (\<lambda>s. case rewind_ingestion opts s of None \<Rightarrow> s | Some s' \<Rightarrow> s')
        (row_at is_Network k (t_ingestion d)) else row_at is_Network k (t_ingestion d))" for k
    by (simp add: pg_ReconcileReorgTx_def reconcile_tx_ingestion flip: n_def)
  have a: "row_at as_Network k (t_audit (snd ?run)) =
     (if k = n then map_option (\<lambda>a. if as_VerifiedThroughLedger a \<ge> ro_FromLedger opts
          then a\<lparr>as_VerifiedThroughLedger := max (ro_FromLedger opts - 1) 0\<rparr> else a)
        (row_at as_Network k (t_audit d)) else row_at as_Network k (t_audit d))" for k
    by (simp add: pg_ReconcileReorgTx_def reconcile_tx_audit flip: n_def)
  have i1: "\<forall>s. row_at is_Network n (t_ingestion (snd ?run)) = Some s
              \<longrightarrow> is_LastIngestedLedger s \<le> ro_NewHeadLedger opts"
    unfolding i using ingestion by auto
  have a1: "\<forall>a. row_at as_Network n (t_audit (snd ?run)) = Some a
              \<longrightarrow> as_VerifiedThroughLedger a \<le> ro_NewHeadLedger opts"
  proof (intro allI impI)
    fix x assume "row_at as_Network n (t_audit (snd ?run)) = Some x"
    then obtain z where "x = (if as_VerifiedThroughLedger z \<ge> ro_FromLedger opts
          then z\<lparr>as_VerifiedThroughLedger := max (ro_FromLedger opts - 1) 0\<rparr> else z)"
      unfolding a by (simp only: refl if_True map_option_eq_Some) blast
    thus "as_VerifiedThroughLedger x \<le> ro_NewHeadLedger opts" using assms(2,3) by simp
  qed
  have other: "\<forall>k. k \<noteq> n \<longrightarrow> row_at is_Network k (t_ingestion (snd ?run)) = row_at is_Network k (t_ingestion d)
                     \<and> row_at as_Network k (t_audit (snd ?run)) = row_at as_Network k (t_audit d)"
    unfolding i a by simp
  show ?thesis
    by (intro exI [of _ "fst ?run"] exI [of _ "snd ?run"] conjI run i1 a1 c1 other c2)
qed

theorem rollback_positions_witness:
  fixes opts :: reorg_options and d :: db
  defines "opts \<equiv> \<lparr>ro_Network = ''testnet'', ro_FromLedger = 8, ro_ToLedger = 9, ro_CanonicalEvents = [],
     ro_CanonicalAddressRefs = [], ro_NewHeadLedger = 7, ro_RewindCursorsToFromLedger = False\<rparr>"
    and "d \<equiv> empty_db\<lparr>t_ingestion := [\<lparr>is_Network = ''testnet'', is_LastIngestedLedger = 9,
        is_LastCursor = ''c'', is_LastSuccessfulPoll = None\<rparr>]\<rparr>"
  shows "\<exists>res d'. ReconcileReorgRange pg_ReconcileReorgTx opts d = (Inr res, d')
    \<and> (\<forall>s. row_at is_Network ''testnet'' (t_ingestion d') = Some s \<longrightarrow> is_LastIngestedLedger s \<le> 7)"
proof -
  have "0 < ro_NewHeadLedger opts" "ro_FromLedger opts = ro_NewHeadLedger opts + 1"
    "ro_FromLedger opts \<le> ro_ToLedger opts"
    by (simp_all add: opts_def)
  from rollback_positions [OF this, of d] obtain res d'
    where "ReconcileReorgRange pg_ReconcileReorgTx opts d = (Inr res, d')"
      and "\<forall>s. row_at is_Network (defaultNetwork (ro_Network opts)) (t_ingestion d') = Some s
             \<longrightarrow> is_LastIngestedLedger s \<le> ro_NewHeadLedger opts"
    by (elim exE conjE)
  moreover have "defaultNetwork (ro_Network opts) = ''testnet''" "ro_NewHeadLedger opts = 7"
    by (simp_all add: opts_def)
  ultimately show ?thesis by (intro exI [of _ res] exI [of _ d']) simp
qed

end
