(* ===== verification/Reorg_Tracker.thy ===== *)
theory Reorg_Tracker
  imports Go_Sha256 Store_Types "HOL-Library.Multiset"
begin

text \<open>
  The confirmation-window tracker of \<^verbatim>\<open>internal/ingester/reorg.go\<close>: a sliding window of ledger
  fingerprints, the tip-regression test, the reorg depth and the fingerprint itself. Ledger
  sequences are 32-bit words, as in the code. The ingester always builds a tracker, so the
  methods' guards for a nil receiver have no counterpart; metrics are left out, and the
  utilization, a quotient of two floats, is the pair of its operands.
\<close>

section \<open>Tracker\<close>

record reorg_tracker =
  rt_window :: u32
  rt_highestLedger :: u32
  rt_hashes :: "u32 \<rightharpoonup> string"

definition NewReorgTracker :: "u32 \<Rightarrow> reorg_tracker" where
  "NewReorgTracker window = \<lparr>rt_window = window, rt_highestLedger = 0, rt_hashes = Map.empty\<rparr>"

definition CheckTipRegression :: "u32 \<Rightarrow> reorg_tracker \<Rightarrow> bool \<times> u32 \<times> u32" where
  "CheckTipRegression latestLedger rt =
     (if latestLedger = 0 then (False, 0, 0)
      else if rt_highestLedger rt > latestLedger then (True, latestLedger + 1, rt_highestLedger rt)
      else (False, 0, 0))"

definition pruneLocked :: "reorg_tracker \<Rightarrow> reorg_tracker" where
  "pruneLocked rt =
     (if rt_window rt = 0 \<or> rt_highestLedger rt \<le> rt_window rt then rt
      else let minKeep = rt_highestLedger rt - rt_window rt
           in rt\<lparr>rt_hashes := (\<lambda>l. if l < minKeep then None else rt_hashes rt l)\<rparr>)"

definition RecordLedgerHash ::
  "u32 \<Rightarrow> string \<Rightarrow> reorg_tracker \<Rightarrow> (bool \<times> string) \<times> reorg_tracker" where
  "RecordLedgerHash ledger hash rt =
     (if ledger = 0 \<or> hash = [] then ((False, []), rt)
      else
        let out = (case rt_hashes rt ledger of
                     Some prev \<Rightarrow> if prev \<noteq> hash then (True, prev) else (False, [])
                   | None \<Rightarrow> (False, []));
            rt = rt\<lparr>rt_hashes := (rt_hashes rt)(ledger \<mapsto> hash)\<rparr>;
            rt = (if ledger > rt_highestLedger rt then rt\<lparr>rt_highestLedger := ledger\<rparr> else rt)
        in (out, pruneLocked rt))"

definition LookupLedgerHash :: "u32 \<Rightarrow> reorg_tracker \<Rightarrow> string option" where
  "LookupLedgerHash ledger rt = rt_hashes rt ledger"

definition ResetAbove :: "u32 \<Rightarrow> reorg_tracker \<Rightarrow> reorg_tracker" where
  "ResetAbove maxLedger rt =
     (let rt = rt\<lparr>rt_hashes := (\<lambda>l. if l > maxLedger then None else rt_hashes rt l)\<rparr>
      in if rt_highestLedger rt > maxLedger then rt\<lparr>rt_highestLedger := maxLedger\<rparr> else rt)"

definition deepen :: "u32 \<Rightarrow> u32 \<Rightarrow> u32 \<Rightarrow> u32 \<Rightarrow> u32" where
  "deepen fromLedger toLedger mark depth =
     (if mark > toLedger + 1 \<and> mark > fromLedger
      then let d = mark - fromLedger in if d > depth then d else depth
      else depth)"

definition EvaluateDepth ::
  "u32 \<Rightarrow> u32 \<Rightarrow> u32 \<Rightarrow> reorg_tracker \<Rightarrow> u32 \<times> (u32 \<times> u32) \<times> bool" where
  "EvaluateDepth fromLedger toLedger frontierLedger rt =
     (let depth = (if toLedger \<ge> fromLedger then toLedger - fromLedger + 1 else 1);
          depth = deepen fromLedger toLedger frontierLedger depth;
          window = rt_window rt;
          depth = deepen fromLedger toLedger (rt_highestLedger rt) depth
      in if window > 0 then (depth, (depth, window), depth > window) else (depth, (0, 1), False))"

section \<open>Ledger fingerprints\<close>

definition fmt_bool :: "bool \<Rightarrow> string" where
  "fmt_bool b = (if b then ''true'' else ''false'')"

text \<open>
  \<^verbatim>\<open>sort.Slice\<close> by ID: the order it leaves between events of the same ID is the order of
  arrival here.
\<close>

definition matching_events :: "u32 \<Rightarrow> event list \<Rightarrow> event list" where
  "matching_events ledger events =
     sort_key ev_ID (filter (\<lambda>ev. of_int (ev_Ledger ev) = ledger) events)"

definition event_line :: "event \<Rightarrow> string" where
  "event_line ev =
     ''id:'' @ ev_ID ev @ ''|c:'' @ ev_ContractID ev @ ''|tx:'' @ ev_TxHash ev
       @ ''|txi:'' @ FormatInt (ev_TxIndex ev) @ ''|opi:'' @ FormatInt (ev_OpIndex ev)
       @ ''|t:'' @ ev_Type ev @ ''|ok:'' @ fmt_bool (ev_InSuccessfulCall ev)
       @ ''|top:'' @ ev_Topics ev @ ''|val:'' @ ev_Value ev @ '';''"

definition fingerprint_input :: "u32 \<Rightarrow> event list \<Rightarrow> string" where
  "fingerprint_input ledger events =
     (let matching = matching_events ledger events
      in ''ledger:'' @ FormatInt (uint ledger) @ '';count:'' @ FormatInt (int (length matching)) @ '';''
         @ concat (map event_line matching))"

definition ComputeLedgerFingerprint :: "u32 \<Rightarrow> event list \<Rightarrow> string" where
  "ComputeLedgerFingerprint ledger events = hex_encode (sha256 (fingerprint_input ledger events))"

section \<open>Lemmas\<close>

lemma hex_encode_length [simp]: "length (hex_encode bs) = 2 * length bs"
  by (induction bs) (simp_all add: hex_encode_def)

lemma fingerprint_not_Nil [simp]: "ComputeLedgerFingerprint l evs \<noteq> []"
proof -
  have "length (ComputeLedgerFingerprint l evs) = 64"
    by (simp add: ComputeLedgerFingerprint_def)
  thus ?thesis by auto
qed

lemma record_window [simp]: "rt_window (snd (RecordLedgerHash l h rt)) = rt_window rt"
  by (simp add: RecordLedgerHash_def pruneLocked_def Let_def)

lemma record_highest [simp]:
  "rt_highestLedger (snd (RecordLedgerHash l h rt)) =
     (if l = 0 \<or> h = [] then rt_highestLedger rt else max (rt_highestLedger rt) l)"
  by (auto simp: RecordLedgerHash_def pruneLocked_def Let_def max_def)

text \<open>A ledger the window no longer reaches, and what pruning keeps.\<close>

definition out_of_window :: "u32 \<Rightarrow> u32 \<Rightarrow> u32 \<Rightarrow> bool" where
  "out_of_window window highest l \<longleftrightarrow> window \<noteq> 0 \<and> uint l + uint window < uint highest"

lemma out_of_window_mono: "out_of_window w hi l \<Longrightarrow> hi \<le> hi' \<Longrightarrow> out_of_window w hi' l"
  unfolding out_of_window_def word_le_def by linarith

lemma minKeep_iff:
  "window < highest \<Longrightarrow> l < highest - window \<longleftrightarrow> uint l + uint window < uint highest"
  for l highest window :: u32
  by uint_arith

lemma prune_hashes [simp]:
  "rt_hashes (pruneLocked rt) l =
     (if out_of_window (rt_window rt) (rt_highestLedger rt) l then None else rt_hashes rt l)"
proof (cases "rt_highestLedger rt \<le> rt_window rt")
  case True
  hence "uint (rt_highestLedger rt) \<le> uint l + uint (rt_window rt)"
    using uint_ge_0 [of l] unfolding word_le_def by linarith
  thus ?thesis using True by (simp add: pruneLocked_def out_of_window_def)
next
  case False
  thus ?thesis by (auto simp: pruneLocked_def out_of_window_def Let_def minKeep_iff not_le)
qed

lemma prune_highest [simp]:
  "rt_highestLedger (pruneLocked rt) = rt_highestLedger rt" "rt_window (pruneLocked rt) = rt_window rt"
  by (simp_all add: pruneLocked_def Let_def)

lemma record_hashes [simp]:
  "rt_hashes (snd (RecordLedgerHash l h rt)) k =
     (if l = 0 \<or> h = [] then rt_hashes rt k
      else if out_of_window (rt_window rt) (max (rt_highestLedger rt) l) k then None
      else ((rt_hashes rt)(l \<mapsto> h)) k)"
  by (auto simp: RecordLedgerHash_def Let_def max_def)

lemma record_mismatch:
  "fst (RecordLedgerHash l h rt) =
     (case rt_hashes rt l of
        Some prev \<Rightarrow> if l \<noteq> 0 \<and> h \<noteq> [] \<and> prev \<noteq> h then (True, prev) else (False, [])
      | None \<Rightarrow> (False, []))"
  by (simp add: RecordLedgerHash_def Let_def split: option.splits)

lemma reset_simps [simp]:
  "rt_window (ResetAbove m rt) = rt_window rt"
  "rt_highestLedger (ResetAbove m rt) = min (rt_highestLedger rt) m"
  "rt_hashes (ResetAbove m rt) k = (if k > m then None else rt_hashes rt k)"
  by (auto simp: ResetAbove_def Let_def min_def)

lemma new_simps [simp]:
  "rt_window (NewReorgTracker w) = w" "rt_highestLedger (NewReorgTracker w) = 0"
  "rt_hashes (NewReorgTracker w) = Map.empty"
  by (simp_all add: NewReorgTracker_def)

section \<open>Histories\<close>

datatype tracker_op = Record u32 string | Reset u32

fun tracker_apply :: "tracker_op \<Rightarrow> reorg_tracker \<Rightarrow> reorg_tracker" where
  "tracker_apply (Record l h) rt = snd (RecordLedgerHash l h rt)"
| "tracker_apply (Reset m) rt = ResetAbove m rt"

definition tracker_run :: "u32 \<Rightarrow> tracker_op list \<Rightarrow> reorg_tracker" where
  "tracker_run w ops = fold tracker_apply ops (NewReorgTracker w)"

text \<open>What an unbounded log of the same history would answer.\<close>

fun log_apply :: "tracker_op \<Rightarrow> (u32 \<rightharpoonup> string) \<Rightarrow> (u32 \<rightharpoonup> string)" where
  "log_apply (Record l h) m = (if l = 0 \<or> h = [] then m else m(l \<mapsto> h))"
| "log_apply (Reset k) m = (\<lambda>l. if l > k then None else m l)"

definition tracker_log :: "tracker_op list \<Rightarrow> (u32 \<rightharpoonup> string)" where
  "tracker_log ops = fold log_apply ops Map.empty"

fun is_reset :: "tracker_op \<Rightarrow> bool" where
  "is_reset (Reset _) = True"
| "is_reset (Record _ _) = False"

lemma tracker_run_simps [simp]:
  "tracker_run w [] = NewReorgTracker w"
  "tracker_run w (ops @ [x]) = tracker_apply x (tracker_run w ops)"
  by (simp_all add: tracker_run_def)

lemma tracker_log_simps [simp]:
  "tracker_log [] = Map.empty"
  "tracker_log (ops @ [x]) = log_apply x (tracker_log ops)"
  by (simp_all add: tracker_log_def)

lemma tracker_run_window [simp]: "rt_window (tracker_run w ops) = w"
proof (induction ops rule: rev_induct)
  case (snoc x xs)
  thus ?case by (cases x) simp_all
qed simp

section \<open>Properties\<close>

lemma tracker_bounds:
  "rt_hashes (tracker_run w ops) l = Some h \<Longrightarrow>
     tracker_log ops l = Some h \<and> l \<le> rt_highestLedger (tracker_run w ops)
     \<and> \<not> out_of_window w (rt_highestLedger (tracker_run w ops)) l"
proof (induction ops arbitrary: l h rule: rev_induct)
  case (snoc x xs)
  show ?case
  proof (cases x)
    case (Record k g)
    thus ?thesis using snoc.IH [of l h] snoc.prems by (auto simp: le_max_iff_disj split: if_splits)
  next
    case (Reset k)
    have "out_of_window w (min (rt_highestLedger (tracker_run w xs)) k) l
           \<Longrightarrow> out_of_window w (rt_highestLedger (tracker_run w xs)) l"
      by (elim out_of_window_mono) (simp add: le_max_iff_disj min_le_iff_disj)
    thus ?thesis using snoc.IH [of l h] snoc.prems Reset by (auto split: if_splits)
  qed
qed simp


lemma retention:
  assumes "\<not> list_ex is_reset ops"
  shows "rt_hashes (tracker_run w ops) l =
           (if out_of_window w (rt_highestLedger (tracker_run w ops)) l then None
            else tracker_log ops l)"
  using assms
proof (induction ops arbitrary: l rule: rev_induct)
  case (snoc x xs)
  then obtain k g where x: "x = Record k g" by (cases x) auto
  show ?case
  proof (cases "k = 0 \<or> g = []")
    case True
    thus ?thesis using snoc x by simp
  next
    case False
    let ?hi = "rt_highestLedger (tracker_run w xs)"
    have "out_of_window w ?hi l \<Longrightarrow> out_of_window w (max ?hi k) l"
      by (elim out_of_window_mono) (simp add: le_max_iff_disj min_le_iff_disj)
    moreover have "out_of_window w ?hi k \<Longrightarrow> out_of_window w (max ?hi k) k"
      by (elim out_of_window_mono) (simp add: le_max_iff_disj min_le_iff_disj)
    ultimately show ?thesis using snoc x False by simp
  qed
qed simp




lemma deepen_uint:
  assumes "0 < fr" "fr \<le> to" "uint to - uint fr + 1 \<le> uint d"
  shows "uint (deepen fr to mark d) = max (uint d) (uint mark - uint fr)"
proof (cases "mark > to + 1 \<and> mark > fr")
  case True
  hence "uint (mark - fr) = uint mark - uint fr"
    by (simp add: uint_minus_simple_alt [symmetric] less_imp_le)
  thus ?thesis using True by (simp add: deepen_def Let_def word_less_def max_def)
next
  case False
  have "uint mark - uint fr \<le> uint d"
  proof (cases "mark > fr")
    case True
    hence "mark \<le> to + 1" using False by (simp add: not_less)
    hence "uint mark \<le> uint (to + 1)" by (simp add: word_le_def)
    also have "\<dots> \<le> uint to + 1" using uint_add_le [of to 1] by simp
    finally show ?thesis using assms(3) by linarith
  next
    case False
    thus ?thesis using uint_ge_0 [of d] unfolding word_less_def by linarith
  qed
  thus ?thesis using False by (auto simp: deepen_def)
qed

text \<open>
  The depth of a reorg of a non-empty range is the largest of the length of the range and
  the distances from its start to the ingestion frontier and to the highest ledger tracked, with
  no wrap-around anywhere in the 32-bit range, and the reorg is over the limit exactly when a
  window is configured and the depth exceeds it.
\<close>

lemma depth_exact:
  assumes "0 < fromLedger" and "fromLedger \<le> toLedger"
  shows "uint (fst (EvaluateDepth fromLedger toLedger frontier rt)) =
           Max {uint toLedger - uint fromLedger + 1, uint frontier - uint fromLedger,
                uint (rt_highestLedger rt) - uint fromLedger}
         \<and> (snd (snd (EvaluateDepth fromLedger toLedger frontier rt))
              \<longleftrightarrow> rt_window rt \<noteq> 0 \<and> fst (EvaluateDepth fromLedger toLedger frontier rt) > rt_window rt)"
proof -
  let ?d = "toLedger - fromLedger + 1"
  have "uint fromLedger \<le> uint toLedger" "0 < uint fromLedger"
    using assms by (simp_all add: word_le_def word_less_def)
  hence d: "uint ?d = uint toLedger - uint fromLedger + 1"
    using assms by uint_arith
  hence e: "uint (deepen fromLedger toLedger frontier ?d) = max (uint ?d) (uint frontier - uint fromLedger)"
    using assms by (simp add: deepen_uint)
  hence "uint (deepen fromLedger toLedger (rt_highestLedger rt) (deepen fromLedger toLedger frontier ?d))
         = max (uint (deepen fromLedger toLedger frontier ?d)) (uint (rt_highestLedger rt) - uint fromLedger)"
    using assms d by (intro deepen_uint) simp_all
  thus ?thesis
    using assms d e by (simp add: EvaluateDepth_def Let_def word_gt_0 max.assoc)
qed


text \<open>The fields a fingerprint covers, the ID first.\<close>

definition fp_fields :: "event \<Rightarrow> string \<times> string \<times> string \<times> int \<times> int \<times> string \<times> bool \<times> string \<times> string" where
  "fp_fields ev = (ev_ID ev, ev_ContractID ev, ev_TxHash ev, ev_TxIndex ev, ev_OpIndex ev,
     ev_Type ev, ev_InSuccessfulCall ev, ev_Topics ev, ev_Value ev)"

lemma map_insort_key: "map f (insort_key (g \<circ> f) x xs) = insort_key g (f x) (map f xs)"
  by (induction xs) simp_all

lemma map_sort_key: "map f (sort_key (g \<circ> f) xs) = sort_key g (map f xs)"
  by (induction xs) (simp_all add: map_insort_key [unfolded comp_def] comp_def)

lemma event_lines_fields:
  "map fp_fields xs = map fp_fields ys \<Longrightarrow> map event_line xs = map event_line ys"
  by (induction xs ys rule: list_induct2') (simp_all add: fp_fields_def event_line_def)

lemma matching_fields:
  "map fp_fields (matching_events l es) =
     sort_key fst (map fp_fields (filter (\<lambda>ev. of_int (ev_Ledger ev) = l) es))"
proof -
  have e: "fst \<circ> fp_fields = ev_ID" by (simp add: fun_eq_iff fp_fields_def)
  show ?thesis
    using map_sort_key [of fp_fields fst "filter (\<lambda>ev. of_int (ev_Ledger ev) = l) es"]
    unfolding e matching_events_def .
qed

text \<open>
  C37. The fingerprint of a ledger depends only on the set of its events and on the fields it
  covers: whatever the order in which the events arrive, whatever else is in the page and
  whatever their network, timestamps and raw XDR are, two pages whose events of the ledger agree
  in the covered fields and have distinct IDs have the same fingerprint.
\<close>

theorem fingerprint_canonical:
  fixes l :: u32
  defines "own \<equiv> \<lambda>es. filter (\<lambda>ev. of_int (ev_Ledger ev) = l) es"
  assumes "mset (map fp_fields (own es)) = mset (map fp_fields (own es'))"
    and "distinct (map ev_ID (own es))"
  shows "ComputeLedgerFingerprint l es = ComputeLedgerFingerprint l es'"
proof -
  have "map ev_ID (own es) = map fst (map fp_fields (own es))" by (simp add: fp_fields_def)
  hence "inj_on fst (set (map fp_fields (own es)))"
    using assms(3) by (simp only: distinct_map)
  hence "sort_key fst (map fp_fields (own es)) = sort_key fst (map fp_fields (own es'))"
    using assms(2) by (intro sort_key_inj_key_eq) simp_all
  hence same: "map fp_fields (matching_events l es) = map fp_fields (matching_events l es')"
    by (simp add: matching_fields own_def)
  hence "length (matching_events l es) = length (matching_events l es')" by (rule map_eq_imp_length_eq)
  thus ?thesis
    using event_lines_fields [OF same]
    by (simp add: ComputeLedgerFingerprint_def fingerprint_input_def Let_def)
qed

theorem fingerprint_canonical_witness:
  "ComputeLedgerFingerprint 7
     [zero_event\<lparr>ev_ID := ''b'', ev_Ledger := 7\<rparr>, zero_event\<lparr>ev_ID := ''a'', ev_Ledger := 7\<rparr>] =
   ComputeLedgerFingerprint 7
     [zero_event\<lparr>ev_ID := ''a'', ev_Ledger := 7, ev_Network := ''n''\<rparr>,
      zero_event\<lparr>ev_ID := ''z'', ev_Ledger := 8\<rparr>, zero_event\<lparr>ev_ID := ''b'', ev_Ledger := 7\<rparr>]"
  by (rule fingerprint_canonical) (simp_all add: zero_event_def fp_fields_def)

end
