(* ===== verification/Reorg_Coord.thy ===== *)
theory Reorg_Coord
  imports Store_Reorg Reorg_Tracker
begin

text \<open>
  Admission and coalescing of reorgs, \<^verbatim>\<open>HandleReorgRange\<close> of
  \<^verbatim>\<open>internal/ingester/reorg.go\<close>: the checks a range passes before it is reconciled, the two
  critical sections of the coordinator (arrival of a call, end of a pass), and the interleavings of
  any number of concurrent calls as a step relation. A call is identified by a number, its channel
  by that number; the outcome of a reconciliation pass is arbitrary. Metrics and logs are left out.
\<close>

section \<open>Admission\<close>

datatype 'e handle_error =
    InvalidRange u32 u32
  | ArchiveBoundaryFailed 'e
  | ErrReorgTouchesArchivedRange u32 u32 u32
  | ErrReorgDepthExceeded u32

text \<open>The static boundary, and the callback with its outcome when there is one.\<close>

definition resolveArchivedBoundary :: "u32 \<Rightarrow> ('e + u32) option \<Rightarrow> 'e handle_error + u32" where
  "resolveArchivedBoundary archivedThroughLedger archiveBoundaryFn =
     (case archiveBoundaryFn of
        None \<Rightarrow> Inr archivedThroughLedger
      | Some (Inl err) \<Rightarrow> Inl (ArchiveBoundaryFailed err)
      | Some (Inr dyn) \<Rightarrow> Inr (if dyn > archivedThroughLedger then dyn else archivedThroughLedger))"

definition reorg_frontier :: "ingestion_state option \<Rightarrow> u32 \<Rightarrow> u32" where
  "reorg_frontier st toLedger =
     (let frontier = (case st of
            None \<Rightarrow> 0
          | Some s \<Rightarrow> if is_LastIngestedLedger s > 0 then of_int (is_LastIngestedLedger s) else 0)
      in if toLedger > frontier then toLedger else frontier)"

definition archive_check ::
  "u32 \<Rightarrow> ('e + u32) option \<Rightarrow> u32 \<Rightarrow> u32 \<Rightarrow> 'e handle_error + unit" where
  "archive_check archived archiveFn fromLedger toLedger =
     (case resolveArchivedBoundary archived archiveFn of
        Inl err \<Rightarrow> Inl err
      | Inr archivedThrough \<Rightarrow>
          if archivedThrough > 0 \<and> fromLedger \<le> archivedThrough
          then Inl (ErrReorgTouchesArchivedRange fromLedger toLedger archivedThrough) else Inr ())"

definition depth_check ::
  "ingestion_state option \<Rightarrow> reorg_tracker \<Rightarrow> u32 \<Rightarrow> u32 \<Rightarrow> 'e handle_error + unit" where
  "depth_check st rt fromLedger toLedger =
     (let (depth, utilization, exceeded) =
            EvaluateDepth fromLedger toLedger (reorg_frontier st toLedger) rt
      in if exceeded then Inl (ErrReorgDepthExceeded depth) else Inr ())"

section \<open>The coordinator\<close>

record reorg_coordinator =
  rc_running :: bool
  rc_pending :: bool
  rc_pendingFrom :: u32
  rc_pendingTo :: u32
  rc_pendingHead :: u32
  rc_waiters :: "nat list"
  rc_lastResult :: reorg_result

definition zero_coordinator :: reorg_coordinator where
  "zero_coordinator = \<lparr>rc_running = False, rc_pending = False, rc_pendingFrom = 0, rc_pendingTo = 0,
     rc_pendingHead = 0, rc_waiters = [], rc_lastResult = zero_result\<rparr>"

text \<open>The first critical section: whether the call leads, or its range joins the pending one.\<close>

definition coord_arrive ::
  "nat \<Rightarrow> u32 \<Rightarrow> u32 \<Rightarrow> u32 \<Rightarrow> reorg_coordinator \<Rightarrow> bool \<times> reorg_coordinator" where
  "coord_arrive call fromLedger toLedger newHeadLedger c =
     (if rc_running c then
        let c = (if \<not> rc_pending c
                 then c\<lparr>rc_pending := True, rc_pendingFrom := fromLedger, rc_pendingTo := toLedger,
                        rc_pendingHead := newHeadLedger\<rparr>
                 else let c = (if fromLedger < rc_pendingFrom c then c\<lparr>rc_pendingFrom := fromLedger\<rparr> else c);
                          c = (if toLedger > rc_pendingTo c then c\<lparr>rc_pendingTo := toLedger\<rparr> else c)
                      in if newHeadLedger > 0 then c\<lparr>rc_pendingHead := newHeadLedger\<rparr> else c)
        in (False, c\<lparr>rc_waiters := rc_waiters c @ [call]\<rparr>)
      else (True, c\<lparr>rc_running := True\<rparr>))"

text \<open>
  The second one, after a pass: the waiters to notify when the call is over, or the next pass.
\<close>

datatype settle = Finish "nat list" | Again u32 u32 u32

definition coord_settle ::
  "bool \<Rightarrow> reorg_result \<Rightarrow> u32 \<Rightarrow> reorg_coordinator \<Rightarrow> settle \<times> reorg_coordinator" where
  "coord_settle execErr combined curHead c =
     (if execErr \<or> \<not> rc_pending c
      then (Finish (rc_waiters c),
            c\<lparr>rc_waiters := [], rc_pending := False, rc_running := False, rc_lastResult := combined\<rparr>)
      else (Again (rc_pendingFrom c) (rc_pendingTo c)
              (if rc_pendingHead c > 0 then rc_pendingHead c else curHead),
            c\<lparr>rc_pending := False\<rparr>))"

definition mergeReorgResults :: "reorg_result \<Rightarrow> reorg_result \<Rightarrow> reorg_result" where
  "mergeReorgResults a b =
     (if rr_FromLedger a = 0 then b
      else b\<lparr>rr_FromLedger := min (rr_FromLedger a) (rr_FromLedger b),
             rr_ToLedger := max (rr_ToLedger a) (rr_ToLedger b),
             rr_RetractedEventIDs := sort (remdups (rr_RetractedEventIDs a @ rr_RetractedEventIDs b)),
             rr_RetractedAddressRefs := rr_RetractedAddressRefs a + rr_RetractedAddressRefs b,
             rr_RetractedDeadLetters := rr_RetractedDeadLetters a + rr_RetractedDeadLetters b,
             rr_RewoundContractCursors := rr_RewoundContractCursors a + rr_RewoundContractCursors b\<rparr>)"

section \<open>Interleavings\<close>

text \<open>
  The calls in flight: the leader with the pass it is on (when it began, its range and head, and
  whether it has returned), the ranges asked for with the moment of the call, the successful
  passes, and the answers. Moments count the steps of the system.
\<close>

record pass =
  p_call :: nat
  p_began :: nat
  p_from :: u32
  p_to :: u32
  p_head :: u32
  p_done :: "bool option"

record reorg_sys =
  sy_coord :: reorg_coordinator
  sy_now :: nat
  sy_cur :: "pass option"
  sy_combined :: reorg_result
  sy_calls :: "nat \<rightharpoonup> nat \<times> u32 \<times> u32"
  sy_log :: "(nat \<times> u32 \<times> u32) list"
  sy_answers :: "(nat \<times> bool) list"

definition initial_sys :: reorg_sys where
  "initial_sys = \<lparr>sy_coord = zero_coordinator, sy_now = 0, sy_cur = None, sy_combined = zero_result,
     sy_calls = Map.empty, sy_log = [], sy_answers = []\<rparr>"

text \<open>\<open>lo\<close> is the archive boundary the calls were admitted against.\<close>

inductive reorg_step :: "u32 \<Rightarrow> reorg_sys \<Rightarrow> reorg_sys \<Rightarrow> bool" for lo :: u32 where
  arrive_lead:
    "\<lbrakk>sy_calls s call = None; lo < f; f \<le> t; coord_arrive call f t h (sy_coord s) = (True, c)\<rbrakk>
     \<Longrightarrow> reorg_step lo s (s\<lparr>sy_coord := c, sy_now := Suc (sy_now s),
           sy_calls := (sy_calls s)(call \<mapsto> (sy_now s, f, t)), sy_combined := zero_result,
           sy_cur := Some \<lparr>p_call = call, p_began = sy_now s, p_from = f, p_to = t, p_head = h, p_done = None\<rparr>\<rparr>)"
| arrive_wait:
    "\<lbrakk>sy_calls s call = None; lo < f; f \<le> t; coord_arrive call f t h (sy_coord s) = (False, c)\<rbrakk>
     \<Longrightarrow> reorg_step lo s (s\<lparr>sy_coord := c, sy_now := Suc (sy_now s),
           sy_calls := (sy_calls s)(call \<mapsto> (sy_now s, f, t))\<rparr>)"
| pass_fail:
    "\<lbrakk>sy_cur s = Some p; p_done p = None\<rbrakk>
     \<Longrightarrow> reorg_step lo s (s\<lparr>sy_now := Suc (sy_now s), sy_cur := Some (p\<lparr>p_done := Some True\<rparr>)\<rparr>)"
| pass_ok:
    "\<lbrakk>sy_cur s = Some p; p_done p = None\<rbrakk>
     \<Longrightarrow> reorg_step lo s (s\<lparr>sy_now := Suc (sy_now s), sy_cur := Some (p\<lparr>p_done := Some False\<rparr>),
           sy_combined := mergeReorgResults (sy_combined s) res,
           sy_log := (p_began p, p_from p, p_to p) # sy_log s\<rparr>)"
| settle_finish:
    "\<lbrakk>sy_cur s = Some p; p_done p = Some err;
      coord_settle err (sy_combined s) (p_head p) (sy_coord s) = (Finish ws, c)\<rbrakk>
     \<Longrightarrow> reorg_step lo s (s\<lparr>sy_coord := c, sy_now := Suc (sy_now s), sy_cur := None,
           sy_answers := map (\<lambda>w. (w, \<not> err)) (p_call p # ws) @ sy_answers s\<rparr>)"
| settle_again:
    "\<lbrakk>sy_cur s = Some p; p_done p = Some err;
      coord_settle err (sy_combined s) (p_head p) (sy_coord s) = (Again f t h, c)\<rbrakk>
     \<Longrightarrow> reorg_step lo s (s\<lparr>sy_coord := c, sy_now := Suc (sy_now s),
           sy_cur := Some \<lparr>p_call = p_call p, p_began = sy_now s, p_from = f, p_to = t, p_head = h, p_done = None\<rparr>\<rparr>)"

section \<open>Invariant\<close>

text \<open>A successful pass that began no earlier than the call and covers its range.\<close>

definition served :: "(nat \<times> u32 \<times> u32) list \<Rightarrow> nat \<times> u32 \<times> u32 \<Rightarrow> bool" where
  "served log r \<longleftrightarrow>
     (\<exists>(b, f, t) \<in> set log. fst r \<le> b \<and> f \<le> fst (snd r) \<and> snd (snd r) \<le> t)"

definition on_pass :: "pass \<Rightarrow> nat \<times> u32 \<times> u32 \<Rightarrow> bool" where
  "on_pass p r \<longleftrightarrow> fst r \<le> p_began p \<and> p_from p \<le> fst (snd r) \<and> snd (snd r) \<le> p_to p"

definition queued :: "reorg_coordinator \<Rightarrow> nat \<times> u32 \<times> u32 \<Rightarrow> bool" where
  "queued c r \<longleftrightarrow> rc_pending c \<and> rc_pendingFrom c \<le> fst (snd r) \<and> snd (snd r) \<le> rc_pendingTo c"

definition in_flight :: "reorg_sys \<Rightarrow> nat \<Rightarrow> bool" where
  "in_flight s w \<longleftrightarrow> w \<in> set (rc_waiters (sy_coord s)) \<or> (\<exists>p. sy_cur s = Some p \<and> p_call p = w)"

definition awaits :: "reorg_sys \<Rightarrow> nat \<times> u32 \<times> u32 \<Rightarrow> bool" where
  "awaits s r \<longleftrightarrow> served (sy_log s) r \<or> queued (sy_coord s) r \<or> (\<exists>p. sy_cur s = Some p \<and> on_pass p r)"

definition idle_inv :: "reorg_sys \<Rightarrow> bool" where
  "idle_inv s \<longleftrightarrow>
     (rc_running (sy_coord s) \<longleftrightarrow> sy_cur s \<noteq> None)
     \<and> (\<not> rc_running (sy_coord s) \<longrightarrow> \<not> rc_pending (sy_coord s) \<and> rc_waiters (sy_coord s) = [])"

definition range_inv :: "u32 \<Rightarrow> reorg_sys \<Rightarrow> bool" where
  "range_inv lo s \<longleftrightarrow>
     (rc_pending (sy_coord s) \<longrightarrow> lo < rc_pendingFrom (sy_coord s))
     \<and> (\<forall>p. sy_cur s = Some p \<longrightarrow> lo < p_from p)
     \<and> (\<forall>(b, f, t) \<in> set (sy_log s). lo < f)"

definition call_inv :: "reorg_sys \<Rightarrow> bool" where
  "call_inv s \<longleftrightarrow>
     (\<forall>w r. sy_calls s w = Some r \<longrightarrow> fst r < sy_now s \<and> (in_flight s w \<or> w \<in> fst ` set (sy_answers s)))
     \<and> (\<forall>w. in_flight s w \<longrightarrow> (\<exists>r. sy_calls s w = Some r \<and> awaits s r))
     \<and> (\<forall>p. sy_cur s = Some p \<and> p_done p = Some False \<longrightarrow> (p_began p, p_from p, p_to p) \<in> set (sy_log s))
     \<and> (\<forall>w. (w, True) \<in> set (sy_answers s) \<longrightarrow> (\<exists>r. sy_calls s w = Some r \<and> served (sy_log s) r))"

lemma arrive_lead_simps:
  "coord_arrive w f t h c = (True, c') \<longleftrightarrow> \<not> rc_running c \<and> c' = c\<lparr>rc_running := True\<rparr>"
  by (auto simp: coord_arrive_def)

lemma arrive_wait_simps:
  assumes "coord_arrive w f t h c = (False, c')"
  shows "rc_running c" "rc_running c'" "rc_pending c'" "rc_waiters c' = rc_waiters c @ [w]"
    "rc_pendingFrom c' = (if rc_pending c then min f (rc_pendingFrom c) else f)"
    "rc_pendingTo c' = (if rc_pending c then max t (rc_pendingTo c) else t)"
  using assms by (auto simp: coord_arrive_def Let_def min_def max_def split: if_splits)

lemma settle_finish_simps:
  "coord_settle err r h c = (Finish ws, c') \<longleftrightarrow>
     (err \<or> \<not> rc_pending c) \<and> ws = rc_waiters c
     \<and> c' = c\<lparr>rc_waiters := [], rc_pending := False, rc_running := False, rc_lastResult := r\<rparr>"
  by (auto simp: coord_settle_def)

lemma settle_again_simps:
  "coord_settle err r h c = (Again f t k, c') \<longleftrightarrow>
     \<not> err \<and> rc_pending c \<and> f = rc_pendingFrom c \<and> t = rc_pendingTo c
     \<and> k = (if rc_pendingHead c > 0 then rc_pendingHead c else h) \<and> c' = c\<lparr>rc_pending := False\<rparr>"
  by (auto simp: coord_settle_def)

lemmas coord_simps = arrive_lead_simps settle_finish_simps settle_again_simps

lemma idle_step [invariant_intros]: "reorg_step lo s s' \<Longrightarrow> idle_inv s \<Longrightarrow> idle_inv s'"
  by (cases rule: reorg_step.cases, assumption)
    (auto simp: idle_inv_def coord_simps dest: arrive_wait_simps(1,2))

lemma range_step [invariant_intros]: "reorg_step lo s s' \<Longrightarrow> range_inv lo s \<Longrightarrow> range_inv lo s'"
  by (cases rule: reorg_step.cases, assumption)
    (auto simp: range_inv_def coord_simps dest: arrive_wait_simps(3,5))

lemma served_Cons: "served log r \<Longrightarrow> served (x # log) r"
  by (auto simp: served_def)

lemma served_pass: "on_pass p r \<Longrightarrow> (p_began p, p_from p, p_to p) \<in> set log \<Longrightarrow> served log r"
  unfolding served_def on_pass_def by (rule bexI [of _ "(p_began p, p_from p, p_to p)"]) simp_all

lemma queued_arrive:
  assumes "coord_arrive w f t h c = (False, c')"
  shows "queued c r \<Longrightarrow> queued c' r" and "queued c' (a, f, t)"
  using arrive_wait_simps [OF assms]
  by (auto simp: queued_def min_le_iff_disj le_max_iff_disj simp del: split_paired_All)

lemma call_invI:
  assumes "\<And>w r. sy_calls s w = Some r \<Longrightarrow> fst r < sy_now s"
    and "\<And>w r. sy_calls s w = Some r \<Longrightarrow> in_flight s w \<or> w \<in> fst ` set (sy_answers s)"
    and "\<And>w. in_flight s w \<Longrightarrow> \<exists>r. sy_calls s w = Some r \<and> awaits s r"
    and "\<And>p. sy_cur s = Some p \<Longrightarrow> p_done p = Some False \<Longrightarrow> (p_began p, p_from p, p_to p) \<in> set (sy_log s)"
    and "\<And>w. (w, True) \<in> set (sy_answers s) \<Longrightarrow> \<exists>r. sy_calls s w = Some r \<and> served (sy_log s) r"
  shows "call_inv s"
  using assms unfolding call_inv_def by blast

lemma call_invD:
  assumes "call_inv s"
  shows "\<And>w r. sy_calls s w = Some r \<Longrightarrow> fst r < sy_now s"
    and "\<And>w r. sy_calls s w = Some r \<Longrightarrow> in_flight s w \<or> w \<in> fst ` set (sy_answers s)"
    and "\<And>w. in_flight s w \<Longrightarrow> \<exists>r. sy_calls s w = Some r \<and> awaits s r"
    and "\<And>p. sy_cur s = Some p \<Longrightarrow> p_done p = Some False \<Longrightarrow> (p_began p, p_from p, p_to p) \<in> set (sy_log s)"
    and "\<And>w. (w, True) \<in> set (sy_answers s) \<Longrightarrow> \<exists>r. sy_calls s w = Some r \<and> served (sy_log s) r"
  using assms unfolding call_inv_def by blast+

text \<open>When a call or a pass ends, who is still in flight and what the others got.\<close>

lemma call_arrive_lead:
  assumes inv: "call_inv s" and "idle_inv s" and new: "sy_calls s w = None"
    and arrive: "coord_arrive w f t h (sy_coord s) = (True, c)"
  shows "call_inv (s\<lparr>sy_coord := c, sy_now := Suc (sy_now s), sy_calls := (sy_calls s)(w \<mapsto> (sy_now s, f, t)),
           sy_combined := zero_result,
           sy_cur := Some \<lparr>p_call = w, p_began = sy_now s, p_from = f, p_to = t, p_head = h, p_done = None\<rparr>\<rparr>)"
proof -
  let ?s = "s\<lparr>sy_coord := c, sy_now := Suc (sy_now s), sy_calls := (sy_calls s)(w \<mapsto> (sy_now s, f, t)),
     sy_combined := zero_result,
     sy_cur := Some \<lparr>p_call = w, p_began = sy_now s, p_from = f, p_to = t, p_head = h, p_done = None\<rparr>\<rparr>"
  have idle: "sy_cur s = None" "rc_waiters (sy_coord s) = []" "c = (sy_coord s)\<lparr>rc_running := True\<rparr>"
    using assms by (simp_all add: idle_inv_def arrive_lead_simps)
  have none: "\<not> in_flight s v" for v using idle by (simp add: in_flight_def)
  have fl: "in_flight ?s v \<longleftrightarrow> v = w" for v using idle by (auto simp: in_flight_def)
  note D = call_invD [OF inv]
  have past: "v \<noteq> w" if "(v, True) \<in> set (sy_answers s)" for v using D(5) [OF that] new by auto
  show ?thesis
  proof (rule call_invI)
    fix v assume "in_flight ?s v"
    thus "\<exists>r. sy_calls ?s v = Some r \<and> awaits ?s r" unfolding fl by (simp add: awaits_def on_pass_def)
  next
    fix v assume "(v, True) \<in> set (sy_answers ?s)"
    thus "\<exists>r. sy_calls ?s v = Some r \<and> served (sy_log ?s) r" using D(5) [of v] past [of v] by auto
  qed (use D(1,2) none in \<open>auto simp: fl less_Suc_eq split: if_splits\<close>)
qed

lemma call_arrive_wait:
  assumes inv: "call_inv s" and new: "sy_calls s w = None"
    and arrive: "coord_arrive w f t h (sy_coord s) = (False, c)"
  shows "call_inv (s\<lparr>sy_coord := c, sy_now := Suc (sy_now s), sy_calls := (sy_calls s)(w \<mapsto> (sy_now s, f, t))\<rparr>)"
proof -
  let ?s = "s\<lparr>sy_coord := c, sy_now := Suc (sy_now s), sy_calls := (sy_calls s)(w \<mapsto> (sy_now s, f, t))\<rparr>"
  have fl: "in_flight ?s v \<longleftrightarrow> in_flight s v \<or> v = w" for v
    using arrive_wait_simps(4) [OF arrive] by (auto simp: in_flight_def)
  have aw: "awaits ?s r" if "awaits s r" for r
    using that queued_arrive(1) [OF arrive, of r] by (auto simp: awaits_def)
  have own: "awaits ?s (a, f, t)" for a
    using queued_arrive(2) [OF arrive] by (simp add: awaits_def)
  note D = call_invD [OF inv]
  have past: "v \<noteq> w" if "(v, True) \<in> set (sy_answers s)" for v using D(5) [OF that] new by auto
  show ?thesis
  proof (rule call_invI)
    fix v assume "in_flight ?s v"
    thus "\<exists>r. sy_calls ?s v = Some r \<and> awaits ?s r"
      using D(3) [of v] aw own new unfolding fl by (cases "v = w") auto
  next
    fix v assume "(v, True) \<in> set (sy_answers ?s)"
    thus "\<exists>r. sy_calls ?s v = Some r \<and> served (sy_log ?s) r" using D(5) [of v] past [of v] by auto
  qed (use D(1,2,4) in \<open>auto simp: fl less_Suc_eq split: if_splits\<close>)
qed

lemma call_pass:
  assumes inv: "call_inv s" and cur: "sy_cur s = Some p" "p_done p = None"
    and log: "log = sy_log s \<or> log = (p_began p, p_from p, p_to p) # sy_log s"
    and ok: "err \<or> log = (p_began p, p_from p, p_to p) # sy_log s"
  shows "call_inv (s\<lparr>sy_now := Suc (sy_now s), sy_cur := Some (p\<lparr>p_done := Some err\<rparr>), sy_combined := r,
           sy_log := log\<rparr>)"
proof -
  let ?s = "s\<lparr>sy_now := Suc (sy_now s), sy_cur := Some (p\<lparr>p_done := Some err\<rparr>), sy_combined := r,
           sy_log := log\<rparr>"
  have fl: "in_flight ?s v \<longleftrightarrow> in_flight s v" for v using cur by (simp add: in_flight_def)
  have sv: "served log q" if "served (sy_log s) q" for q using that log by (auto intro: served_Cons)
  have aw: "awaits ?s q" if "awaits s q" for q
    using that cur sv [of q] by (auto simp: awaits_def on_pass_def)
  note D = call_invD [OF inv]
  show ?thesis
  proof (rule call_invI)
    fix v assume "in_flight ?s v"
    thus "\<exists>q. sy_calls ?s v = Some q \<and> awaits ?s q" using D(3) [of v] aw unfolding fl by auto
  next
    fix v assume "(v, True) \<in> set (sy_answers ?s)"
    thus "\<exists>q. sy_calls ?s v = Some q \<and> served (sy_log ?s) q" using D(5) [of v] sv by auto
  qed (use D(1,2) ok in \<open>auto simp: fl less_Suc_eq\<close>)
qed

lemma call_finish:
  assumes inv: "call_inv s" and cur: "sy_cur s = Some p" "p_done p = Some err"
    and settle: "coord_settle err (sy_combined s) (p_head p) (sy_coord s) = (Finish ws, c)"
  shows "call_inv (s\<lparr>sy_coord := c, sy_now := Suc (sy_now s), sy_cur := None,
           sy_answers := map (\<lambda>w. (w, \<not> err)) (p_call p # ws) @ sy_answers s\<rparr>)"
proof -
  let ?s = "s\<lparr>sy_coord := c, sy_now := Suc (sy_now s), sy_cur := None,
           sy_answers := map (\<lambda>w. (w, \<not> err)) (p_call p # ws) @ sy_answers s\<rparr>"
  have c: "err \<or> \<not> rc_pending (sy_coord s)" "ws = rc_waiters (sy_coord s)" "rc_waiters c = []"
    using settle by (simp_all add: settle_finish_simps)
  have fl: "\<not> in_flight ?s v" for v using c by (simp add: in_flight_def)
  have was: "in_flight s v \<longleftrightarrow> v \<in> set (p_call p # ws)" for v
    using cur c(2) by (auto simp: in_flight_def)
  note D = call_invD [OF inv]
  have got: "served (sy_log s) r" if "awaits s r" "\<not> err" for r
  proof -
    have "(p_began p, p_from p, p_to p) \<in> set (sy_log s)" using D(4) cur that by simp
    thus ?thesis using that c(1) cur by (auto simp: awaits_def queued_def intro: served_pass)
  qed
  show ?thesis
  proof (rule call_invI)
    fix v assume "(v, True) \<in> set (sy_answers ?s)"
    hence "(in_flight s v \<and> \<not> err) \<or> (v, True) \<in> set (sy_answers s)" unfolding was by auto
    thus "\<exists>q. sy_calls ?s v = Some q \<and> served (sy_log ?s) q" using D(3) [of v] D(5) [of v] got by auto
  next
    fix v r assume "sy_calls ?s v = Some r"
    hence "in_flight s v \<or> v \<in> fst ` set (sy_answers s)" using D(2) by simp
    thus "in_flight ?s v \<or> v \<in> fst ` set (sy_answers ?s)" unfolding was
      by (auto simp: image_Un image_image)
  qed (use D(1) fl in \<open>auto simp: less_Suc_eq\<close>)
qed

lemma call_again:
  assumes inv: "call_inv s" and cur: "sy_cur s = Some p" "p_done p = Some err"
    and settle: "coord_settle err (sy_combined s) (p_head p) (sy_coord s) = (Again f t h, c)"
  shows "call_inv (s\<lparr>sy_coord := c, sy_now := Suc (sy_now s),
     sy_cur := Some \<lparr>p_call = p_call p, p_began = sy_now s, p_from = f, p_to = t, p_head = h, p_done = None\<rparr>\<rparr>)"
proof -
  let ?s = "s\<lparr>sy_coord := c, sy_now := Suc (sy_now s),
     sy_cur := Some \<lparr>p_call = p_call p, p_began = sy_now s, p_from = f, p_to = t, p_head = h, p_done = None\<rparr>\<rparr>"
  have c: "\<not> err" "f = rc_pendingFrom (sy_coord s)" "t = rc_pendingTo (sy_coord s)"
    "rc_waiters c = rc_waiters (sy_coord s)"
    using settle by (simp_all add: settle_again_simps)
  have fl: "in_flight ?s v \<longleftrightarrow> in_flight s v" for v using cur c(4) by (simp add: in_flight_def)
  note D = call_invD [OF inv]
  have log: "(p_began p, p_from p, p_to p) \<in> set (sy_log s)" using D(4) cur c(1) by simp
  have aw: "awaits ?s r" if "awaits s r" "fst r < sy_now s" for r
    using that c(2,3) cur served_pass [OF _ log, of r] by (auto simp: awaits_def queued_def on_pass_def)
  show ?thesis
  proof (rule call_invI)
    fix v assume "in_flight ?s v"
    then obtain r where r: "sy_calls s v = Some r" "awaits s r" using D(3) [of v] unfolding fl by auto
    thus "\<exists>q. sy_calls ?s v = Some q \<and> awaits ?s q" using aw [OF r(2) D(1) [OF r(1)]] by simp
  qed (use D in \<open>auto simp: fl less_Suc_eq\<close>)
qed

lemma call_step [invariant_intros]:
  assumes "reorg_step lo s s'" and "call_inv s" and "idle_inv s"
  shows "call_inv s'"
  using assms
proof (cases rule: reorg_step.cases)
  case (arrive_lead call f t h c)
  thus ?thesis using assms(2,3) by (simp add: call_arrive_lead)
next
  case (arrive_wait call f t h c)
  thus ?thesis using assms(2) by (simp add: call_arrive_wait)
next
  case (pass_fail p)
  have "s = s\<lparr>sy_combined := sy_combined s, sy_log := sy_log s\<rparr>" by simp
  thus ?thesis using pass_fail call_pass [OF assms(2), of p "sy_log s" True "sy_combined s"] by simp
next
  case (pass_ok p res)
  thus ?thesis using assms(2) by (simp add: call_pass)
next
  case (settle_finish p err ws c)
  thus ?thesis using call_finish [OF assms(2)] by simp
next
  case (settle_again p err f t h c)
  thus ?thesis using call_again [OF assms(2)] by simp
qed

section \<open>Properties\<close>

lemma reorg_reachable_inv:
  assumes "rtranclp (reorg_step lo) initial_sys s"
  shows "idle_inv s \<and> range_inv lo s \<and> call_inv s"
  using assms
proof (induction rule: rtranclp_induct)
  case base
  thus ?case
    by (simp add: initial_sys_def zero_coordinator_def idle_inv_def range_inv_def call_inv_def in_flight_def)
next
  case (step s s')
  thus ?case using idle_step range_step call_step by blast
qed

text \<open>
  C9. Under every interleaving of concurrent calls and every outcome of the passes: a call
  answered with success has been reconciled by a successful pass that began after the call was
  made and covers its whole range, and no pass ever starts at or below the archive boundary
  the calls were admitted against.
\<close>

theorem reorg_calls_served:
  assumes "rtranclp (reorg_step lo) initial_sys s"
  shows "((w, True) \<in> set (sy_answers s) \<longrightarrow>
            (\<exists>at f t b f' t'. sy_calls s w = Some (at, f, t) \<and> (b, f', t') \<in> set (sy_log s)
               \<and> at \<le> b \<and> f' \<le> f \<and> t \<le> t'))
         \<and> ((b, f', t') \<in> set (sy_log s) \<longrightarrow> lo < f')"
proof -
  have inv: "range_inv lo s" "call_inv s" using reorg_reachable_inv [OF assms] by simp_all
  have "\<exists>r. sy_calls s w = Some r \<and> served (sy_log s) r" if "(w, True) \<in> set (sy_answers s)"
    using call_invD(5) [OF inv(2) that] .
  thus ?thesis using inv(1) by (fastforce simp: served_def range_inv_def)
qed

text \<open>
  C10. No call is forgotten: whenever no reconciliation is running, every call ever made has been
  answered; and while one is running it is the only one.
\<close>

theorem reorg_calls_answered:
  assumes "rtranclp (reorg_step lo) initial_sys s"
  shows "(\<not> rc_running (sy_coord s) \<longrightarrow> dom (sy_calls s) \<subseteq> fst ` set (sy_answers s))
         \<and> (rc_running (sy_coord s) \<longleftrightarrow> sy_cur s \<noteq> None)"
proof -
  have inv: "idle_inv s" "call_inv s" using reorg_reachable_inv [OF assms] by simp_all
  have "v \<in> fst ` set (sy_answers s)" if "\<not> rc_running (sy_coord s)" "v \<in> dom (sy_calls s)" for v
    using that inv(1) call_invD(2) [OF inv(2), of v] by (auto simp: idle_inv_def in_flight_def)
  thus ?thesis using inv(1) by (auto simp: idle_inv_def)
qed

text \<open>
  A run with two calls: the second, for ledgers 11 to 20, arrives while the pass of the first one,
  for 10 to 12, is running, and a second pass serves it.
\<close>

definition two_calls :: reorg_sys where
  "two_calls = \<lparr>sy_coord = \<lparr>rc_running = False, rc_pending = False, rc_pendingFrom = 11, rc_pendingTo = 20,
       rc_pendingHead = 0, rc_waiters = [], rc_lastResult = zero_result\<rparr>,
     sy_now = Suc (Suc (Suc (Suc (Suc (Suc 0))))), sy_cur = None, sy_combined = zero_result, sy_calls = [7 \<mapsto> (0, 10, 12), 8 \<mapsto> (Suc 0, 11, 20)],
     sy_log = [(Suc (Suc (Suc 0)), 11, 20), (0, 10, 12)], sy_answers = [(7, True), (8, True)]\<rparr>"

lemma two_calls_run: "rtranclp (reorg_step 5) initial_sys two_calls"
proof -
  let ?c1 = "zero_coordinator\<lparr>rc_running := True\<rparr>"
  let ?c2 = "?c1\<lparr>rc_pending := True, rc_pendingFrom := 11, rc_pendingTo := 20, rc_pendingHead := 0, rc_waiters := [8]\<rparr>"
  define s1 where "s1 = initial_sys\<lparr>sy_coord := ?c1, sy_now := Suc 0, sy_calls := [7 \<mapsto> (0, 10, 12)],
    sy_cur := Some \<lparr>p_call = 7, p_began = 0, p_from = 10, p_to = 12, p_head = 0, p_done = None\<rparr>\<rparr>"
  define s2 where "s2 = s1\<lparr>sy_coord := ?c2, sy_now := Suc (Suc 0), sy_calls := [7 \<mapsto> (0, 10, 12), 8 \<mapsto> (Suc 0, 11, 20)]\<rparr>"
  define s3 where "s3 = s2\<lparr>sy_now := Suc (Suc (Suc 0)), sy_log := [(0, 10, 12)],
    sy_cur := Some \<lparr>p_call = 7, p_began = 0, p_from = 10, p_to = 12, p_head = 0, p_done = Some False\<rparr>\<rparr>"
  define s4 where "s4 = s3\<lparr>sy_coord := ?c2\<lparr>rc_pending := False\<rparr>, sy_now := Suc (Suc (Suc (Suc 0))),
    sy_cur := Some \<lparr>p_call = 7, p_began = Suc (Suc (Suc 0)), p_from = 11, p_to = 20, p_head = 0, p_done = None\<rparr>\<rparr>"
  define s5 where "s5 = s4\<lparr>sy_now := Suc (Suc (Suc (Suc (Suc 0)))), sy_log := [(Suc (Suc (Suc 0)), 11, 20), (0, 10, 12)],
    sy_cur := Some \<lparr>p_call = 7, p_began = Suc (Suc (Suc 0)), p_from = 11, p_to = 20, p_head = 0, p_done = Some False\<rparr>\<rparr>"
  note defs = s1_def s2_def s3_def s4_def s5_def initial_sys_def zero_coordinator_def
    zero_result_def mergeReorgResults_def two_calls_def
  have "reorg_step 5 initial_sys s1"
    using reorg_step.arrive_lead [of initial_sys 7 5 10 12 0 ?c1]
    by (simp add: defs coord_arrive_def)
  moreover have "reorg_step 5 s1 s2"
    using reorg_step.arrive_wait [of s1 8 5 11 20 0 ?c2] by (simp add: defs coord_arrive_def)
  moreover have "reorg_step 5 s2 s3"
    using reorg_step.pass_ok [of s2 "the (sy_cur s2)" 5 zero_result] by (simp add: defs)
  moreover have "reorg_step 5 s3 s4"
    using reorg_step.settle_again [of s3 "the (sy_cur s3)" False 11 20 0 "?c2\<lparr>rc_pending := False\<rparr>" 5]
    by (simp add: defs coord_settle_def)
  moreover have "reorg_step 5 s4 s5"
    using reorg_step.pass_ok [of s4 "the (sy_cur s4)" 5 zero_result] by (simp add: defs)
  moreover have "reorg_step 5 s5 two_calls"
    using reorg_step.settle_finish [of s5 "the (sy_cur s5)" False "[8]" "sy_coord two_calls" 5]
    by (simp add: defs coord_settle_def)
  ultimately show ?thesis by (meson rtranclp.rtrancl_refl rtranclp.rtrancl_into_rtrancl)
qed

theorem reorg_calls_served_witness:
  "(\<exists>at f t b f' t'. sy_calls two_calls 8 = Some (at, f, t) \<and> (b, f', t') \<in> set (sy_log two_calls)
       \<and> at \<le> b \<and> f' \<le> f \<and> t \<le> t') \<and> (5 :: u32) < 11"
  using reorg_calls_served [OF two_calls_run, of 8 "Suc (Suc (Suc 0))" 11 20] by (simp add: two_calls_def)

theorem reorg_calls_answered_witness:
  "dom (sy_calls two_calls) \<subseteq> fst ` set (sy_answers two_calls) \<and> sy_cur two_calls = None"
  using reorg_calls_answered [OF two_calls_run] by (simp add: two_calls_def)

end
