(* ===== verification/Lag_Coordinator.thy ===== *)
theory Lag_Coordinator
  imports Go_Prelude
begin

text \<open>
  Lag backpressure, \<^verbatim>\<open>internal/ingester/backpressure.go\<close>: the hysteresis that turns ledger lag
  into a lagging signal, the widening of the sweep window while lagging, and the bounded deferral
  of background jobs. The clock is a time argument. A zero \<^verbatim>\<open>time.Time\<close> is \<^const>\<open>None\<close>. The
  calls of \<^verbatim>\<open>Downstream.SetLagging\<close> are collected in a field; log lines are not modelled. The
  closing rate is kept as the pair of ledgers and nanoseconds whose quotient Go computes. The
  methods' guard for a nil receiver is the absence of a coordinator.
\<close>

section \<open>Options and state\<close>

record lag_options =
  lo_Enabled :: bool
  lo_EnterLagLedgers :: u32
  lo_RecoverLagLedgers :: u32
  lo_MaxDeferral :: duration
  lo_CatchUpSweepMultiplier :: int
  lo_Downstream :: bool

abbreviation DefaultMaxLagDeferral :: duration where "DefaultMaxLagDeferral \<equiv> 15 * minute"
abbreviation DefaultCatchUpSweepMultiplier :: int where "DefaultCatchUpSweepMultiplier \<equiv> 2"
abbreviation MaxCatchUpSweepMultiplier :: int where "MaxCatchUpSweepMultiplier \<equiv> 4"

definition lo_applyDefaults :: "lag_options \<Rightarrow> lag_options" where
  "lo_applyDefaults opts =
     (let opts = (if lo_EnterLagLedgers opts > 0 \<and> lo_RecoverLagLedgers opts = 0
               then opts\<lparr>lo_RecoverLagLedgers := (lo_EnterLagLedgers opts * 3) div 4\<rparr> else opts);
          opts = (if lo_RecoverLagLedgers opts > lo_EnterLagLedgers opts
               then opts\<lparr>lo_RecoverLagLedgers := lo_EnterLagLedgers opts\<rparr> else opts);
          opts = (if lo_MaxDeferral opts \<le> 0 then opts\<lparr>lo_MaxDeferral := DefaultMaxLagDeferral\<rparr> else opts);
          opts = (if lo_CatchUpSweepMultiplier opts \<le> 0
               then opts\<lparr>lo_CatchUpSweepMultiplier :=
                      if lo_Enabled opts then DefaultCatchUpSweepMultiplier else 1\<rparr> else opts)
      in if lo_CatchUpSweepMultiplier opts > MaxCatchUpSweepMultiplier
         then opts\<lparr>lo_CatchUpSweepMultiplier := MaxCatchUpSweepMultiplier\<rparr> else opts)"

record lag_coordinator =
  lc_opts :: lag_options
  lc_lagging :: bool
  laggingSince :: "instant option"
  currentLag :: int
  prevLag :: int
  prevSampleAt :: "instant option"
  closingRate :: "int \<times> int"
  deferredSince :: "string \<rightharpoonup> instant"
  yieldsByJob :: "string \<Rightarrow> nat"
  overrideByJob :: "string \<Rightarrow> nat"
  transitionsToLagging :: nat
  transitionsToRecovered :: nat
  totalYields :: nat
  maxDeferralOverrides :: nat
  downstreamCalls :: "bool list"

definition NewLagCoordinator :: "lag_options \<Rightarrow> lag_coordinator" where
  "NewLagCoordinator opts =
     \<lparr>lc_opts = lo_applyDefaults opts, lc_lagging = False, laggingSince = None, currentLag = 0,
      prevLag = 0, prevSampleAt = None, closingRate = (0, 1), deferredSince = Map.empty,
      yieldsByJob = (\<lambda>_. 0), overrideByJob = (\<lambda>_. 0), transitionsToLagging = 0,
      transitionsToRecovered = 0, totalYields = 0, maxDeferralOverrides = 0, downstreamCalls = []\<rparr>"

section \<open>Operations\<close>

definition SetEnabled :: "bool \<Rightarrow> lag_coordinator \<Rightarrow> lag_coordinator" where
  "SetEnabled enabled c =
     (let c = c\<lparr>lc_opts := (lc_opts c)\<lparr>lo_Enabled := enabled\<rparr>\<rparr>
      in if \<not> enabled then c\<lparr>deferredSince := Map.empty\<rparr> else c)"

definition applyStateLocked :: "bool \<Rightarrow> instant \<Rightarrow> lag_coordinator \<Rightarrow> lag_coordinator" where
  "applyStateLocked lagging now c =
     (if lagging \<and> \<not> lc_lagging c
      then c\<lparr>lc_lagging := True, laggingSince := Some now,
             transitionsToLagging := transitionsToLagging c + 1\<rparr>
      else if \<not> lagging \<and> lc_lagging c
      then c\<lparr>lc_lagging := False, laggingSince := None, closingRate := (0, 1),
             deferredSince := Map.empty, transitionsToRecovered := transitionsToRecovered c + 1\<rparr>
      else c)"

definition forwardLagging :: "bool \<Rightarrow> lag_coordinator \<Rightarrow> lag_coordinator" where
  "forwardLagging lagging c =
     (if lo_Downstream (lc_opts c) then c\<lparr>downstreamCalls := downstreamCalls c @ [lagging]\<rparr> else c)"

definition SetLagging :: "bool \<Rightarrow> instant \<Rightarrow> lag_coordinator \<Rightarrow> lag_coordinator" where
  "SetLagging lagging now c = forwardLagging lagging (applyStateLocked lagging now c)"

text \<open>The hysteresis decision of \<^verbatim>\<open>ObserveLag\<close>.\<close>

definition lagDecision :: "int \<Rightarrow> lag_coordinator \<Rightarrow> bool" where
  "lagDecision rawLag c =
     (if lo_EnterLagLedgers (lc_opts c) > 0
      then if \<not> lc_lagging c \<and> rawLag > uint (lo_EnterLagLedgers (lc_opts c)) then True
           else if lc_lagging c \<and> rawLag \<le> uint (lo_RecoverLagLedgers (lc_opts c)) then False
           else lc_lagging c
      else lc_lagging c)"

text \<open>Its measurement of the catch-up rate.\<close>

definition sampleLag :: "int \<Rightarrow> instant \<Rightarrow> lag_coordinator \<Rightarrow> lag_coordinator" where
  "sampleLag rawLag now c =
     (let c = (case prevSampleAt c of
                 None \<Rightarrow> c
               | Some p \<Rightarrow> if now - p > 0 then c\<lparr>closingRate := (prevLag c - rawLag, now - p)\<rparr> else c)
      in c\<lparr>prevLag := rawLag, prevSampleAt := Some now, currentLag := rawLag\<rparr>)"

definition ObserveLag :: "int \<Rightarrow> int \<Rightarrow> instant \<Rightarrow> lag_coordinator \<Rightarrow> bool \<times> lag_coordinator" where
  "ObserveLag latestLedger lastIngestedLedger now c =
     (if lastIngestedLedger \<le> 0 then
        (let c = c\<lparr>currentLag := 0, prevSampleAt := None, closingRate := (0, 1)\<rparr>;
             c = applyStateLocked False now c
         in (False, forwardLagging False c))
      else
        let rawLag = latestLedger - lastIngestedLedger
        in if rawLag < 0 then (lc_lagging c, forwardLagging (lc_lagging c) c)
           else
             let c = sampleLag rawLag now c;
                 lagging = lagDecision rawLag c;
                 c = applyStateLocked lagging now c
             in (lagging, forwardLagging lagging c))"

definition EffectiveSweepMultiplier :: "lag_coordinator \<Rightarrow> int" where
  "EffectiveSweepMultiplier c =
     (if \<not> lo_Enabled (lc_opts c) \<or> \<not> lc_lagging c \<or> lo_CatchUpSweepMultiplier (lc_opts c) \<le> 1
      then 1 else lo_CatchUpSweepMultiplier (lc_opts c))"

definition jobName :: "string \<Rightarrow> string" where
  "jobName job = (if job = [] then ''background'' else job)"

definition ShouldYield ::
  "string \<Rightarrow> instant \<Rightarrow> lag_coordinator \<Rightarrow> (bool \<times> string) \<times> lag_coordinator" where
  "ShouldYield job0 now c =
     (let job = jobName job0
      in if \<not> lo_Enabled (lc_opts c) \<or> \<not> lc_lagging c
         then ((False, []), c\<lparr>deferredSince := (deferredSince c)(job := None)\<rparr>)
         else
           let (since, c) = (case deferredSince c job of
                  None \<Rightarrow> (now, c\<lparr>deferredSince := (deferredSince c)(job \<mapsto> now)\<rparr>)
                | Some since \<Rightarrow> (since, c));
               deferredFor = now - since;
               maxDeferral = lo_MaxDeferral (lc_opts c)
           in if maxDeferral > 0 \<and> deferredFor \<ge> maxDeferral
              then ((False, ''max_deferral_reached''),
                    c\<lparr>deferredSince := (deferredSince c)(job \<mapsto> now),
                      maxDeferralOverrides := maxDeferralOverrides c + 1,
                      overrideByJob := (overrideByJob c)(job := overrideByJob c job + 1)\<rparr>)
              else ((True, ''ingest_lagging''),
                    c\<lparr>totalYields := totalYields c + 1,
                      yieldsByJob := (yieldsByJob c)(job := yieldsByJob c job + 1)\<rparr>))"

record lag_stats =
  ls_Enabled :: bool
  ls_Lagging :: bool
  ls_CurrentLagLedgers :: int
  ls_ClosingRate :: "int \<times> int"
  ls_EffectiveSweepMultiplier :: int
  ls_TransitionsToLagging :: nat
  ls_TransitionsToRecovered :: nat
  ls_TotalYields :: nat
  ls_MaxDeferralOverrides :: nat
  ls_YieldsByJob :: "string \<Rightarrow> nat"
  ls_OverridesByJob :: "string \<Rightarrow> nat"

definition lag_Stats :: "lag_coordinator \<Rightarrow> lag_stats" where
  "lag_Stats c =
     \<lparr>ls_Enabled = lo_Enabled (lc_opts c), ls_Lagging = lc_lagging c,
      ls_CurrentLagLedgers = currentLag c, ls_ClosingRate = closingRate c,
      ls_EffectiveSweepMultiplier = EffectiveSweepMultiplier c,
      ls_TransitionsToLagging = transitionsToLagging c,
      ls_TransitionsToRecovered = transitionsToRecovered c,
      ls_TotalYields = totalYields c, ls_MaxDeferralOverrides = maxDeferralOverrides c,
      ls_YieldsByJob = yieldsByJob c, ls_OverridesByJob = overrideByJob c\<rparr>"

section \<open>What each operation does to the fields\<close>

lemma forwardLagging_simps [simp]:
  "lc_opts (forwardLagging l c) = lc_opts c" "lc_lagging (forwardLagging l c) = lc_lagging c"
  "deferredSince (forwardLagging l c) = deferredSince c"
  "yieldsByJob (forwardLagging l c) = yieldsByJob c"
  "overrideByJob (forwardLagging l c) = overrideByJob c"
  "transitionsToLagging (forwardLagging l c) = transitionsToLagging c"
  "transitionsToRecovered (forwardLagging l c) = transitionsToRecovered c"
  by (simp_all add: forwardLagging_def)

lemma applyStateLocked_simps [simp]:
  "lc_opts (applyStateLocked l t c) = lc_opts c" "lc_lagging (applyStateLocked l t c) = l"
  "deferredSince (applyStateLocked l t c) = (if l \<or> \<not> lc_lagging c then deferredSince c else Map.empty)"
  "yieldsByJob (applyStateLocked l t c) = yieldsByJob c"
  "overrideByJob (applyStateLocked l t c) = overrideByJob c"
  "transitionsToLagging (applyStateLocked l t c) =
     transitionsToLagging c + (if l \<and> \<not> lc_lagging c then 1 else 0)"
  "transitionsToRecovered (applyStateLocked l t c) =
     transitionsToRecovered c + (if \<not> l \<and> lc_lagging c then 1 else 0)"
  by (auto simp: applyStateLocked_def)

text \<open>What an observation changes besides its samples.\<close>

definition observed :: "int \<Rightarrow> int \<Rightarrow> lag_coordinator \<Rightarrow> bool" where
  "observed latest lst c =
     (if lst \<le> 0 then False else if latest - lst < 0 then lc_lagging c else lagDecision (latest - lst) c)"

lemma sampleLag_simps [simp]:
  "lc_opts (sampleLag r t c) = lc_opts c" "lc_lagging (sampleLag r t c) = lc_lagging c"
  "deferredSince (sampleLag r t c) = deferredSince c" "laggingSince (sampleLag r t c) = laggingSince c"
  "transitionsToLagging (sampleLag r t c) = transitionsToLagging c"
  "transitionsToRecovered (sampleLag r t c) = transitionsToRecovered c"
  by (simp_all add: sampleLag_def split: option.split)

lemma lagDecision_sample [simp]: "lagDecision r (sampleLag r' t c) = lagDecision r c"
  by (simp add: lagDecision_def)

lemma ObserveLag_simps [simp]:
  "fst (ObserveLag latest lst t c) = observed latest lst c"
  "lc_lagging (snd (ObserveLag latest lst t c)) = observed latest lst c"
  "lc_opts (snd (ObserveLag latest lst t c)) = lc_opts c"
  "deferredSince (snd (ObserveLag latest lst t c)) =
     (if observed latest lst c \<or> \<not> lc_lagging c then deferredSince c else Map.empty)"
  "transitionsToLagging (snd (ObserveLag latest lst t c)) =
     transitionsToLagging c + (if observed latest lst c \<and> \<not> lc_lagging c then 1 else 0)"
  "transitionsToRecovered (snd (ObserveLag latest lst t c)) =
     transitionsToRecovered c + (if \<not> observed latest lst c \<and> lc_lagging c then 1 else 0)"
  by (simp_all add: ObserveLag_def Let_def observed_def)

lemma SetLagging_simps [simp]:
  "lc_opts (SetLagging l t c) = lc_opts c" "lc_lagging (SetLagging l t c) = l"
  "deferredSince (SetLagging l t c) = (if l \<or> \<not> lc_lagging c then deferredSince c else Map.empty)"
  "yieldsByJob (SetLagging l t c) = yieldsByJob c" "overrideByJob (SetLagging l t c) = overrideByJob c"
  by (simp_all add: SetLagging_def)

section \<open>Runs and the invariant\<close>

datatype lag_op =
  EnableOp bool | LagOp instant bool | ObserveOp instant int int | YieldOp instant string

fun lag_step :: "lag_op \<Rightarrow> lag_coordinator \<Rightarrow> lag_coordinator" where
  "lag_step (EnableOp e) c = SetEnabled e c"
| "lag_step (LagOp t l) c = SetLagging l t c"
| "lag_step (ObserveOp t latest lst) c = snd (ObserveLag latest lst t c)"
| "lag_step (YieldOp t job) c = snd (ShouldYield job t c)"

abbreviation backpressure :: "lag_coordinator \<Rightarrow> bool" where
  "backpressure c \<equiv> lo_Enabled (lc_opts c) \<and> lc_lagging c"

definition lag_opts_ok :: "lag_options \<Rightarrow> bool" where
  "lag_opts_ok opts \<longleftrightarrow> lo_RecoverLagLedgers opts \<le> lo_EnterLagLedgers opts \<and> 0 < lo_MaxDeferral opts \<and>
     1 \<le> lo_CatchUpSweepMultiplier opts \<and> lo_CatchUpSweepMultiplier opts \<le> 4"

definition lag_inv :: "lag_coordinator \<Rightarrow> bool" where
  "lag_inv c \<longleftrightarrow> lag_opts_ok (lc_opts c) \<and>
     (\<not> backpressure c \<longrightarrow> deferredSince c = Map.empty) \<and>
     transitionsToLagging c = transitionsToRecovered c + (if lc_lagging c then 1 else 0) \<and>
     (laggingSince c \<noteq> None) = lc_lagging c"

lemma lo_applyDefaults_ok: "lag_opts_ok (lo_applyDefaults opts)"
  by (simp add: lo_applyDefaults_def lag_opts_ok_def Let_def not_less)

lemma NewLagCoordinator_inv [invariant_intros]: "lag_inv (NewLagCoordinator opts)"
  by (simp add: lag_inv_def NewLagCoordinator_def lo_applyDefaults_ok)

lemma applyStateLocked_inv [invariant_intros]: "lag_inv c \<Longrightarrow> lag_inv (applyStateLocked l t c)"
  by (auto simp: lag_inv_def applyStateLocked_def)

lemma forwardLagging_inv [invariant_intros]: "lag_inv c \<Longrightarrow> lag_inv (forwardLagging l c)"
  by (auto simp: lag_inv_def forwardLagging_def)

lemma SetLagging_inv [invariant_intros]: "lag_inv c \<Longrightarrow> lag_inv (SetLagging l t c)"
  by (simp add: SetLagging_def invariant_intros)

lemma SetEnabled_inv [invariant_intros]: "lag_inv c \<Longrightarrow> lag_inv (SetEnabled e c)"
  by (auto simp: lag_inv_def SetEnabled_def Let_def lag_opts_ok_def)

lemma ObserveLag_inv [invariant_intros]: "lag_inv c \<Longrightarrow> lag_inv (snd (ObserveLag latest lst t c))"
proof -
  assume c: "lag_inv c"
  have "lag_inv (c\<lparr>currentLag := a, prevSampleAt := b, closingRate := r\<rparr>)" for a b r
    using c by (simp add: lag_inv_def)
  moreover have "lag_inv (sampleLag r t c)" for r using c by (simp add: lag_inv_def)
  ultimately show ?thesis
    using c by (simp add: ObserveLag_def Let_def invariant_intros)
qed

lemma ShouldYield_inv [invariant_intros]: "lag_inv c \<Longrightarrow> lag_inv (snd (ShouldYield j t c))"
  by (auto simp: lag_inv_def ShouldYield_def Let_def split: option.splits)

lemma lag_step_inv [invariant_intros]: "lag_inv c \<Longrightarrow> lag_inv (lag_step a c)"
  by (cases a) (simp_all add: invariant_intros)

lemma lag_run_inv: "lag_inv c \<Longrightarrow> lag_inv (fold lag_step ops c)"
  by (induction ops arbitrary: c) (simp_all add: lag_step_inv)

section \<open>Deferral of one job\<close>

text \<open>A stretch in which backpressure stays on and every request of the job is deferred.\<close>

fun deferred_run :: "string \<Rightarrow> lag_op list \<Rightarrow> lag_coordinator \<Rightarrow> bool" where
  "deferred_run j [] c \<longleftrightarrow> backpressure c"
| "deferred_run j (a # ops) c \<longleftrightarrow>
     backpressure c \<and>
     (case a of YieldOp t k \<Rightarrow> jobName k = jobName j \<longrightarrow> fst (fst (ShouldYield k t c)) | _ \<Rightarrow> True) \<and>
     deferred_run j ops (lag_step a c)"

lemma deferred_since_kept:
  assumes "deferredSince c (jobName j) = Some s" "backpressure c" "backpressure (lag_step a c)"
    and "case a of YieldOp t k \<Rightarrow> jobName k = jobName j \<longrightarrow> fst (fst (ShouldYield k t c)) | _ \<Rightarrow> True"
  shows "deferredSince (lag_step a c) (jobName j) = Some s \<and>
    lo_MaxDeferral (lc_opts (lag_step a c)) = lo_MaxDeferral (lc_opts c)"
proof (cases a)
  case (YieldOp t k)
  with assms show ?thesis
    by (cases "deferredSince c (jobName k)"; cases "jobName k = jobName j")
      (simp_all add: ShouldYield_def Let_def split: if_splits)
qed (use assms in \<open>simp_all add: SetEnabled_def Let_def split: if_splits\<close>)

lemma deferred_run_backpressure: "deferred_run j ops c \<Longrightarrow> backpressure c"
  by (cases ops) auto

lemma deferred_run_since:
  assumes "deferred_run j ops c" "deferredSince c (jobName j) = Some s"
  shows "deferredSince (fold lag_step ops c) (jobName j) = Some s \<and> backpressure (fold lag_step ops c) \<and>
    lo_MaxDeferral (lc_opts (fold lag_step ops c)) = lo_MaxDeferral (lc_opts c)"
  using assms
proof (induction ops arbitrary: c)
  case (Cons a ops)
  then have "backpressure (lag_step a c)" by (auto dest: deferred_run_backpressure)
  with Cons deferred_since_kept [of c j s a] show ?case by auto
qed simp

section \<open>Properties\<close>

text \<open>C29. In every state the coordinator can reach, the thresholds are ordered, entering and
  leaving the lagging state alternate, no deferral timer survives outside backpressure, and the
  sweep multiplier is between 1 and 4, and 1 whenever ingestion is not lagging or backpressure is
  off.\<close>

theorem lag_coordinator_invariant:
  fixes opts :: lag_options and ops :: "lag_op list"
  defines "c \<equiv> fold lag_step ops (NewLagCoordinator opts)"
  shows "lo_RecoverLagLedgers (lc_opts c) \<le> lo_EnterLagLedgers (lc_opts c) \<and>
    transitionsToLagging c = transitionsToRecovered c + (if lc_lagging c then 1 else 0) \<and>
    (if backpressure c then True else deferredSince c = Map.empty) \<and>
    1 \<le> EffectiveSweepMultiplier c \<and> EffectiveSweepMultiplier c \<le> 4 \<and>
    (if backpressure c then True else EffectiveSweepMultiplier c = 1)"
  using lag_run_inv [OF NewLagCoordinator_inv, of ops opts]
  by (auto simp: c_def [symmetric] lag_inv_def lag_opts_ok_def EffectiveSweepMultiplier_def)

text \<open>Hysteresis: an observed lag above the entry threshold turns the lagging state on, one at
  or below the recovery threshold turns it off, and any sequence of observations in between
  leaves the state and its transition counters as they are.\<close>

lemma lag_hysteresis:
  assumes "lag_inv c" and "lo_EnterLagLedgers (lc_opts c) > 0"
    and "\<forall>(t, latest, lst) \<in> set obs. 0 < lst \<and>
      uint (lo_RecoverLagLedgers (lc_opts c)) < latest - lst \<and>
      latest - lst \<le> uint (lo_EnterLagLedgers (lc_opts c))"
  defines "c' \<equiv> fold (\<lambda>(t, latest, lst) c. snd (ObserveLag latest lst t c)) obs c"
  shows "lc_lagging c' = lc_lagging c \<and> transitionsToLagging c' = transitionsToLagging c \<and>
    transitionsToRecovered c' = transitionsToRecovered c \<and>
    (\<forall>t latest lst. 0 < lst \<and> uint (lo_EnterLagLedgers (lc_opts c)) < latest - lst \<longrightarrow>
       fst (ObserveLag latest lst t c') \<and> lc_lagging (snd (ObserveLag latest lst t c'))) \<and>
    (\<forall>t latest lst. 0 < lst \<and> 0 \<le> latest - lst \<and> latest - lst \<le> uint (lo_RecoverLagLedgers (lc_opts c)) \<longrightarrow>
       \<not> fst (ObserveLag latest lst t c') \<and> \<not> lc_lagging (snd (ObserveLag latest lst t c')))"
proof -
  have rec: "uint (lo_RecoverLagLedgers (lc_opts c)) \<le> uint (lo_EnterLagLedgers (lc_opts c))"
    using assms(1) by (simp add: lag_inv_def lag_opts_ok_def word_le_def)
  have "lc_lagging c' = lc_lagging c \<and> transitionsToLagging c' = transitionsToLagging c \<and>
    transitionsToRecovered c' = transitionsToRecovered c \<and> lc_opts c' = lc_opts c"
    using assms(2,3) unfolding c'_def
  proof (induction obs arbitrary: c)
    case (Cons x obs)
    obtain t latest lst where x: "x = (t, latest, lst)" by (cases x)
    let ?d = "snd (ObserveLag latest lst t c)"
    have "0 \<le> uint (lo_RecoverLagLedgers (lc_opts c))" by simp
    with Cons.prems x have "lc_lagging ?d = lc_lagging c" "lc_opts ?d = lc_opts c"
      "transitionsToLagging ?d = transitionsToLagging c"
      "transitionsToRecovered ?d = transitionsToRecovered c"
      by (simp_all add: observed_def lagDecision_def)
    with Cons.IH [of ?d] Cons.prems x show ?case by simp
  qed simp
  moreover have "\<not> uint w < latest - lst" if "latest < lst" for w :: u32 and latest lst
    using uint_ge_0 [of w] that by linarith
  ultimately show ?thesis
    using assms(2) rec by (auto simp: observed_def lagDecision_def)
qed


text \<open>C28. Deferral is bounded while backpressure lasts: once a job has been told to yield for the
  first time at \<open>t0\<close>, then after any stretch in which backpressure stays on and the job was
  deferred every time it asked, its next request at \<open>t0\<close> plus the maximal deferral or later is let
  through with the override reason.\<close>

theorem max_deferral_forces_pass:
  assumes "lag_inv c" and "backpressure c" and "deferredSince c (jobName j) = None"
    and "deferred_run j ops (snd (ShouldYield j t0 c))"
    and "t \<ge> t0 + lo_MaxDeferral (lc_opts c)"
  shows "fst (fst (ShouldYield j t0 c)) \<and>
    fst (ShouldYield j t (fold lag_step ops (snd (ShouldYield j t0 c)))) = (False, ''max_deferral_reached'')"
proof -
  let ?c0 = "snd (ShouldYield j t0 c)"
  have pos: "0 < lo_MaxDeferral (lc_opts c)" using assms(1) by (simp add: lag_inv_def lag_opts_ok_def)
  then have first: "fst (fst (ShouldYield j t0 c))" "deferredSince ?c0 (jobName j) = Some t0"
    "lo_MaxDeferral (lc_opts ?c0) = lo_MaxDeferral (lc_opts c)"
    using assms(2,3) by (auto simp: ShouldYield_def Let_def)
  from deferred_run_since [OF assms(4) first(2)] first(1,3) pos assms(5) show ?thesis
    by (simp add: ShouldYield_def Let_def)
qed

theorem max_deferral_forces_pass_witness:
  "let c = SetLagging True 0 (NewLagCoordinator \<lparr>lo_Enabled = True, lo_EnterLagLedgers = 100,
         lo_RecoverLagLedgers = 50, lo_MaxDeferral = 60, lo_CatchUpSweepMultiplier = 2, lo_Downstream = False\<rparr>)
   in fst (ShouldYield ''pruner'' 61 (fold lag_step [YieldOp 30 ''pruner''] (snd (ShouldYield ''pruner'' 1 c)))) =
     (False, ''max_deferral_reached'')"
proof -
  let ?c = "SetLagging True 0 (NewLagCoordinator \<lparr>lo_Enabled = True, lo_EnterLagLedgers = 100,
         lo_RecoverLagLedgers = 50, lo_MaxDeferral = 60, lo_CatchUpSweepMultiplier = 2, lo_Downstream = False\<rparr>)"
  have inv: "lag_inv ?c" by (simp add: invariant_intros)
  have d: "backpressure ?c" "lo_MaxDeferral (lc_opts ?c) = 60" "deferredSince ?c = Map.empty"
    by (simp_all add: NewLagCoordinator_def lo_applyDefaults_def Let_def)
  then have "deferred_run ''pruner'' [YieldOp 30 ''pruner''] (snd (ShouldYield ''pruner'' 1 ?c))"
    by (simp add: ShouldYield_def Let_def)
  from max_deferral_forces_pass [OF inv d(1) _ this, of 61] d show ?thesis by simp
qed

text \<open>C30. The bound does not survive flapping: a job that only asks after ingestion has recovered
  and fallen behind again is deferred every time, at whatever times it asks, and no override is
  ever granted, because each recovery clears the job's deferral timer.\<close>

theorem lag_flapping_starves_job:
  fixes j :: string
  assumes "lag_inv c" and "lo_Enabled (lc_opts c)"
  defines "flap \<equiv> \<lambda>t c. snd (ShouldYield j t (SetLagging True t (SetLagging False t c)))"
  shows "yieldsByJob (fold flap ts c) (jobName j) = yieldsByJob c (jobName j) + length ts \<and>
    overrideByJob (fold flap ts c) = overrideByJob c"
  using assms(1,2)
proof (induction ts arbitrary: c)
  case (Cons t ts)
  let ?d = "SetLagging True t (SetLagging False t c)"
  have d: "backpressure ?d" "deferredSince ?d = Map.empty" "lag_inv ?d"
      "yieldsByJob ?d = yieldsByJob c" "overrideByJob ?d = overrideByJob c"
    using Cons.prems by (simp_all add: SetLagging_inv) (simp add: lag_inv_def)
  then have "0 < lo_MaxDeferral (lc_opts ?d)" by (simp add: lag_inv_def lag_opts_ok_def)
  with d have "yieldsByJob (flap t c) (jobName j) = yieldsByJob c (jobName j) + 1"
    "overrideByJob (flap t c) = overrideByJob c" "lo_Enabled (lc_opts (flap t c))"
    by (auto simp: flap_def ShouldYield_def Let_def)
  moreover have "lag_inv (flap t c)" using d(3) by (simp add: flap_def invariant_intros)
  ultimately show ?case using Cons.IH [of "flap t c"] by simp
qed simp

theorem lag_flapping_starves_job_witness:
  "let c = NewLagCoordinator \<lparr>lo_Enabled = True, lo_EnterLagLedgers = 100,
         lo_RecoverLagLedgers = 50, lo_MaxDeferral = 60, lo_CatchUpSweepMultiplier = 2, lo_Downstream = False\<rparr>;
       flap = (\<lambda>t c. snd (ShouldYield ''pruner'' t (SetLagging True t (SetLagging False t c))))
   in overrideByJob (fold flap [0, 100, 200, 300] c) ''pruner'' = 0"
proof -
  let ?c = "NewLagCoordinator \<lparr>lo_Enabled = True, lo_EnterLagLedgers = 100,
         lo_RecoverLagLedgers = 50, lo_MaxDeferral = 60, lo_CatchUpSweepMultiplier = 2, lo_Downstream = False\<rparr>"
  have "lo_Enabled (lc_opts ?c)" "overrideByJob ?c = (\<lambda>_. 0)"
    by (simp_all add: NewLagCoordinator_def lo_applyDefaults_def)
  then show ?thesis
    using lag_flapping_starves_job [OF NewLagCoordinator_inv, of _ "''pruner''" "[0, 100, 200, 300]"]
    unfolding Let_def by auto
qed

end
