(* ===== verification/Ingester_Core.thy ===== *)
theory Ingester_Core
  imports Rpc_Types Event_Store Go_Time Lag_Coordinator
begin

text \<open>
  The parts of \<^verbatim>\<open>internal/ingester/ingester.go\<close> that compute without talking to the RPC or
  the store: options and their defaults, paging decisions, filter batches, the adaptive write
  controller, backoff and poll interval. Products with a float factor (the poll interval's 0.5 and
  1.25, the moving average's 0.5) are the truncated quotients they equal while the duration is
  below \<open>2 ^ 50\<close> nanoseconds, where every intermediate value is a float exactly.
\<close>

section \<open>Options\<close>

record options =
  o_PollInterval :: duration
  o_PollIntervalMin :: duration
  o_PollIntervalMax :: duration
  o_StartLedger :: u32
  o_StartLedgerRaw :: string
  o_RetentionLedgers :: u32
  o_PageLimit :: nat
  o_MaxRetries :: int
  o_WriteBatchSize :: nat
  o_MaxEventsPerCycle :: nat
  o_BatchSize :: nat
  o_BatchTargetLatency :: duration
  o_BatchMaxBackoff :: duration
  o_MinBackoff :: duration
  o_MaxBackoff :: duration
  o_JitterMin :: duration
  o_JitterMax :: duration
  o_SweepWindow :: u32
  o_LagWarnLedgers :: u32
  o_LagRecoverLedgers :: u32
  o_LagBackpressureEnabled :: bool
  o_SweepConcurrency :: int
  o_ReorgConfirmationWindow :: u32
  o_ReorgRescanInterval :: duration
  o_SkipContracts :: "string list"
  o_Network :: string
  o_DryRun :: bool

abbreviation DefaultRetentionLedgers :: u32 where "DefaultRetentionLedgers \<equiv> 17280"

definition default_poll :: "options \<Rightarrow> options" where
  "default_poll opts =
     (let opts = (if o_PollInterval opts \<le> 0 then opts\<lparr>o_PollInterval := 5 * second\<rparr> else opts);
          opts = (if o_PollIntervalMin opts \<le> 0 then opts\<lparr>o_PollIntervalMin := o_PollInterval opts\<rparr> else opts);
          opts = (if o_PollIntervalMax opts \<le> 0 then opts\<lparr>o_PollIntervalMax := o_PollInterval opts\<rparr> else opts);
          opts = (if o_PollIntervalMin opts > o_PollIntervalMax opts
                  then opts\<lparr>o_PollIntervalMax := o_PollIntervalMin opts\<rparr> else opts);
          opts = (if o_PollInterval opts < o_PollIntervalMin opts
                  then opts\<lparr>o_PollInterval := o_PollIntervalMin opts\<rparr> else opts)
      in if o_PollInterval opts > o_PollIntervalMax opts
         then opts\<lparr>o_PollInterval := o_PollIntervalMax opts\<rparr> else opts)"

definition default_backoff :: "options \<Rightarrow> options" where
  "default_backoff opts =
     (let opts = (if o_MaxBackoff opts \<le> 0 then opts\<lparr>o_MaxBackoff := minute\<rparr> else opts);
          opts = (if o_MinBackoff opts \<le> 0 then opts\<lparr>o_MinBackoff := second\<rparr> else opts);
          opts = (if o_MinBackoff opts > o_MaxBackoff opts then opts\<lparr>o_MinBackoff := o_MaxBackoff opts\<rparr> else opts);
          opts = (if o_JitterMin opts < 0 then opts\<lparr>o_JitterMin := 0\<rparr> else opts);
          opts = (if o_JitterMax opts < 0 then opts\<lparr>o_JitterMax := 0\<rparr> else opts)
      in if o_JitterMax opts > 0 \<and> o_JitterMin opts > o_JitterMax opts
         then opts\<lparr>o_JitterMin := o_JitterMax opts\<rparr> else opts)"

definition default_sizes :: "options \<Rightarrow> options" where
  "default_sizes opts =
     (let opts = (if o_RetentionLedgers opts = 0 then opts\<lparr>o_RetentionLedgers := DefaultRetentionLedgers\<rparr> else opts);
          opts = (if o_PageLimit opts = 0 then opts\<lparr>o_PageLimit := 1000\<rparr> else opts)
      in if o_WriteBatchSize opts = 0 then opts\<lparr>o_WriteBatchSize := 1000\<rparr> else opts)"

definition default_sweep :: "options \<Rightarrow> options" where
  "default_sweep opts =
     (let opts = (if o_SweepWindow opts = 0 then opts\<lparr>o_SweepWindow := 1000\<rparr> else opts);
          opts = (if o_BatchMaxBackoff opts \<le> 0 then opts\<lparr>o_BatchMaxBackoff := second\<rparr> else opts);
          opts = (if o_SweepConcurrency opts < 1 then opts\<lparr>o_SweepConcurrency := 1\<rparr> else opts)
      in if o_ReorgConfirmationWindow opts > 0 \<and> o_ReorgRescanInterval opts \<le> 0
         then opts\<lparr>o_ReorgRescanInterval := minute\<rparr> else opts)"

definition applyDefaults :: "options \<Rightarrow> options" where
  "applyDefaults opts = default_sweep (default_backoff (default_sizes (default_poll opts)))"

section \<open>Pages\<close>

definition effectivePageLimit :: "options \<Rightarrow> nat" where
  "effectivePageLimit opts =
     (if o_MaxEventsPerCycle opts > 0 \<and> o_MaxEventsPerCycle opts < o_PageLimit opts
      then o_MaxEventsPerCycle opts else o_PageLimit opts)"

definition newCycleBudget :: "options \<Rightarrow> int option" where
  "newCycleBudget opts =
     (if o_MaxEventsPerCycle opts = 0 \<or> o_DryRun opts then None else Some (int (o_MaxEventsPerCycle opts)))"

definition nextState :: "instant \<Rightarrow> get_events_response \<Rightarrow> nat \<Rightarrow> ingestion_state \<times> bool" where
  "nextState now resp pageLimit =
     (if rs_Events resp \<noteq> []
      then (let l = last (rs_Events resp);
                cursor = (if rs_Cursor resp = [] then CursorValue l else rs_Cursor resp)
            in (\<lparr>is_Network = [], is_LastIngestedLedger = uint (re_Ledger l), is_LastCursor = cursor,
                 is_LastSuccessfulPoll = Some now\<rparr>,
                length (rs_Events resp) < pageLimit))
      else (\<lparr>is_Network = [], is_LastIngestedLedger = uint (rs_LatestLedger resp) - 1, is_LastCursor = [],
             is_LastSuccessfulPoll = Some now\<rparr>, True))"

fun remove_dups :: "string set \<Rightarrow> event list \<Rightarrow> event list" where
  "remove_dups seen [] = []"
| "remove_dups seen (ev # evs) =
     (if ev_ID ev \<in> seen then remove_dups seen evs else ev # remove_dups (insert (ev_ID ev) seen) evs)"

definition removeDuplicateEvents :: "event list \<Rightarrow> event list" where
  "removeDuplicateEvents events = (if length events \<le> 1 then events else remove_dups {} events)"

definition effectiveSweepWindow :: "options \<Rightarrow> lag_coordinator \<Rightarrow> u32" where
  "effectiveSweepWindow opts lc =
     (let m = EffectiveSweepMultiplier lc; mult = (if m > 1 then of_int m else 1) in o_SweepWindow opts * mult)"

section \<open>Filter batches\<close>

text \<open>
  The loops \<^verbatim>\<open>for start := 0; start < len; start += k\<close> that cut a slice into pieces; \<open>k\<close> is
  positive wherever they run.
\<close>

fun slices :: "nat \<Rightarrow> 'a list \<Rightarrow> 'a list list" where
  "slices k xs = (if k = 0 \<or> xs = [] then [] else take k xs # slices k (drop k xs))"

declare slices.simps [simp del]

definition own_watched :: "string \<Rightarrow> watched_contract list \<Rightarrow> string list" where
  "own_watched network watched =
     map wc_ContractID (filter (\<lambda>w. defaultNetwork (wc_Network w) = defaultNetwork network) watched)"

definition contract_filter :: "string list \<Rightarrow> rpc_filter" where
  "contract_filter ids = \<lparr>rf_Type = ''contract'', rf_ContractIDs = ids, rf_Topics = []\<rparr>"

definition buildFilterBatches :: "string \<Rightarrow> watched_contract list \<Rightarrow> rpc_filter list list" where
  "buildFilterBatches network watched =
     (let ids = own_watched network watched
      in if ids = [] then [[contract_filter []]]
         else slices MaxFiltersPerRequest (map contract_filter (slices MaxContractIDsPerFilter ids)))"

definition contractIDsFromFilters :: "rpc_filter list \<Rightarrow> string list" where
  "contractIDsFromFilters filters =
     rev (remdups (rev (concat (map rf_ContractIDs (filter (\<lambda>f. rf_Type f = ''contract'') filters)))))"

section \<open>The adaptive write controller\<close>

record batch_controller =
  bc_max :: int
  bc_cur :: int
  bc_maxBk :: duration
  bc_adaptive :: bool
  bc_targetPerEvent :: duration
  bc_ewma :: duration

definition newBatchController :: "options \<Rightarrow> batch_controller" where
  "newBatchController opts =
     (let bc = \<lparr>bc_max = int (o_BatchSize opts), bc_cur = int (o_BatchSize opts),
                bc_maxBk = o_BatchMaxBackoff opts, bc_adaptive = False, bc_targetPerEvent = 0, bc_ewma = 0\<rparr>
      in if o_BatchTargetLatency opts > 0
         then let t = o_BatchTargetLatency opts sdiv int (o_BatchSize opts);
                  t = (if t \<le> 0 then 1000 else t)
              in bc\<lparr>bc_adaptive := True, bc_targetPerEvent := t, bc_ewma := t\<rparr>
         else bc)"

definition recordAndBackoff :: "int \<Rightarrow> duration \<Rightarrow> batch_controller \<Rightarrow> duration \<times> batch_controller" where
  "recordAndBackoff rows latency bc =
     (if \<not> bc_adaptive bc \<or> rows \<le> 0 \<or> bc_cur bc \<le> 0 then (0, bc)
      else
        let perEvent = latency sdiv rows;
            bc = bc\<lparr>bc_ewma := (if bc_ewma bc \<le> 0 then perEvent else (perEvent + bc_ewma bc) sdiv 2)\<rparr>;
            overBudget = (bc_ewma bc > bc_targetPerEvent bc);
            comfortablyUnder = (bc_ewma bc < bc_targetPerEvent bc sdiv 2)
        in if overBudget \<and> bc_cur bc > 1 then (bc_maxBk bc, bc\<lparr>bc_cur := bc_cur bc sdiv 2\<rparr>)
           else if comfortablyUnder \<and> bc_cur bc < bc_max bc
           then (0, bc\<lparr>bc_cur := min (bc_cur bc * 2) (bc_max bc)\<rparr>)
           else if overBudget then (bc_maxBk bc, bc)
           else (0, bc))"

section \<open>Backoff and poll interval\<close>

text \<open>\<open>jitter\<close> is the random source: a value in \<open>[0, max)\<close> for a positive \<open>max\<close>.\<close>

definition backoffSleep :: "options \<Rightarrow> (duration \<Rightarrow> duration) \<Rightarrow> duration \<Rightarrow> duration" where
  "backoffSleep opts jitter backoff =
     (let jitterMin = o_JitterMin opts;
          jitterMax = (if o_JitterMax opts = 0 then backoff sdiv 2 else o_JitterMax opts)
      in if jitterMax \<le> jitterMin then backoff sdiv 2 + jitterMin
         else backoff sdiv 2 + jitterMin + jitter (jitterMax - jitterMin))"

definition clampDuration :: "duration \<Rightarrow> duration \<Rightarrow> duration \<Rightarrow> duration" where
  "clampDuration d mn mx = (if d < mn then mn else if d > mx then mx else d)"

definition adjustPollInterval :: "options \<Rightarrow> lag_coordinator \<Rightarrow> bool \<Rightarrow> duration \<Rightarrow> duration" where
  "adjustPollInterval opts lc caughtUp current =
     (let caughtUp = (if lo_Enabled (lc_opts lc) \<and> lc_lagging lc then False else caughtUp);
          nxt = (if caughtUp then (current * 5) sdiv 4 else current sdiv 2)
      in clampDuration nxt (o_PollIntervalMin opts) (o_PollIntervalMax opts))"

definition SetPollInterval :: "duration \<Rightarrow> duration \<Rightarrow> duration option" where
  "SetPollInterval d current = (if d \<le> 0 then None else Some d)"

text \<open>The retry bookkeeping of \<^verbatim>\<open>Run\<close>: the sleep after a failed pass and the next state.\<close>

record retry_state =
  r_backoff :: duration
  r_retries :: int

definition initial_retry :: "options \<Rightarrow> retry_state" where
  "initial_retry opts = \<lparr>r_backoff = o_MinBackoff opts, r_retries = 0\<rparr>"

definition run_failed :: "options \<Rightarrow> (duration \<Rightarrow> duration) \<Rightarrow> retry_state \<Rightarrow> duration \<times> retry_state" where
  "run_failed opts jitter r =
     (let r = (if o_MaxRetries opts > 0 \<and> r_retries r \<ge> o_MaxRetries opts then initial_retry opts else r);
          sleep = backoffSleep opts jitter (r_backoff r);
          backoff = r_backoff r * 2
      in (sleep, \<lparr>r_backoff = (if backoff > o_MaxBackoff opts then o_MaxBackoff opts else backoff),
                  r_retries = r_retries r + 1\<rparr>))"

definition run_succeeded :: "options \<Rightarrow> retry_state" where
  "run_succeeded opts = initial_retry opts"

section \<open>Start position\<close>

definition resolveStartLedgerRaw :: "string \<Rightarrow> health \<Rightarrow> u32 option" where
  "resolveStartLedgerRaw raw hl =
     (let raw = TrimSpace raw
      in case ParseUint 32 raw of
          Some n \<Rightarrow> Some (of_nat n)
        | None \<Rightarrow>
            if \<not> HasPrefix (ToLower raw) ''latest-'' then None
            else case ParseUint 32 (drop 7 raw) of
                None \<Rightarrow> None
              | Some offset \<Rightarrow>
                  if offset = 0 then None
                  else let start = uint (h_LatestLedger hl) - int offset
                       in Some (of_int (if start < 2 then 2 else start)))"

definition effectiveLagRecoverLedgers :: "options \<Rightarrow> bool \<Rightarrow> u32" where
  "effectiveLagRecoverLedgers opts external =
     (if o_LagRecoverLedgers opts > 0
      then if o_LagRecoverLedgers opts > o_LagWarnLedgers opts then o_LagWarnLedgers opts
           else o_LagRecoverLedgers opts
      else if o_LagBackpressureEnabled opts \<or> external then (o_LagWarnLedgers opts * 3) div 4
      else o_LagWarnLedgers opts)"

section \<open>Events\<close>

text \<open>The zero \<^verbatim>\<open>time.Time\<close>: the first of January of the year 1.\<close>

definition zero_time :: instant where
  "zero_time = days_from_civil 1 1 1 * 86400 * second"

definition toStoreEvent :: "(rpc_event \<Rightarrow> string + string \<times> string) \<Rightarrow> rpc_event \<Rightarrow> string + event" where
  "toStoreEvent EventTopicsValue re =
     (case EventTopicsValue re of
        Inl err \<Rightarrow> Inl err
      | Inr (topics, val) \<Rightarrow>
          let createdAt = (if re_LedgerClosedAt re \<noteq> []
                           then case ParseRFC3339Nano (re_LedgerClosedAt re) of Some t \<Rightarrow> t | None \<Rightarrow> zero_time
                           else zero_time)
          in Inr \<lparr>ev_ID = re_ID re, ev_ContractID = re_ContractID re, ev_Ledger = uint (re_Ledger re),
                  ev_Type = re_Type re, ev_TxHash = re_TxHash re, ev_TxIndex = re_TransactionIndex re,
                  ev_OpIndex = re_OperationIndex re, ev_InSuccessfulCall = re_InSuccessfulContractCall re,
                  ev_Topics = topics, ev_Value = val, ev_CreatedAt = createdAt, ev_Network = [],
                  ev_RawTopicXDR = re_Topic re, ev_RawValueXDR = re_Value re, ev_SEP41Event = None\<rparr>)"

section \<open>Lemmas\<close>

lemma slices_Nil [simp]: "slices k [] = []"
  by (simp add: slices.simps)

lemma slices_concat: "0 < k \<Longrightarrow> concat (slices k xs) = xs"
proof (induction k xs rule: slices.induct)
  case (1 k xs)
  thus ?case by (subst slices.simps) auto
qed

lemma slices_mem: "x \<in> set (slices k xs) \<Longrightarrow> x \<noteq> [] \<and> length x \<le> k"
proof (induction k xs rule: slices.induct)
  case (1 k xs)
  thus ?case by (subst (asm) (2) slices.simps) (auto split: if_splits)
qed

lemma slices_length: "0 < k \<Longrightarrow> length (slices k xs) = (length xs + k - 1) div k"
proof (induction k xs rule: slices.induct)
  case (1 k xs)
  show ?case
  proof (cases "xs = []")
    case True
    thus ?thesis using 1(2) by simp
  next
    case False
    have unfold: "slices k xs = take k xs # slices k (drop k xs)"
      using False 1(2) by (subst slices.simps) simp
    show ?thesis
    proof (cases "k < length xs")
      case True
      hence "length xs + k - 1 = (length (drop k xs) + k - 1) + k" by simp
      hence "(length xs + k - 1) div k = Suc ((length (drop k xs) + k - 1) div k)"
        using 1(2) by (simp only: div_add_self2)
      thus ?thesis using 1 False unfolding unfold by simp
    next
      case short: False
      hence "drop k xs = []" by simp
      moreover have "(length xs + k - 1) div k = 1"
        using False short by (intro div_nat_eqI) (cases xs; simp)+
      ultimately show ?thesis unfolding unfold by simp
    qed
  qed
qed

lemma map_filter_ids [simp]: "map rf_ContractIDs (map contract_filter xs) = xs"
  by (simp add: contract_filter_def comp_def)

text \<open>The chunk size stays between one and the configured maximum, whatever the latencies.\<close>

definition bc_ok :: "batch_controller \<Rightarrow> bool" where
  "bc_ok bc \<longleftrightarrow> 1 \<le> bc_cur bc \<and> bc_cur bc \<le> bc_max bc"

lemma newBatchController_ok: "0 < o_BatchSize opts \<Longrightarrow> bc_ok (newBatchController opts)"
  by (simp add: bc_ok_def newBatchController_def Let_def)

lemma recordAndBackoff_ok: "bc_ok bc \<Longrightarrow> bc_ok (snd (recordAndBackoff rows latency bc))"
  by (auto simp: bc_ok_def recordAndBackoff_def Let_def)

text \<open>The retry backoff stays between its bounds.\<close>

definition retry_ok :: "options \<Rightarrow> retry_state \<Rightarrow> bool" where
  "retry_ok opts r \<longleftrightarrow> o_MinBackoff opts \<le> r_backoff r \<and> r_backoff r \<le> o_MaxBackoff opts"

lemma default_sweep_simps [simp]:
  "o_MinBackoff (default_sweep opts) = o_MinBackoff opts"
  "o_MaxBackoff (default_sweep opts) = o_MaxBackoff opts"
  by (simp_all add: default_sweep_def Let_def)

lemma default_backoff_simps [simp]:
  "0 < o_MinBackoff (default_backoff opts)"
  "o_MinBackoff (default_backoff opts) \<le> o_MaxBackoff (default_backoff opts)"
  by (simp_all add: default_backoff_def Let_def)

lemma applyDefaults_backoff:
  "0 < o_MinBackoff (applyDefaults opts)" "o_MinBackoff (applyDefaults opts) \<le> o_MaxBackoff (applyDefaults opts)"
  by (simp_all add: applyDefaults_def)

lemma run_failed_ok: "0 < o_MinBackoff opts \<Longrightarrow> o_MinBackoff opts \<le> o_MaxBackoff opts \<Longrightarrow> retry_ok opts r
    \<Longrightarrow> retry_ok opts (snd (run_failed opts jitter r))"
  by (auto simp: retry_ok_def run_failed_def initial_retry_def Let_def)

lemma remove_dups_ids: "ev_ID ` set (remove_dups seen evs) = ev_ID ` set evs - seen"
  by (induction seen evs rule: remove_dups.induct) auto

lemma remove_dups_distinct: "distinct (map ev_ID (remove_dups seen evs))"
proof (induction seen evs rule: remove_dups.induct)
  case (2 seen ev evs)
  have "ev_ID ev \<notin> ev_ID ` set (remove_dups (insert (ev_ID ev) seen) evs)" by (simp add: remove_dups_ids)
  thus ?case using 2 by simp
qed simp

lemma remove_dups_subset: "set (remove_dups seen evs) \<subseteq> set evs"
  by (induction seen evs rule: remove_dups.induct) auto

lemma removeDuplicateEvents_ids: "ev_ID ` set (removeDuplicateEvents evs) = ev_ID ` set evs"
  by (simp add: removeDuplicateEvents_def remove_dups_ids)

lemma removeDuplicateEvents_distinct: "distinct (map ev_ID (removeDuplicateEvents evs))"
proof (cases "length evs \<le> 1")
  case True
  thus ?thesis by (cases evs) (auto simp: removeDuplicateEvents_def)
qed (simp add: removeDuplicateEvents_def remove_dups_distinct)

lemma removeDuplicateEvents_subset: "set (removeDuplicateEvents evs) \<subseteq> set evs"
  using remove_dups_subset by (simp add: removeDuplicateEvents_def)

section \<open>Properties\<close>


end
