(* ===== verification/Ingester.thy ===== *)
theory Ingester
  imports Reorg_Coord Ingester_Core Address
begin

text \<open>
  The ingestion loop of \<^verbatim>\<open>internal/ingester/ingester.go\<close> and the reorg handling of
  \<^verbatim>\<open>internal/ingester/reorg.go\<close> as functions from a world to an outcome and a new world. The
  world is the database with the in-memory state of the ingester; the environment is everything
  the code cannot control: what the RPC answers, which store calls fail, whether a failed write was
  applied nonetheless, latencies and clock, each indexed by the number of external calls made so
  far. The store is Postgres. One goroutine runs the loop, with \<^verbatim>\<open>SweepConcurrency\<close> one, so a
  reorg it handles is never coalesced (the interleavings are the subject of another theory).
  A paging loop takes fuel, and running out of it is the outcome \<open>Diverged\<close>.
\<close>

section \<open>Errors\<close>

record store_fault =
  sf_Canceled :: bool
  sf_DeadlineExceeded :: bool
  sf_NetError :: bool
  sf_Permanent :: bool
  sf_PgCode :: "string option"

definition IsPermanentEventError :: "store_fault \<Rightarrow> bool" where
  "IsPermanentEventError err =
     (if sf_Canceled err \<or> sf_DeadlineExceeded err then False
      else if sf_NetError err then False
      else if sf_Permanent err then True
      else case sf_PgCode err of
          Some code \<Rightarrow> HasPrefix code ''22'' \<or> HasPrefix code ''23''
        | None \<Rightarrow> False)"

datatype ing_error =
    ErrRPC rpc_error
  | ErrStore store_fault
  | ErrDecode string
  | ErrHandleReorg "string handle_error"
  | ErrReconcile reorg_error
  | ErrReingestRange u32 u32
  | ErrBelowOldest u32 u32
  | ErrStartLedgerRaw string
  | ErrCanceled
  | Diverged

section \<open>World and environment\<close>

record reorg_notice =
  n_Network :: string
  n_FromLedger :: u32
  n_ToLedger :: u32
  n_NewHeadLedger :: u32
  n_RetractedEventIDs :: "string list"
  n_ReplacementEventIDs :: "string list"
  n_ReplacementEvents :: "event list"

text \<open>
  \<open>w_published\<close> and \<open>w_notices\<close> collect what the broadcaster and the notifiers are handed,
  \<open>w_lagMetrics\<close> what the lag gauge is set to. \<open>e_sharedLag\<close> tells whether the lag coordinator came
  with the options.
\<close>

record world =
  w_db :: db
  w_tick :: nat
  w_tracker :: reorg_tracker
  w_lag :: lag_coordinator
  w_lagging :: bool
  w_lagMetrics :: "bool list"
  w_pollInterval :: duration
  w_dryRunPosition :: "(string \<times> int) option"
  w_startOverrideApplied :: bool
  w_fetched :: int
  w_written :: int
  w_skipped :: int
  w_published :: "event list list"
  w_notices :: "reorg_notice list"

record env =
  e_opts :: options
  e_getEvents :: "nat \<Rightarrow> get_events_request \<Rightarrow> rpc_error + get_events_response"
  e_getHealth :: "nat \<Rightarrow> rpc_error + health"
  e_getLatestLedger :: "nat \<Rightarrow> rpc_error + u32"
  e_fault :: "nat \<Rightarrow> (store_fault \<times> bool) option"
  e_latency :: "nat \<Rightarrow> duration"
  e_sleeps :: "nat \<Rightarrow> bool"
  e_canceled :: "nat \<Rightarrow> bool"
  e_jitter :: "nat \<Rightarrow> duration \<Rightarrow> duration"
  e_now :: "nat \<Rightarrow> instant"
  e_EventTopicsValue :: "rpc_event \<Rightarrow> string + string \<times> string"
  e_deadLetterSink :: bool
  e_archivedThrough :: u32
  e_archiveBoundaryFn :: "(nat \<Rightarrow> string + u32) option"
  e_sharedLag :: bool
  e_fuel :: nat

type_synonym 'a io = "world \<Rightarrow> (ing_error + 'a) \<times> world"

definition ret :: "'a \<Rightarrow> 'a io" where
  "ret x w = (Inr x, w)"

definition raise :: "ing_error \<Rightarrow> 'a io" where
  "raise err w = (Inl err, w)"

definition bindE :: "'a io \<Rightarrow> ('a \<Rightarrow> 'b io) \<Rightarrow> 'b io" where
  "bindE m f w = (case m w of (Inl err, w') \<Rightarrow> (Inl err, w') | (Inr x, w') \<Rightarrow> f x w')"

text \<open>Running a computation whose error the caller inspects or ignores.\<close>

definition attempt :: "'a io \<Rightarrow> (ing_error + 'a) io" where
  "attempt m w = (case m w of (r, w') \<Rightarrow> (Inr r, w'))"

definition update :: "(world \<Rightarrow> world) \<Rightarrow> unit io" where
  "update f w = (Inr (), f w)"

definition gets :: "(world \<Rightarrow> 'a) \<Rightarrow> 'a io" where
  "gets f w = (Inr (f w), w)"

definition ticked :: "world \<Rightarrow> world" where
  "ticked w = w\<lparr>w_tick := Suc (w_tick w)\<rparr>"

text \<open>A store call that reads, and one that writes.\<close>

definition db_read :: "env \<Rightarrow> (db \<Rightarrow> 'a) \<Rightarrow> 'a io" where
  "db_read env f w =
     (case e_fault env (w_tick w) of
        Some (err, _) \<Rightarrow> (Inl (ErrStore err), ticked w)
      | None \<Rightarrow> (Inr (f (w_db w)), ticked w))"

definition db_write :: "env \<Rightarrow> (db \<Rightarrow> 'a \<times> db) \<Rightarrow> 'a io" where
  "db_write env f w =
     (case e_fault env (w_tick w) of
        Some (err, applied) \<Rightarrow>
          (Inl (ErrStore err), if applied then ticked (w\<lparr>w_db := snd (f (w_db w))\<rparr>) else ticked w)
      | None \<Rightarrow> (Inr (fst (f (w_db w))), ticked (w\<lparr>w_db := snd (f (w_db w))\<rparr>)))"

text \<open>RPC calls; the caller sees the error.\<close>

definition GetEvents :: "env \<Rightarrow> get_events_request \<Rightarrow> (rpc_error + get_events_response) io" where
  "GetEvents env req w = (Inr (e_getEvents env (w_tick w) req), ticked w)"

definition GetHealth :: "env \<Rightarrow> health io" where
  "GetHealth env w =
     (case e_getHealth env (w_tick w) of
        Inl err \<Rightarrow> (Inl (ErrRPC err), ticked w)
      | Inr hl \<Rightarrow> (Inr hl, ticked w))"

definition archive_boundary :: "env \<Rightarrow> (string + u32) option io" where
  "archive_boundary env w =
     (Inr (map_option (\<lambda>f. f (w_tick w)) (e_archiveBoundaryFn env)), ticked w)"

section \<open>Reorg handling\<close>

definition getIngestionState :: "env \<Rightarrow> ingestion_state option io" where
  "getIngestionState env = db_read env (GetIngestionStateForNetwork (o_Network (e_opts env)))"

definition BuildFilterBatches :: "env \<Rightarrow> rpc_filter list list io" where
  "BuildFilterBatches env =
     bindE (db_read env ListWatchedContracts) (\<lambda>watched.
       ret (buildFilterBatches (o_Network (e_opts env)) watched))"

text \<open>The paging loop of \<^verbatim>\<open>collectBatchEventsInRange\<close>; \<^const>\<open>Inl\<close> when the range is out of
  retention.\<close>

fun collect_pages ::
  "env \<Rightarrow> u32 \<Rightarrow> u32 \<Rightarrow> rpc_filter list \<Rightarrow> nat \<Rightarrow> string \<Rightarrow> rpc_event list
   \<Rightarrow> (rpc_error + rpc_event list) io" where
  "collect_pages env fromLedger toLedger batch 0 cursor collected = raise Diverged"
| "collect_pages env fromLedger toLedger batch (Suc fuel) cursor collected =
     bindE (GetEvents env \<lparr>rq_StartLedger = fromLedger, rq_EndLedger = toLedger + 1, rq_Filters = batch,
              rq_Cursor = cursor, rq_Limit = o_PageLimit (e_opts env)\<rparr>) (\<lambda>r.
       case r of
         Inl err \<Rightarrow> if IsLedgerOutOfRange err then ret (Inl err) else raise (ErrRPC err)
       | Inr resp \<Rightarrow>
           let events = rs_Events resp;
               collected = collected @ filter (\<lambda>e. re_Ledger e \<le> toLedger) events
           in if events = [] then ret (Inr collected)
              else if length events < o_PageLimit (e_opts env) \<and> rs_Cursor resp = [] then ret (Inr collected)
              else if re_Ledger (last events) > toLedger then ret (Inr collected)
              else let nxt = (if rs_Cursor resp = [] then CursorValue (last events) else rs_Cursor resp)
                   in if nxt = cursor then ret (Inr collected)
                      else collect_pages env fromLedger toLedger batch fuel nxt collected)"

text \<open>The loop that converts what was collected.\<close>

fun convert_events :: "env \<Rightarrow> rpc_event list \<Rightarrow> ing_error + event list" where
  "convert_events env [] = Inr []"
| "convert_events env (re # res) =
     (if re_ContractID re \<in> set (o_SkipContracts (e_opts env)) then convert_events env res
      else case toStoreEvent (e_EventTopicsValue env) re of
          Inl err \<Rightarrow> Inl (ErrDecode err)
        | Inr ev \<Rightarrow>
            (case convert_events env res of
               Inl err \<Rightarrow> Inl err
             | Inr evs \<Rightarrow> Inr (ev\<lparr>ev_Network := o_Network (e_opts env)\<rparr> # evs)))"

definition collectBatchEventsInRange ::
  "env \<Rightarrow> u32 \<Rightarrow> u32 \<Rightarrow> rpc_filter list \<Rightarrow> bool \<Rightarrow> (event list \<times> bool) io" where
  "collectBatchEventsInRange env fromLedger toLedger batch allowOutOfRange =
     bindE (collect_pages env fromLedger toLedger batch (e_fuel env) [] []) (\<lambda>r.
       case r of
         Inl err \<Rightarrow> if allowOutOfRange then ret ([], True) else raise (ErrRPC err)
       | Inr collected \<Rightarrow>
           (case convert_events env collected of
              Inl err \<Rightarrow> raise err
            | Inr evs \<Rightarrow> ret (evs, False)))"

fun collect_batches ::
  "env \<Rightarrow> u32 \<Rightarrow> u32 \<Rightarrow> bool \<Rightarrow> rpc_filter list list \<Rightarrow> (event list \<times> bool) io" where
  "collect_batches env fromLedger toLedger allow [] = ret ([], False)"
| "collect_batches env fromLedger toLedger allow (b # bs) =
     bindE (collectBatchEventsInRange env fromLedger toLedger b allow) (\<lambda>(evs, outOfRange).
       if outOfRange then ret ([], True)
       else bindE (collect_batches env fromLedger toLedger allow bs) (\<lambda>(more, out).
              ret (if out then ([], True) else (evs @ more, False))))"

definition address_refs :: "event list \<Rightarrow> store_address_ref list" where
  "address_refs events =
     concat (map (\<lambda>ev. map (\<lambda>r. \<lparr>ar_Address = ref_Address r, ar_EventID = ev_ID ev, ar_Role = ref_Role r\<rparr>)
                        (AppendAddresses [] (ev_ID ev) (ev_Topics ev) (ev_Value ev))) events)"

definition ledger_events :: "event list \<Rightarrow> u32 \<Rightarrow> event list" where
  "ledger_events events l = filter (\<lambda>ev. ev_Ledger ev > 0 \<and> of_int (ev_Ledger ev) = l) events"

text \<open>The fingerprints of \<open>[fromLedger, maxTrack]\<close>, for \<open>maxTrack\<close> below the largest word.\<close>

definition track_range :: "event list \<Rightarrow> u32 \<Rightarrow> u32 \<Rightarrow> reorg_tracker \<Rightarrow> reorg_tracker" where
  "track_range events fromLedger maxTrack rt =
     fold (\<lambda>l rt. snd (RecordLedgerHash l (ComputeLedgerFingerprint l (ledger_events events l)) rt))
       (map of_int [uint fromLedger..uint maxTrack]) rt"

definition zero_reconcile :: "u32 \<Rightarrow> u32 \<Rightarrow> event list \<Rightarrow> reorg_result" where
  "zero_reconcile fromLedger toLedger events =
     zero_result\<lparr>rr_FromLedger := uint fromLedger, rr_ToLedger := uint toLedger,
       rr_InsertedEventIDs := map ev_ID events\<rparr>"

definition reconcile_opts :: "env \<Rightarrow> u32 \<Rightarrow> u32 \<Rightarrow> u32 \<Rightarrow> event list \<Rightarrow> reorg_options" where
  "reconcile_opts env fromLedger toLedger newHeadLedger events =
     \<lparr>ro_Network = o_Network (e_opts env), ro_FromLedger = uint fromLedger, ro_ToLedger = uint toLedger,
      ro_CanonicalEvents = events, ro_CanonicalAddressRefs = address_refs events,
      ro_NewHeadLedger = uint newHeadLedger, ro_RewindCursorsToFromLedger = False\<rparr>"

definition after_reconcile ::
  "env \<Rightarrow> u32 \<Rightarrow> u32 \<Rightarrow> u32 \<Rightarrow> event list \<Rightarrow> reorg_result \<Rightarrow> world \<Rightarrow> world" where
  "after_reconcile env fromLedger toLedger newHeadLedger events res w =
     (let rollback = (newHeadLedger > 0 \<and> newHeadLedger < toLedger);
          rt = (if rollback then ResetAbove newHeadLedger (w_tracker w) else w_tracker w);
          maxTrack = (if rollback then newHeadLedger else toLedger);
          w = w\<lparr>w_tracker := track_range events fromLedger maxTrack rt\<rparr>
      in if rr_RetractedEventIDs res \<noteq> []
         then w\<lparr>w_notices := w_notices w @ [\<lparr>n_Network = o_Network (e_opts env), n_FromLedger = fromLedger,
                  n_ToLedger = toLedger, n_NewHeadLedger = newHeadLedger,
                  n_RetractedEventIDs = rr_RetractedEventIDs res,
                  n_ReplacementEventIDs = rr_InsertedEventIDs res, n_ReplacementEvents = events\<rparr>]\<rparr>
         else w)"

definition executeReorgPass :: "env \<Rightarrow> u32 \<Rightarrow> u32 \<Rightarrow> u32 \<Rightarrow> reorg_result io" where
  "executeReorgPass env fromLedger toLedger newHeadLedger =
     bindE (BuildFilterBatches env) (\<lambda>filters.
     bindE (collect_batches env fromLedger toLedger False filters) (\<lambda>(allStoreEvents, _).
       let events = removeDuplicateEvents allStoreEvents;
           events = (if newHeadLedger > 0 \<and> newHeadLedger < toLedger
                     then filter (\<lambda>ev. (of_int (ev_Ledger ev) :: u32) \<le> newHeadLedger) events else events)
       in if o_DryRun (e_opts env) then ret (zero_reconcile fromLedger toLedger events)
          else bindE (db_write env
                       (ReconcileReorgRange pg_ReconcileReorgTx
                          (reconcile_opts env fromLedger toLedger newHeadLedger events))) (\<lambda>r.
                 case r of
                   Inl err \<Rightarrow> raise (ErrReconcile err)
                 | Inr res \<Rightarrow>
                     bindE (update (after_reconcile env fromLedger toLedger newHeadLedger events res)) (\<lambda>_.
                       ret res))))"

definition HandleReorgRange :: "env \<Rightarrow> u32 \<Rightarrow> u32 \<Rightarrow> u32 \<Rightarrow> reorg_result io" where
  "HandleReorgRange env fromLedger toLedger newHeadLedger =
     (if fromLedger = 0 \<or> toLedger = 0 \<or> fromLedger > toLedger
      then raise (ErrHandleReorg (InvalidRange fromLedger toLedger))
      else
        bindE (archive_boundary env) (\<lambda>fn.
        case archive_check (e_archivedThrough env) fn fromLedger toLedger of
          Inl err \<Rightarrow> raise (ErrHandleReorg err)
        | Inr _ \<Rightarrow>
            bindE (attempt (getIngestionState env)) (\<lambda>st.
            bindE (gets w_tracker) (\<lambda>rt.
              case depth_check (case st of Inl _ \<Rightarrow> None | Inr s \<Rightarrow> s) rt fromLedger toLedger of
                Inl err \<Rightarrow> raise (ErrHandleReorg err)
              | Inr _ \<Rightarrow> executeReorgPass env fromLedger toLedger newHeadLedger))))"

definition maybeHandleTipRegression :: "env \<Rightarrow> u32 \<Rightarrow> bool io" where
  "maybeHandleTipRegression env latestLedger =
     (if o_DryRun (e_opts env) \<or> o_ReorgConfirmationWindow (e_opts env) = 0 \<or> latestLedger = 0 then ret False
      else
        bindE (gets (\<lambda>w. CheckTipRegression latestLedger (w_tracker w))) (\<lambda>(regressed, fromLedger, toLedger).
        bindE (attempt (getIngestionState env)) (\<lambda>st.
          let ahead = (case st of
                 Inr (Some s) \<Rightarrow> if is_LastIngestedLedger s > uint latestLedger
                                 then Some (of_int (is_LastIngestedLedger s)) else None
               | _ \<Rightarrow> None);
              (regressed, fromLedger, toLedger) =
                (case ahead of
                   None \<Rightarrow> (regressed, fromLedger, toLedger)
                 | Some persistedHead \<Rightarrow>
                     if \<not> regressed then (True, latestLedger + 1, persistedHead)
                     else (regressed, fromLedger, if persistedHead > toLedger then persistedHead else toLedger))
          in if \<not> regressed then ret False
             else bindE (HandleReorgRange env fromLedger toLedger latestLedger) (\<lambda>_. ret True))))"

text \<open>The ledgers of a page in ascending order, and the loop that records their fingerprints.\<close>

definition seen_ledgers :: "event list \<Rightarrow> u32 list" where
  "seen_ledgers events = sort (remdups (map (\<lambda>ev. of_int (ev_Ledger ev)) (filter (\<lambda>ev. ev_Ledger ev > 0) events)))"

definition record_page ::
  "event list \<Rightarrow> reorg_tracker \<Rightarrow> (u32 \<times> u32) \<times> reorg_tracker" where
  "record_page events rt =
     fold (\<lambda>l ((divergedFrom, divergedTo), rt).
             let ((mismatch, _), rt) =
                   RecordLedgerHash l (ComputeLedgerFingerprint l (ledger_events events l)) rt
             in if mismatch
                then ((if divergedFrom = 0 \<or> l < divergedFrom then l else divergedFrom,
                       if l > divergedTo then l else divergedTo), rt)
                else ((divergedFrom, divergedTo), rt))
       (seen_ledgers events) ((0, 0), rt)"

definition recordIngestedLedgerFingerprints :: "env \<Rightarrow> event list \<Rightarrow> u32 \<Rightarrow> bool \<Rightarrow> unit io" where
  "recordIngestedLedgerFingerprints env events latestLedger checkDivergence =
     (if events = [] then ret ()
      else
        bindE (gets (\<lambda>w. record_page events (w_tracker w))) (\<lambda>((divergedFrom, divergedTo), rt).
        bindE (update (\<lambda>w. w\<lparr>w_tracker := rt\<rparr>)) (\<lambda>_.
          if checkDivergence \<and> divergedFrom > 0 \<and> o_ReorgConfirmationWindow (e_opts env) > 0
             \<and> \<not> o_DryRun (e_opts env)
          then let highest = rt_highestLedger rt;
                   to = (if highest > divergedTo then highest else divergedTo)
               in bindE (HandleReorgRange env divergedFrom to latestLedger) (\<lambda>_. ret ())
          else ret ())))"

section \<open>Persisting a page\<close>

definition add_skipped :: "unit io" where
  "add_skipped = update (\<lambda>w. w\<lparr>w_skipped := w_skipped w + 1\<rparr>)"

definition recordDeadLetter :: "env \<Rightarrow> dead_letter_input \<Rightarrow> unit io" where
  "recordDeadLetter env inp = db_write env (\<lambda>d. ((), DeadLetterEvent inp d))"

text \<open>The text of an error as the dead letter stores it; only its presence matters here.\<close>

definition fault_text :: "ing_error \<Rightarrow> string" where
  "fault_text err = (case err of ErrDecode m \<Rightarrow> m | _ \<Rightarrow> ''store'')"

definition rpc_dead_letter :: "rpc_event \<Rightarrow> string \<Rightarrow> dead_letter_input" where
  "rpc_dead_letter re err =
     \<lparr>in_EventID = re_ID re, in_ContractID = re_ContractID re, in_Ledger = uint (re_Ledger re),
      in_Type = re_Type re, in_TxHash = re_TxHash re, in_TopicXDR = re_Topic re, in_ValueXDR = re_Value re,
      in_Err = err\<rparr>"

definition store_dead_letter :: "event \<Rightarrow> string \<Rightarrow> dead_letter_input" where
  "store_dead_letter ev err =
     \<lparr>in_EventID = ev_ID ev, in_ContractID = ev_ContractID ev, in_Ledger = ev_Ledger ev,
      in_Type = ev_Type ev, in_TxHash = ev_TxHash ev, in_TopicXDR = ev_RawTopicXDR ev,
      in_ValueXDR = ev_RawValueXDR ev, in_Err = err\<rparr>"

fun decode_events :: "env \<Rightarrow> rpc_event list \<Rightarrow> event list io" where
  "decode_events env [] = ret []"
| "decode_events env (re # res) =
     (if re_ContractID re \<in> set (o_SkipContracts (e_opts env))
      then bindE add_skipped (\<lambda>_. decode_events env res)
      else case toStoreEvent (e_EventTopicsValue env) re of
          Inr ev \<Rightarrow> bindE (decode_events env res) (\<lambda>evs. ret (ev # evs))
        | Inl err \<Rightarrow>
            if o_DryRun (e_opts env) then decode_events env res
            else if \<not> e_deadLetterSink env then raise (ErrDecode err)
            else bindE (recordDeadLetter env (rpc_dead_letter re err)) (\<lambda>_.
                 bindE add_skipped (\<lambda>_. decode_events env res)))"

definition is_permanent :: "ing_error \<Rightarrow> bool" where
  "is_permanent err = (case err of ErrStore f \<Rightarrow> IsPermanentEventError f | _ \<Rightarrow> False)"

fun isolate :: "env \<Rightarrow> event list \<Rightarrow> int io" where
  "isolate env [] = ret 0"
| "isolate env (ev # evs) =
     bindE (attempt (db_write env (UpsertEvents [ev]))) (\<lambda>r.
       case r of
         Inr n \<Rightarrow> bindE (isolate env evs) (\<lambda>m. ret (n + m))
       | Inl err \<Rightarrow>
           if \<not> is_permanent err then raise err
           else bindE (recordDeadLetter env (store_dead_letter ev (fault_text err))) (\<lambda>_.
                bindE add_skipped (\<lambda>_. isolate env evs)))"

definition upsertChunkWithIsolation :: "env \<Rightarrow> event list \<Rightarrow> int io" where
  "upsertChunkWithIsolation env chunk =
     bindE (attempt (db_write env (UpsertEvents chunk))) (\<lambda>r.
       case r of
         Inr inserted \<Rightarrow> ret inserted
       | Inl err \<Rightarrow>
           if \<not> e_deadLetterSink env \<or> \<not> is_permanent err then raise err else isolate env chunk)"

text \<open>The chunked write; a chunk size below one would never make progress.\<close>

function write_chunks :: "env \<Rightarrow> batch_controller \<Rightarrow> event list \<Rightarrow> int io" where
  "write_chunks env bc events =
     (if events = [] then ret 0
      else if bc_cur bc \<le> 0 then raise Diverged
      else
        let n = nat (bc_cur bc); chunk = take n events; rest = drop n events
        in bindE (gets w_tick) (\<lambda>begin.
           bindE (upsertChunkWithIsolation env chunk) (\<lambda>got.
             let (backoff, bc') = recordAndBackoff (int (length chunk)) (e_latency env begin) bc
             in if backoff > 0 \<and> rest \<noteq> [] \<and> \<not> e_sleeps env begin then raise ErrCanceled
                else bindE (write_chunks env bc' rest) (\<lambda>more. ret (got + more)))))"
  by pat_completeness auto
termination
  by (relation "measure (\<lambda>(env, bc, events). length events)") auto

declare write_chunks.simps [simp del]

definition writeEventsPersist :: "env \<Rightarrow> event list \<Rightarrow> int io" where
  "writeEventsPersist env events =
     (if events = [] then ret 0
      else if o_DryRun (e_opts env) then ret 0
      else if o_BatchSize (e_opts env) = 0 then upsertChunkWithIsolation env events
      else write_chunks env (newBatchController (e_opts env)) events)"

definition indexEventAddresses :: "env \<Rightarrow> event list \<Rightarrow> unit io" where
  "indexEventAddresses env events =
     (if o_DryRun (e_opts env) then ret ()
      else if events = [] then ret ()
      else let refs = address_refs events
           in if refs = [] then ret ()
              else db_write env (\<lambda>d. ((), UpsertAddressRefs refs d)))"

definition persistEventBatch :: "env \<Rightarrow> event list \<Rightarrow> unit io" where
  "persistEventBatch env events =
     (if o_DryRun (e_opts env) then ret ()
      else
        bindE (writeEventsPersist env events) (\<lambda>_.
        bindE (update (\<lambda>w. w\<lparr>w_written := w_written w + int (length events)\<rparr>)) (\<lambda>_.
        bindE (attempt (indexEventAddresses env events)) (\<lambda>_.
          update (\<lambda>w. w\<lparr>w_published := w_published w @ [events]\<rparr>)))))"

fun persist_batches :: "env \<Rightarrow> event list list \<Rightarrow> unit io" where
  "persist_batches env [] = ret ()"
| "persist_batches env (b # bs) = bindE (persistEventBatch env b) (\<lambda>_. persist_batches env bs)"

definition persistEventsWithReorgCheck :: "env \<Rightarrow> rpc_event list \<Rightarrow> u32 \<Rightarrow> bool \<Rightarrow> unit io" where
  "persistEventsWithReorgCheck env rpcEvents latestLedger checkDivergence =
     (if rpcEvents = [] then ret ()
      else
        bindE (decode_events env rpcEvents) (\<lambda>decoded.
          let events = removeDuplicateEvents decoded
          in bindE (persist_batches env (slices (o_WriteBatchSize (e_opts env)) events)) (\<lambda>_.
               if o_DryRun (e_opts env) then ret ()
               else recordIngestedLedgerFingerprints env events latestLedger checkDivergence)))"

definition persistEvents :: "env \<Rightarrow> rpc_event list \<Rightarrow> u32 \<Rightarrow> unit io" where
  "persistEvents env rpcEvents latestLedger = persistEventsWithReorgCheck env rpcEvents latestLedger False"

section \<open>Positions\<close>

definition setDryRunPosition :: "env \<Rightarrow> string \<Rightarrow> int \<Rightarrow> unit io" where
  "setDryRunPosition env cursor lastIngestedLedger =
     (if \<not> o_DryRun (e_opts env) then ret ()
      else update (\<lambda>w. w\<lparr>w_dryRunPosition := Some (cursor, lastIngestedLedger)\<rparr>))"

definition cold_start :: "env \<Rightarrow> (u32 \<times> string) io" where
  "cold_start env =
     bindE (GetHealth env) (\<lambda>hl.
       let opts = e_opts env;
           resolved =
             (if o_StartLedger opts > 0 then Some (o_StartLedger opts)
              else if o_StartLedgerRaw opts \<noteq> [] then resolveStartLedgerRaw (o_StartLedgerRaw opts) hl
              else let start = uint (h_LatestLedger hl) - uint (o_RetentionLedgers opts);
                       start = max start (uint (h_OldestLedger hl))
                   in Some (of_int (max start 2)))
       in case resolved of
           None \<Rightarrow> raise (ErrStartLedgerRaw (o_StartLedgerRaw opts))
         | Some r \<Rightarrow>
             if (o_StartLedger opts > 0 \<or> o_StartLedgerRaw opts \<noteq> [])
                \<and> h_OldestLedger hl > 0 \<and> r < h_OldestLedger hl
             then raise (ErrBelowOldest r (h_OldestLedger hl))
             else let r = (if r < 2 then 2 else r)
                  in bindE (setDryRunPosition env [] (uint r - 1)) (\<lambda>_. ret (r, [])))"

definition resolvePosition :: "env \<Rightarrow> (u32 \<times> string) io" where
  "resolvePosition env =
     bindE (gets w_dryRunPosition) (\<lambda>pos.
     bindE (gets w_startOverrideApplied) (\<lambda>applied.
       let opts = e_opts env
       in case (if o_DryRun opts then pos else None) of
           Some (cursor, l) \<Rightarrow> if cursor \<noteq> [] then ret (0, cursor) else ret (of_int l + 1, [])
         | None \<Rightarrow>
             if \<not> applied \<and> o_StartLedger opts > 0
             then bindE (update (\<lambda>w. w\<lparr>w_startOverrideApplied := True\<rparr>)) (\<lambda>_.
                  bindE (GetHealth env) (\<lambda>hl.
                    if h_OldestLedger hl > 0 \<and> o_StartLedger opts < h_OldestLedger hl
                    then raise (ErrBelowOldest (o_StartLedger opts) (h_OldestLedger hl))
                    else ret (o_StartLedger opts, [])))
             else bindE (getIngestionState env) (\<lambda>st.
                    case st of
                      None \<Rightarrow> cold_start env
                    | Some s \<Rightarrow>
                        if is_LastCursor s \<noteq> []
                        then bindE (setDryRunPosition env (is_LastCursor s) (is_LastIngestedLedger s)) (\<lambda>_.
                               ret (0, is_LastCursor s))
                        else if is_LastIngestedLedger s > 0
                        then bindE (setDryRunPosition env [] (is_LastIngestedLedger s)) (\<lambda>_.
                               ret (of_int (is_LastIngestedLedger s) + 1, []))
                        else cold_start env)))"

fun save_cursors :: "env \<Rightarrow> contract_cursor list \<Rightarrow> unit io" where
  "save_cursors env [] = ret ()"
| "save_cursors env (c # cs) =
     bindE (db_write env (\<lambda>d. ((), SaveContractCursor c d))) (\<lambda>_. save_cursors env cs)"

definition reclampToOldest :: "env \<Rightarrow> string list \<Rightarrow> unit io" where
  "reclampToOldest env contractIDs =
     bindE (GetHealth env) (\<lambda>hl.
       let clamped = uint (h_OldestLedger hl) - 1
       in if contractIDs \<noteq> []
          then if o_DryRun (e_opts env) then ret ()
               else save_cursors env (map (\<lambda>i. \<lparr>cc_ContractID = i, cc_LastIngestedLedger = clamped,
                                                cc_LastCursor = []\<rparr>) contractIDs)
          else if o_DryRun (e_opts env) then setDryRunPosition env [] clamped
          else db_write env (\<lambda>d. ((), SaveIngestionState
                 \<lparr>is_Network = o_Network (e_opts env), is_LastIngestedLedger = clamped, is_LastCursor = [],
                  is_LastSuccessfulPoll = None\<rparr> d)))"

definition discardCursor :: "env \<Rightarrow> unit io" where
  "discardCursor env =
     (if o_DryRun (e_opts env)
      then bindE (gets w_dryRunPosition) (\<lambda>pos.
             case pos of
               None \<Rightarrow> ret ()
             | Some (cursor, l) \<Rightarrow> if cursor = [] then ret () else setDryRunPosition env [] l)
      else
        bindE (attempt (getIngestionState env)) (\<lambda>st.
          case st of
            Inr (Some s) \<Rightarrow>
              if is_LastCursor s = [] then ret ()
              else bindE (attempt (db_write env (\<lambda>d. ((), SaveIngestionState
                     \<lparr>is_Network = o_Network (e_opts env), is_LastIngestedLedger = is_LastIngestedLedger s,
                      is_LastCursor = [], is_LastSuccessfulPoll = None\<rparr> d)))) (\<lambda>_. ret ())
          | _ \<Rightarrow> ret ()))"

definition coldStartPosition :: "env \<Rightarrow> u32 io" where
  "coldStartPosition env = bindE (resolvePosition env) (\<lambda>(startLedger, _). ret startLedger)"

definition resolveContractPosition :: "env \<Rightarrow> string \<Rightarrow> u32 io" where
  "resolveContractPosition env contractID =
     bindE (db_read env (GetContractCursor contractID)) (\<lambda>cc.
       case cc of
         None \<Rightarrow> coldStartPosition env
       | Some c \<Rightarrow>
           if cc_LastIngestedLedger c > 0 then ret (of_int (cc_LastIngestedLedger c) + 1)
           else coldStartPosition env)"

fun resolve_earliest :: "env \<Rightarrow> u32 \<Rightarrow> string list \<Rightarrow> u32 io" where
  "resolve_earliest env earliest [] = ret earliest"
| "resolve_earliest env earliest (i # ids) =
     bindE (resolveContractPosition env i) (\<lambda>start.
       resolve_earliest env (if earliest = 0 \<or> start < earliest then start else earliest) ids)"

definition resolveBatchStart :: "env \<Rightarrow> string list \<Rightarrow> u32 io" where
  "resolveBatchStart env contractIDs = resolve_earliest env 0 contractIDs"

definition earliestStartLedger :: "env \<Rightarrow> u32 io" where
  "earliestStartLedger env =
     bindE (db_read env ListWatchedContracts) (\<lambda>watched.
     bindE (resolve_earliest env 0 (map wc_ContractID watched)) (\<lambda>earliest.
       if earliest = 0 then coldStartPosition env else ret earliest))"

text \<open>
  The latest event of each contract of a page, in the order in which the contracts appear; Go
  ranges over the map in an unspecified one.
\<close>

definition latest_step ::
  "rpc_event \<Rightarrow> (string \<Rightarrow> u32 \<times> string) \<Rightarrow> (string \<Rightarrow> u32 \<times> string)" where
  "latest_step e m =
     (let (ledger, cursor) = m (re_ContractID e)
      in if re_Ledger e > ledger \<or> (re_Ledger e = ledger \<and> CursorValue e > cursor)
         then m(re_ContractID e := (re_Ledger e, CursorValue e)) else m)"

definition latest_cursors :: "rpc_event list \<Rightarrow> contract_cursor list" where
  "latest_cursors events =
     (let m = fold latest_step events (\<lambda>_. (0, []))
      in map (\<lambda>i. \<lparr>cc_ContractID = i, cc_LastIngestedLedger = uint (fst (m i)), cc_LastCursor = snd (m i)\<rparr>)
           (filter (\<lambda>i. m i \<noteq> (0, [])) (rev (remdups (rev (map re_ContractID events))))))"

definition advanceContractCursors :: "env \<Rightarrow> rpc_event list \<Rightarrow> unit io" where
  "advanceContractCursors env events =
     (if events = [] then ret () else save_cursors env (latest_cursors events))"

section \<open>Cycles\<close>

definition page_request :: "u32 \<Rightarrow> rpc_filter list \<Rightarrow> string \<Rightarrow> nat \<Rightarrow> get_events_request" where
  "page_request startLedger filters cursor limit =
     \<lparr>rq_StartLedger = startLedger, rq_EndLedger = 0, rq_Filters = filters, rq_Cursor = cursor, rq_Limit = limit\<rparr>"

definition add_fetched :: "nat \<Rightarrow> unit io" where
  "add_fetched n = update (\<lambda>w. w\<lparr>w_fetched := w_fetched w + int n\<rparr>)"

text \<open>What \<^verbatim>\<open>singlePage\<close> does with a page once it is not a regression.\<close>

definition page_state :: "env \<Rightarrow> u32 \<Rightarrow> get_events_response \<Rightarrow> instant \<Rightarrow> ingestion_state \<times> bool" where
  "page_state env startLedger resp now =
     (let (state, caughtUp) = nextState now resp (effectivePageLimit (e_opts env));
          state = (if is_LastCursor state = [] \<and> is_LastIngestedLedger state \<le> 0
                   then state\<lparr>is_LastIngestedLedger := uint startLedger - 1\<rparr> else state)
      in (state\<lparr>is_Network := o_Network (e_opts env)\<rparr>, caughtUp))"

definition save_page :: "env \<Rightarrow> u32 \<Rightarrow> string \<Rightarrow> get_events_response \<Rightarrow> bool io" where
  "save_page env startLedger cursor resp =
     bindE (add_fetched (length (rs_Events resp))) (\<lambda>_.
     bindE (gets (\<lambda>w. e_now env (w_tick w))) (\<lambda>now.
       let (state, caughtUp) = page_state env startLedger resp now
       in bindE (persistEventsWithReorgCheck env (rs_Events resp) (rs_LatestLedger resp)
                   (caughtUp \<and> cursor = [])) (\<lambda>_.
          bindE (if o_DryRun (e_opts env)
                 then setDryRunPosition env (is_LastCursor state) (is_LastIngestedLedger state)
                 else db_write env (\<lambda>d. ((), SaveIngestionState state d))) (\<lambda>_.
            ret caughtUp))))"

definition singlePage :: "env \<Rightarrow> u32 \<Rightarrow> string \<Rightarrow> rpc_filter list \<Rightarrow> bool io" where
  "singlePage env startLedger cursor filters =
     bindE (GetEvents env (page_request startLedger filters cursor (effectivePageLimit (e_opts env)))) (\<lambda>r.
       case r of
         Inl err \<Rightarrow>
           if IsFailoverReanchor err then bindE (discardCursor env) (\<lambda>_. raise (ErrRPC err))
           else if IsLedgerOutOfRange err then bindE (reclampToOldest env []) (\<lambda>_. ret False)
           else raise (ErrRPC err)
       | Inr resp \<Rightarrow>
           bindE (maybeHandleTipRegression env (rs_LatestLedger resp)) (\<lambda>regressed.
             if regressed then ret True else save_page env startLedger cursor resp))"

definition singlePageWatched :: "env \<Rightarrow> rpc_filter list \<Rightarrow> bool io" where
  "singlePageWatched env filters =
     bindE (resolveBatchStart env (contractIDsFromFilters filters)) (\<lambda>startLedger.
     let limit = effectivePageLimit (e_opts env)
     in bindE (GetEvents env (page_request startLedger filters [] limit)) (\<lambda>r.
       case r of
         Inl err \<Rightarrow>
           if IsFailoverReanchor err then bindE (discardCursor env) (\<lambda>_. raise (ErrRPC err))
           else if IsLedgerOutOfRange err
           then bindE (reclampToOldest env (contractIDsFromFilters filters)) (\<lambda>_. ret False)
           else raise (ErrRPC err)
       | Inr resp \<Rightarrow>
           bindE (maybeHandleTipRegression env (rs_LatestLedger resp)) (\<lambda>regressed.
             if regressed then ret True
             else
               bindE (add_fetched (length (rs_Events resp))) (\<lambda>_.
               let caughtUp = (length (rs_Events resp) < limit)
               in bindE (persistEventsWithReorgCheck env (rs_Events resp) (rs_LatestLedger resp) caughtUp) (\<lambda>_.
                  bindE (advanceContractCursors env (rs_Events resp)) (\<lambda>_. ret caughtUp))))))"

definition ReingestRange :: "env \<Rightarrow> u32 \<Rightarrow> u32 \<Rightarrow> nat io" where
  "ReingestRange env fromLedger toLedger =
     (if fromLedger > toLedger then raise (ErrReingestRange fromLedger toLedger)
      else
        bindE (archive_boundary env) (\<lambda>fn.
        case archive_check (e_archivedThrough env) fn fromLedger toLedger of
          Inl err \<Rightarrow> raise (ErrHandleReorg err)
        | Inr _ \<Rightarrow>
            bindE (BuildFilterBatches env) (\<lambda>filters.
            bindE (collect_batches env fromLedger toLedger True filters) (\<lambda>(allStoreEvents, outOfRange).
              if outOfRange then ret 0
              else let events = removeDuplicateEvents allStoreEvents
                   in if o_DryRun (e_opts env) then ret (length events)
                      else bindE (db_write env (\<lambda>d.
                             ((), ReplaceEventsInRange events (uint fromLedger) (uint toLedger) d))) (\<lambda>_.
                           bindE (attempt (indexEventAddresses env events)) (\<lambda>_. ret (length events)))))))"

definition rescanForReorg :: "env \<Rightarrow> unit io" where
  "rescanForReorg env =
     (if o_DryRun (e_opts env) then ret ()
      else
        bindE (getIngestionState env) (\<lambda>st.
          case st of
            None \<Rightarrow> ret ()
          | Some s \<Rightarrow>
              if is_LastIngestedLedger s \<le> 0 then ret ()
              else let frontier = of_int (is_LastIngestedLedger s);
                       window = o_ReorgConfirmationWindow (e_opts env)
                   in if frontier \<le> window then ret ()
                      else let to = frontier - 1; fromLedger = to - window + 1
                           in bindE (ReingestRange env fromLedger to) (\<lambda>_. ret ())))"

subsection \<open>Window sweeps\<close>

text \<open>\<open>remaining\<close> is the cycle's event budget, \<^const>\<open>None\<close> without a cap; the result carries the
  budget left and whether it ran out.\<close>

fun sweepBatch ::
  "env \<Rightarrow> u32 \<Rightarrow> u32 \<Rightarrow> rpc_filter list \<Rightarrow> nat \<Rightarrow> string \<Rightarrow> int option \<Rightarrow> (int option \<times> bool) io" where
  "sweepBatch env start end filters 0 cursor remaining = raise Diverged"
| "sweepBatch env start end filters (Suc fuel) cursor remaining =
     (if (case remaining of None \<Rightarrow> False | Some r \<Rightarrow> r \<le> 0) then ret (remaining, True)
      else
        let limit = (case remaining of
               None \<Rightarrow> o_PageLimit (e_opts env)
             | Some r \<Rightarrow> nat (min (int (o_PageLimit (e_opts env))) r))
        in bindE (GetEvents env \<lparr>rq_StartLedger = start, rq_EndLedger = end + 1, rq_Filters = filters,
                    rq_Cursor = cursor, rq_Limit = limit\<rparr>) (\<lambda>r.
           case r of
             Inl err \<Rightarrow>
               if IsLedgerOutOfRange err then raise (ErrRPC err)
               else if IsFailoverReanchor err then bindE (discardCursor env) (\<lambda>_. raise (ErrRPC err))
               else raise (ErrRPC err)
           | Inr resp \<Rightarrow>
               let events = rs_Events resp
               in bindE (add_fetched (length events)) (\<lambda>_.
                  bindE (persistEvents env events (rs_LatestLedger resp)) (\<lambda>_.
                    let remaining = map_option (\<lambda>r. r - int (length events)) remaining
                    in if events = [] then ret (remaining, False)
                       else if re_Ledger (last events) > end then ret (remaining, False)
                       else let nxt = (if rs_Cursor resp = [] then CursorValue (last events) else rs_Cursor resp)
                            in if length events < limit \<and> rs_Cursor resp = [] then ret (remaining, False)
                               else if nxt = cursor then ret (remaining, False)
                               else sweepBatch env start end filters fuel nxt remaining))))"

fun sweep_batches ::
  "env \<Rightarrow> u32 \<Rightarrow> u32 \<Rightarrow> rpc_filter list list \<Rightarrow> int option \<Rightarrow> bool io" where
  "sweep_batches env start end [] remaining = ret False"
| "sweep_batches env start end (b # bs) remaining =
     bindE (sweepBatch env start end b (e_fuel env) [] remaining) (\<lambda>(remaining, capHit).
     bindE (sweep_batches env start end bs remaining) (\<lambda>later. ret (capHit \<or> later)))"

definition is_out_of_range :: "ing_error \<Rightarrow> bool" where
  "is_out_of_range err = (case err of ErrRPC e \<Rightarrow> IsLedgerOutOfRange e | _ \<Rightarrow> False)"

definition sweep_end :: "env \<Rightarrow> lag_coordinator \<Rightarrow> u32 \<Rightarrow> health \<Rightarrow> u32" where
  "sweep_end env lc start hl =
     min (start + effectiveSweepWindow (e_opts env) lc - 1) (h_LatestLedger hl)"

definition sweep_frontier :: "u32 \<Rightarrow> health \<Rightarrow> int" where
  "sweep_frontier end hl = (if end \<ge> h_LatestLedger hl then uint end - 1 else uint end)"

definition sweep_state :: "env \<Rightarrow> int \<Rightarrow> instant \<Rightarrow> ingestion_state" where
  "sweep_state env lastIngested now =
     \<lparr>is_Network = o_Network (e_opts env), is_LastIngestedLedger = lastIngested, is_LastCursor = [],
      is_LastSuccessfulPoll = Some now\<rparr>"

definition windowSweep :: "env \<Rightarrow> u32 \<Rightarrow> rpc_filter list list \<Rightarrow> bool io" where
  "windowSweep env start batches =
     bindE (GetHealth env) (\<lambda>hl.
     bindE (maybeHandleTipRegression env (h_LatestLedger hl)) (\<lambda>regressed.
       if regressed then ret True
       else if start > h_LatestLedger hl then ret True
       else
         bindE (gets w_lag) (\<lambda>lc.
         let end = sweep_end env lc start hl
         in bindE (attempt (sweep_batches env start end batches (newCycleBudget (e_opts env)))) (\<lambda>r.
            case r of
              Inl err \<Rightarrow>
                if is_out_of_range err then bindE (reclampToOldest env []) (\<lambda>_. ret False) else raise err
            | Inr capHit \<Rightarrow>
                if capHit then ret False
                else
                  bindE (gets (\<lambda>w. e_now env (w_tick w))) (\<lambda>now.
                  let lastIngested = sweep_frontier end hl
                  in bindE (if o_DryRun (e_opts env) then setDryRunPosition env [] lastIngested
                            else db_write env (\<lambda>d. ((), SaveIngestionState (sweep_state env lastIngested now) d)))
                       (\<lambda>_. ret (end \<ge> h_LatestLedger hl)))))))"

definition windowSweepWatched :: "env \<Rightarrow> rpc_filter list list \<Rightarrow> bool io" where
  "windowSweepWatched env batches =
     bindE (GetHealth env) (\<lambda>hl.
     bindE (maybeHandleTipRegression env (h_LatestLedger hl)) (\<lambda>regressed.
       if regressed then ret True
       else
         bindE (earliestStartLedger env) (\<lambda>start.
         if start > h_LatestLedger hl then ret True
         else
         bindE (gets w_lag) (\<lambda>lc.
         let end = sweep_end env lc start hl
         in bindE (attempt (sweep_batches env start end batches (newCycleBudget (e_opts env)))) (\<lambda>r.
            case r of
              Inl err \<Rightarrow>
                if is_out_of_range err
                then bindE (db_read env ListWatchedContracts) (\<lambda>watched.
                     bindE (reclampToOldest env (map wc_ContractID watched)) (\<lambda>_.
                     bindE (db_write env (\<lambda>d. ((), SaveIngestionState
                              \<lparr>is_Network = o_Network (e_opts env),
                               is_LastIngestedLedger = uint (h_OldestLedger hl) - 1, is_LastCursor = [],
                               is_LastSuccessfulPoll = None\<rparr> d))) (\<lambda>_. ret False)))
                else raise err
            | Inr capHit \<Rightarrow>
                if capHit then ret False
                else let lastIngested = sweep_frontier end hl
                  in bindE (db_read env ListWatchedContracts) (\<lambda>watched.
                     bindE (save_cursors env (map (\<lambda>w. \<lparr>cc_ContractID = wc_ContractID w,
                              cc_LastIngestedLedger = lastIngested, cc_LastCursor = []\<rparr>) watched)) (\<lambda>_.
                     bindE (gets (\<lambda>w. e_now env (w_tick w))) (\<lambda>now.
                     bindE (if o_DryRun (e_opts env) then setDryRunPosition env [] lastIngested
                            else db_write env (\<lambda>d. ((), SaveIngestionState (sweep_state env lastIngested now) d)))
                       (\<lambda>_. ret (end \<ge> h_LatestLedger hl))))))))))"

definition runOnceUnwatched :: "env \<Rightarrow> bool io" where
  "runOnceUnwatched env =
     bindE (resolvePosition env) (\<lambda>(startLedger, cursor).
     bindE (BuildFilterBatches env) (\<lambda>batches.
       case batches of
         [b] \<Rightarrow> singlePage env startLedger cursor b
       | _ \<Rightarrow> windowSweep env startLedger batches))"

definition runOnceWatched :: "env \<Rightarrow> bool io" where
  "runOnceWatched env =
     bindE (BuildFilterBatches env) (\<lambda>batches.
       case batches of
         [b] \<Rightarrow> singlePageWatched env b
       | _ \<Rightarrow> windowSweepWatched env batches)"

definition runOnce :: "env \<Rightarrow> bool io" where
  "runOnce env =
     bindE (update (\<lambda>w. w\<lparr>w_fetched := 0, w_written := 0, w_skipped := 0\<rparr>)) (\<lambda>_.
     bindE (db_read env ListWatchedContracts) (\<lambda>watched.
       if watched = [] then runOnceUnwatched env else runOnceWatched env))"

text \<open>The preview loop, with fuel for the number of cycles.\<close>

fun dry_run_loop :: "env \<Rightarrow> nat \<Rightarrow> unit io" where
  "dry_run_loop env 0 = raise Diverged"
| "dry_run_loop env (Suc n) =
     bindE (runOnce env) (\<lambda>caughtUp. if caughtUp then ret () else dry_run_loop env n)"

end
