(* ===== verification/Ingester_Spec.thy ===== *)
theory Ingester_Spec
  imports Ingester
begin

text \<open>
  Triples over the computations of the ingester, relative to a frame: a relation between the world
  before and after that every external call respects. With them, previews: a dry run leaves the
  database and the subscribers alone, whatever the RPC answers. The last part is an honest provider
  and the concrete options and environments of the examples.
\<close>

section \<open>Triples\<close>

definition triple ::
  "(world \<Rightarrow> world \<Rightarrow> bool) \<Rightarrow> (world \<Rightarrow> bool) \<Rightarrow> 'a io \<Rightarrow> ('a \<Rightarrow> world \<Rightarrow> bool) \<Rightarrow> bool" where
  "triple F P m Q \<longleftrightarrow>
     (\<forall>w. P w \<longrightarrow> F w (snd (m w)) \<and> (\<forall>x. fst (m w) = Inr x \<longrightarrow> Q x (snd (m w))))"

abbreviation anywhere :: "world \<Rightarrow> bool" where "anywhere w \<equiv> True"

abbreviation anything :: "'a \<Rightarrow> world \<Rightarrow> bool" where "anything x w \<equiv> True"

lemma tripleD:
  "triple F P m Q \<Longrightarrow> P w \<Longrightarrow> m w = (r, w') \<Longrightarrow> F w w' \<and> (\<forall>x. r = Inr x \<longrightarrow> Q x w')"
  unfolding triple_def by (metis fst_conv snd_conv)

lemma triple_weaken:
  "triple F P m Q \<Longrightarrow> (\<And>w. P' w \<Longrightarrow> P w) \<Longrightarrow> (\<And>x w. Q x w \<Longrightarrow> Q' x w) \<Longrightarrow> triple F P' m Q'"
  unfolding triple_def by blast

lemma triple_if [intro]:
  "(b \<Longrightarrow> triple F P m Q) \<Longrightarrow> (\<not> b \<Longrightarrow> triple F P m' Q) \<Longrightarrow> triple F P (if b then m else m') Q"
  by simp

locale io_frame =
  fixes F :: "world \<Rightarrow> world \<Rightarrow> bool"
  assumes frame_refl: "F w w"
    and frame_trans: "F w w' \<Longrightarrow> F w' w'' \<Longrightarrow> F w w''"
    and frame_tick: "F w (ticked w)"
begin

lemma triple_ret: "(\<And>w. P w \<Longrightarrow> Q x w) \<Longrightarrow> triple F P (ret x) Q"
  by (simp add: triple_def ret_def frame_refl)

lemma triple_raise: "triple F P (raise err) Q"
  by (simp add: triple_def raise_def frame_refl)

lemma triple_gets: "(\<And>w. P w \<Longrightarrow> Q (f w) w) \<Longrightarrow> triple F P (gets f) Q"
  by (simp add: triple_def gets_def frame_refl)

lemma triple_bind:
  assumes "triple F P m Q" and "\<And>x. triple F (Q x) (f x) R"
  shows "triple F P (bindE m f) R"
  unfolding triple_def
proof (intro allI impI)
  fix w assume "P w"
  obtain r w' where m: "m w = (r, w')" by fastforce
  note m' = tripleD [OF assms(1) \<open>P w\<close> m]
  show "F w (snd (bindE m f w)) \<and> (\<forall>x. fst (bindE m f w) = Inr x \<longrightarrow> R x (snd (bindE m f w)))"
  proof (cases r)
    case (Inl err)
    thus ?thesis using m m' by (simp add: bindE_def)
  next
    case (Inr y)
    obtain r2 w2 where f: "f y w' = (r2, w2)" by fastforce
    show ?thesis
      using m m' Inr f tripleD [OF assms(2) _ f] frame_trans by (auto simp: bindE_def)
  qed
qed

lemma triple_attempt:
  assumes "triple F P m (\<lambda>x. Q (Inr x))" and "\<And>err w w'. P w \<Longrightarrow> F w w' \<Longrightarrow> Q (Inl err) w'"
  shows "triple F P (attempt m) Q"
  unfolding triple_def
proof (intro allI impI)
  fix w assume "P w"
  obtain r w' where m: "m w = (r, w')" by fastforce
  show "F w (snd (attempt m w)) \<and> (\<forall>x. fst (attempt m w) = Inr x \<longrightarrow> Q x (snd (attempt m w)))"
    using tripleD [OF assms(1) \<open>P w\<close> m] assms(2) [OF \<open>P w\<close>] m by (cases r) (simp_all add: attempt_def)
qed

lemma triple_read: "(\<And>w. P w \<Longrightarrow> Q (f (w_db w)) (ticked w)) \<Longrightarrow> triple F P (db_read env f) Q"
  by (simp add: triple_def db_read_def frame_tick split: option.splits prod.splits)

lemma triple_GetEvents:
  "(\<And>w. P w \<Longrightarrow> Q (e_getEvents env (w_tick w) req) (ticked w)) \<Longrightarrow> triple F P (GetEvents env req) Q"
  by (simp add: triple_def GetEvents_def frame_tick)

lemma triple_GetHealth: "(\<And>w x. P w \<Longrightarrow> Q x (ticked w)) \<Longrightarrow> triple F P (GetHealth env) Q"
  by (simp add: triple_def GetHealth_def frame_tick split: sum.splits)

lemma triple_archive: "(\<And>w x. P w \<Longrightarrow> Q x (ticked w)) \<Longrightarrow> triple F P (archive_boundary env) Q"
  by (simp add: triple_def archive_boundary_def frame_tick)

lemma triple_update: "(\<And>w. P w \<Longrightarrow> F w (f w) \<and> Q () (f w)) \<Longrightarrow> triple F P (update f) Q"
  by (simp add: triple_def update_def)

lemma triple_write:
  assumes "\<And>w. P w \<Longrightarrow> F w (ticked (w\<lparr>w_db := snd (f (w_db w))\<rparr>))"
    and "\<And>w. P w \<Longrightarrow> Q (fst (f (w_db w))) (ticked (w\<lparr>w_db := snd (f (w_db w))\<rparr>))"
  shows "triple F P (db_write env f) Q"
  using assms by (simp add: triple_def db_write_def frame_tick split: option.splits prod.splits)

end

lemma ticked_simps [simp]:
  "w_db (ticked w) = w_db w" "w_tick (ticked w) = Suc (w_tick w)" "w_published (ticked w) = w_published w"
  "w_notices (ticked w) = w_notices w" "w_tracker (ticked w) = w_tracker w"
  "w_dryRunPosition (ticked w) = w_dryRunPosition w"
  "w_startOverrideApplied (ticked w) = w_startOverrideApplied w"
  by (simp_all add: ticked_def)

section \<open>Previews\<close>

text \<open>The frame of a preview: database, subscribers and reorg notices are left alone.\<close>

definition untouched :: "world \<Rightarrow> world \<Rightarrow> bool" where
  "untouched w w' \<longleftrightarrow>
     w_db w' = w_db w \<and> w_published w' = w_published w \<and> w_notices w' = w_notices w"

interpretation ro: io_frame untouched
  by unfold_locales (auto simp: untouched_def)

definition harmless :: "'a io \<Rightarrow> bool" where
  "harmless m \<longleftrightarrow> triple untouched anywhere m anything"

lemma harmless_bind [intro!]: "harmless m \<Longrightarrow> (\<And>x. harmless (f x)) \<Longrightarrow> harmless (bindE m f)"
  unfolding harmless_def by (rule ro.triple_bind)

lemma harmless_basic [simp]:
  "harmless (ret x)" "harmless (raise err)" "harmless (gets g)" "harmless (db_read env h)"
  "harmless (GetEvents env req)" "harmless (GetHealth env)" "harmless (archive_boundary env)"
  by (simp_all add: harmless_def ro.triple_ret ro.triple_raise ro.triple_gets ro.triple_read
      ro.triple_GetEvents ro.triple_GetHealth ro.triple_archive)

lemma harmless_update: "(\<And>w. untouched w (f w)) \<Longrightarrow> harmless (update f)"
  unfolding harmless_def by (rule ro.triple_update) simp

lemma harmless_attempt [intro!]: "harmless m \<Longrightarrow> harmless (attempt m)"
  unfolding harmless_def by (rule ro.triple_attempt)

lemma harmless_position [simp]: "harmless (setDryRunPosition env c l)"
  by (simp add: setDryRunPosition_def harmless_update untouched_def)

lemma harmless_counters [simp]: "harmless add_skipped" "harmless (add_fetched n)"
  by (simp_all add: add_skipped_def add_fetched_def harmless_update untouched_def)

lemma harmless_reads [simp]: "harmless (getIngestionState env)" "harmless (BuildFilterBatches env)"
  by (auto simp: getIngestionState_def BuildFilterBatches_def)

lemma harmless_cold_start [simp]: "harmless (cold_start env)"
  unfolding cold_start_def Let_def by (rule harmless_bind) (auto split: option.splits)

lemma harmless_resolvePosition [simp]: "harmless (resolvePosition env)"
proof -
  have "untouched w (w\<lparr>w_startOverrideApplied := b\<rparr>)" for w b by (simp add: untouched_def)
  thus ?thesis
    unfolding resolvePosition_def Let_def
    by (auto intro!: harmless_bind harmless_update split: option.splits)
qed

lemma harmless_dry_simple [simp]:
  assumes "o_DryRun (e_opts env)"
  shows "harmless (discardCursor env)" "harmless (reclampToOldest env [])"
    "harmless (maybeHandleTipRegression env latest)" "harmless (persistEventBatch env evs)"
  using assms
  by (auto simp: discardCursor_def reclampToOldest_def maybeHandleTipRegression_def persistEventBatch_def
      Let_def split: option.splits)

lemma harmless_decode [simp]: "o_DryRun (e_opts env) \<Longrightarrow> harmless (decode_events env res)"
  by (induction env res rule: decode_events.induct) (auto split: sum.splits)

lemma harmless_persist_batches [simp]: "o_DryRun (e_opts env) \<Longrightarrow> harmless (persist_batches env bs)"
  by (induction bs) auto

lemma harmless_persist [simp]:
  "o_DryRun (e_opts env) \<Longrightarrow> harmless (persistEventsWithReorgCheck env evs latest chk)"
  "o_DryRun (e_opts env) \<Longrightarrow> harmless (persistEvents env evs latest)"
  by (auto simp: persistEventsWithReorgCheck_def persistEvents_def Let_def)

lemma harmless_singlePage [simp]: "o_DryRun (e_opts env) \<Longrightarrow> harmless (singlePage env start cursor filters)"
  by (auto simp: singlePage_def save_page_def Let_def split: sum.splits prod.splits)

lemma harmless_sweepBatch [simp]:
  "o_DryRun (e_opts env) \<Longrightarrow> harmless (sweepBatch env start end filters fuel cursor remaining)"
  by (induction fuel arbitrary: cursor remaining) (auto simp: Let_def split: sum.splits)

lemma harmless_sweep_batches [simp]:
  "o_DryRun (e_opts env) \<Longrightarrow> harmless (sweep_batches env start end bs remaining)"
  by (induction bs arbitrary: remaining) (auto split: prod.splits)

lemma harmless_windowSweep [simp]: "o_DryRun (e_opts env) \<Longrightarrow> harmless (windowSweep env start bs)"
  by (auto simp: windowSweep_def Let_def split: sum.splits)

lemma harmless_unwatched [simp]: "o_DryRun (e_opts env) \<Longrightarrow> harmless (runOnceUnwatched env)"
  unfolding runOnceUnwatched_def by (auto split: list.splits prod.splits)

lemma dry_run_untouched:
  assumes dry: "o_DryRun (e_opts env)"
  shows "triple untouched (\<lambda>w. ListWatchedContracts (w_db w) = []) (dry_run_loop env n)
           (\<lambda>_ w. ListWatchedContracts (w_db w) = [])"
proof (induction n)
  case (Suc n)
  let ?P = "\<lambda>w. ListWatchedContracts (w_db w) = []"
  have "triple untouched ?P (runOnceUnwatched env) (\<lambda>_. ?P)"
    using harmless_unwatched [OF dry] unfolding harmless_def triple_def by (simp add: untouched_def)
  hence "triple untouched ?P (runOnce env) (\<lambda>_. ?P)"
    unfolding runOnce_def
    by (intro ro.triple_bind [where Q = "\<lambda>_. ?P"] ro.triple_bind [where Q = "\<lambda>x w. x = [] \<and> ?P w"]
        ro.triple_update ro.triple_read)
      (auto simp: untouched_def triple_def)
  thus ?case
    unfolding dry_run_loop.simps
    by (rule ro.triple_bind) (simp add: Suc ro.triple_ret)
qed (simp add: ro.triple_raise)

section \<open>An honest provider\<close>

text \<open>
  A provider that serves a fixed chain of events in order: from the event after the cursor when
  there is one, from the start ledger otherwise, up to the limit. Old servers send no top-level
  cursor, and neither does this one.
\<close>

definition filter_matches :: "rpc_filter list \<Rightarrow> rpc_event \<Rightarrow> bool" where
  "filter_matches fs e \<longleftrightarrow>
     list_ex (\<lambda>f. rf_Type f = re_Type e \<and> (rf_ContractIDs f = [] \<or> re_ContractID e \<in> set (rf_ContractIDs f))) fs"

definition position :: "get_events_request \<Rightarrow> rpc_event list \<Rightarrow> rpc_event list" where
  "position req chain =
     (if rq_Cursor req \<noteq> [] then tl (dropWhile (\<lambda>e. CursorValue e \<noteq> rq_Cursor req) chain)
      else filter (\<lambda>e. rq_StartLedger req \<le> re_Ledger e \<and> (rq_EndLedger req = 0 \<or> re_Ledger e < rq_EndLedger req)) chain)"

definition serve :: "rpc_event list \<Rightarrow> u32 \<Rightarrow> get_events_request \<Rightarrow> get_events_response" where
  "serve chain latest req =
     \<lparr>rs_Events = take (rq_Limit req) (filter (filter_matches (rq_Filters req)) (position req chain)),
      rs_LatestLedger = latest, rs_OldestLedger = 1, rs_Cursor = []\<rparr>"

text \<open>Concrete options, environments and worlds.\<close>

definition sample_opts :: "nat \<Rightarrow> options" where
  "sample_opts limit =
     \<lparr>o_PollInterval = second, o_PollIntervalMin = second, o_PollIntervalMax = second, o_StartLedger = 0,
      o_StartLedgerRaw = [], o_RetentionLedgers = 100, o_PageLimit = limit, o_MaxRetries = 0,
      o_WriteBatchSize = 1000, o_MaxEventsPerCycle = 0, o_BatchSize = 0, o_BatchTargetLatency = 0,
      o_BatchMaxBackoff = second, o_MinBackoff = second, o_MaxBackoff = minute, o_JitterMin = 0,
      o_JitterMax = 0, o_SweepWindow = 1000, o_LagWarnLedgers = 0, o_LagRecoverLedgers = 0,
      o_LagBackpressureEnabled = False, o_SweepConcurrency = 1, o_ReorgConfirmationWindow = 0,
      o_ReorgRescanInterval = minute, o_SkipContracts = [], o_Network = [], o_DryRun = False\<rparr>"

definition honest_env :: "options \<Rightarrow> rpc_event list \<Rightarrow> u32 \<Rightarrow> env" where
  "honest_env opts chain latest =
     \<lparr>e_opts = opts, e_getEvents = (\<lambda>_ req. Inr (serve chain latest req)),
      e_getHealth = (\<lambda>_. Inr \<lparr>h_LatestLedger = latest, h_OldestLedger = 1\<rparr>),
      e_getLatestLedger = (\<lambda>_. Inr latest), e_fault = (\<lambda>_. None), e_latency = (\<lambda>_. 0),
      e_sleeps = (\<lambda>_. True), e_canceled = (\<lambda>_. False), e_jitter = (\<lambda>_ _. 0), e_now = (\<lambda>_. 0),
      e_EventTopicsValue = (\<lambda>_. Inr (''[]'', ''null'')), e_deadLetterSink = False,
      e_archivedThrough = 0, e_archiveBoundaryFn = None, e_sharedLag = False, e_fuel = length chain + 2\<rparr>"

definition fresh_world :: "db \<Rightarrow> world" where
  "fresh_world d =
     \<lparr>w_db = d, w_tick = 0, w_tracker = NewReorgTracker 0,
      w_lag = NewLagCoordinator \<lparr>lo_Enabled = False, lo_EnterLagLedgers = 0, lo_RecoverLagLedgers = 0,
        lo_MaxDeferral = 0, lo_CatchUpSweepMultiplier = 0, lo_Downstream = False\<rparr>,
      w_lagging = False, w_lagMetrics = [], w_pollInterval = second,
      w_dryRunPosition = None, w_startOverrideApplied = False, w_fetched = 0, w_written = 0, w_skipped = 0,
      w_published = [], w_notices = []\<rparr>"

definition sample_event :: "string \<Rightarrow> u32 \<Rightarrow> rpc_event" where
  "sample_event i ledger =
     zero_rpc_event\<lparr>re_ID := i, re_Type := ''contract'', re_Ledger := ledger, re_ContractID := ''C1''\<rparr>"

section \<open>Properties of previews\<close>

text \<open>
  C13. A dry run with an empty watch list leaves the database as it found it and hands nothing to
  subscribers or notifiers, whatever the RPC answers, whichever store reads fail and however many
  cycles it takes.
\<close>

theorem dry_run_readonly:
  assumes "o_DryRun (e_opts env)" and "ListWatchedContracts (w_db w) = []"
  shows "w_db (snd (dry_run_loop env n w)) = w_db w
         \<and> w_published (snd (dry_run_loop env n w)) = w_published w
         \<and> w_notices (snd (dry_run_loop env n w)) = w_notices w"
proof -
  have "untouched w (snd (dry_run_loop env n w))"
    using dry_run_untouched [OF assms(1)] assms(2) by (simp add: triple_def)
  thus ?thesis by (simp add: untouched_def)
qed

theorem dry_run_readonly_witness:
  "w_db (snd (dry_run_loop (honest_env (sample_opts 2\<lparr>o_DryRun := True\<rparr>) [sample_event ''a'' 5] 9) 3
                (fresh_world empty_db))) = empty_db"
proof -
  have "o_DryRun (e_opts (honest_env (sample_opts 2\<lparr>o_DryRun := True\<rparr>) [sample_event ''a'' 5] 9))"
    "ListWatchedContracts (w_db (fresh_world empty_db)) = []"
    by (simp_all add: honest_env_def fresh_world_def empty_db_def ListWatchedContracts_def)
  from dry_run_readonly [OF this, of 3] show ?thesis by (simp add: fresh_world_def)
qed

end
