(* ===== verification/Ingester_Run.thy ===== *)
theory Ingester_Run
  imports Ingester
begin

text \<open>
  The loop of \<^verbatim>\<open>Ingester.Run\<close> in \<^verbatim>\<open>internal/ingester/ingester.go\<close>: a cycle, the lag alarm,
  the backoff or the idle sleep, and the periodic rescan of the confirmation window. The loop only
  ends when its context is cancelled, so it takes the number of iterations. A sleep is a point
  where time passes; how long it is does not influence anything else.
\<close>

section \<open>The lag alarm\<close>

definition GetLatestLedger :: "env \<Rightarrow> u32 io" where
  "GetLatestLedger env w =
     (case e_getLatestLedger env (w_tick w) of
        Inl err \<Rightarrow> (Inl (ErrRPC err), ticked w)
      | Inr sequence \<Rightarrow> (Inr sequence, ticked w))"

definition lag_metric :: "bool \<Rightarrow> unit io" where
  "lag_metric lagging = update (\<lambda>w. w\<lparr>w_lagMetrics := w_lagMetrics w @ [lagging]\<rparr>)"

definition observe :: "env \<Rightarrow> u32 \<Rightarrow> int \<Rightarrow> unit io" where
  "observe env latest lastIngested =
     update (\<lambda>w. w\<lparr>w_lag := snd (ObserveLag (uint latest) lastIngested (e_now env (w_tick w)) (w_lag w))\<rparr>)"

definition publishLagging :: "env \<Rightarrow> bool \<Rightarrow> unit io" where
  "publishLagging env lagging =
     bindE (if e_sharedLag env
            then update (\<lambda>w. w\<lparr>w_lag := SetLagging lagging (e_now env (w_tick w)) (w_lag w)\<rparr>)
            else ret ()) (\<lambda>_. lag_metric lagging)"

definition lag_decision :: "env \<Rightarrow> bool \<Rightarrow> int \<Rightarrow> int \<Rightarrow> bool" where
  "lag_decision env was lastIngested rawLag =
     (if lastIngested > 0
      then if \<not> was then rawLag > uint (o_LagWarnLedgers (e_opts env))
           else rawLag > uint (effectiveLagRecoverLedgers (e_opts env) (e_sharedLag env))
      else False)"

definition checkLag :: "env \<Rightarrow> unit io" where
  "checkLag env =
     (if o_DryRun (e_opts env) then ret ()
      else if o_LagWarnLedgers (e_opts env) = 0 then ret ()
      else
        bindE (attempt (GetLatestLedger env)) (\<lambda>r.
        case r of
          Inl _ \<Rightarrow> ret ()
        | Inr latest \<Rightarrow>
            bindE (attempt (getIngestionState env)) (\<lambda>st.
            case st of
              Inl _ \<Rightarrow> ret ()
            | Inr None \<Rightarrow> if \<not> e_sharedLag env then observe env latest 0 else publishLagging env False
            | Inr (Some s) \<Rightarrow>
                bindE (gets w_lagging) (\<lambda>was.
                let lastIngested = is_LastIngestedLedger s; rawLag = uint latest - lastIngested
                in if lastIngested > 0 \<and> rawLag < 0
                   then if \<not> e_sharedLag env then observe env latest lastIngested else publishLagging env was
                   else
                     let lagging = lag_decision env was lastIngested rawLag
                     in bindE (observe env latest lastIngested) (\<lambda>_.
                        bindE (if e_sharedLag env then lag_metric lagging else ret ()) (\<lambda>_.
                          update (\<lambda>w. w\<lparr>w_lagging := lagging\<rparr>)))))))"

section \<open>The loop\<close>

record run_vars =
  v_retry :: retry_state
  v_lastReorgRescanAt :: instant

definition initial_vars :: "options \<Rightarrow> run_vars" where
  "initial_vars opts = \<lparr>v_retry = initial_retry opts, v_lastReorgRescanAt = zero_time\<rparr>"

text \<open>\<^verbatim>\<open>SleepCtx\<close>: whether the sleep ended before the context was cancelled.\<close>

definition sleep_ctx :: "env \<Rightarrow> duration \<Rightarrow> bool io" where
  "sleep_ctx env d w = (Inr (e_sleeps env (w_tick w)), ticked w)"

definition maybe_rescan :: "env \<Rightarrow> run_vars \<Rightarrow> run_vars io" where
  "maybe_rescan env v =
     bindE (gets (\<lambda>w. e_now env (w_tick w))) (\<lambda>now.
       if o_ReorgConfirmationWindow (e_opts env) > 0
          \<and> now - v_lastReorgRescanAt v \<ge> o_ReorgRescanInterval (e_opts env)
       then bindE (attempt (rescanForReorg env)) (\<lambda>_. ret (v\<lparr>v_lastReorgRescanAt := now\<rparr>))
       else ret v)"

text \<open>What follows a cycle, and one iteration; \<^const>\<open>None\<close> when the loop returns.\<close>

definition after_cycle :: "env \<Rightarrow> run_vars \<Rightarrow> ing_error + bool \<Rightarrow> run_vars option io" where
  "after_cycle env v r =
     bindE (gets w_tick) (\<lambda>t.
       if e_canceled env t then ret None
       else case r of
           Inl err \<Rightarrow>
             let (sleep, retry) = run_failed (e_opts env) (e_jitter env t) (v_retry v)
             in bindE (checkLag env) (\<lambda>_.
                bindE (sleep_ctx env sleep) (\<lambda>slept.
                  ret (if slept then Some (v\<lparr>v_retry := retry\<rparr>) else None)))
         | Inr caughtUp \<Rightarrow>
             bindE (checkLag env) (\<lambda>_.
             bindE (if caughtUp then bindE (gets w_pollInterval) (sleep_ctx env) else ret True) (\<lambda>slept.
               if \<not> slept then ret None
               else bindE (maybe_rescan env (v\<lparr>v_retry := run_succeeded (e_opts env)\<rparr>)) (\<lambda>v. ret (Some v)))))"

definition run_iteration :: "env \<Rightarrow> run_vars \<Rightarrow> run_vars option io" where
  "run_iteration env v = bindE (attempt (runOnce env)) (after_cycle env v)"

fun run_loop :: "env \<Rightarrow> nat \<Rightarrow> run_vars \<Rightarrow> run_vars option io" where
  "run_loop env 0 v = ret (Some v)"
| "run_loop env (Suc n) v =
     bindE (run_iteration env v) (\<lambda>v'.
       case v' of None \<Rightarrow> ret None | Some v \<Rightarrow> run_loop env n v)"

end
