(* ===== verification/Ingester_Calm.thy ===== *)
theory Ingester_Calm
  imports Ingester_Spec Ingester_Run
begin

text \<open>
  Cycles in a calm environment: the store does not fail, events decode, sleeps are not cut short.
  There every step of a cycle succeeds, which turns what the triples say of successful runs into
  total correctness.
\<close>

definition ok :: "'a io \<Rightarrow> bool" where
  "ok m \<longleftrightarrow> (\<forall>w. \<exists>x. fst (m w) = Inr x)"

lemma okE: "ok m \<Longrightarrow> (\<And>x w'. m w = (Inr x, w') \<Longrightarrow> P) \<Longrightarrow> P"
  unfolding ok_def by (metis prod.collapse)

lemma ok_basic [simp]: "ok (ret x)" "ok (gets g)" "ok (update f)" "ok (attempt m)" "ok (GetEvents env req)"
  by (simp_all add: ok_def ret_def gets_def update_def attempt_def GetEvents_def split: prod.splits)

lemma ok_bind [intro!]: "ok m \<Longrightarrow> (\<And>x. ok (f x)) \<Longrightarrow> ok (bindE m f)"
  unfolding ok_def bindE_def by (metis (no_types, lifting) case_prod_beta old.sum.simps(6))

lemma ok_if [intro!]: "(b \<Longrightarrow> ok m) \<Longrightarrow> (\<not> b \<Longrightarrow> ok m') \<Longrightarrow> ok (if b then m else m')"
  by simp

text \<open>Options under which a page is written and no reorg is looked for.\<close>

definition plain_page :: "env \<Rightarrow> bool \<Rightarrow> bool" where
  "plain_page env chk \<longleftrightarrow>
     \<not> o_DryRun (e_opts env) \<and> 0 < o_WriteBatchSize (e_opts env)
     \<and> (chk \<longrightarrow> o_ReorgConfirmationWindow (e_opts env) = 0)"

lemma no_regression:
  "o_ReorgConfirmationWindow (e_opts env) = 0 \<Longrightarrow> maybeHandleTipRegression env l = ret False"
  by (simp add: maybeHandleTipRegression_def)

text \<open>The environment.\<close>

definition calm :: "env \<Rightarrow> bool" where
  "calm env \<longleftrightarrow>
     (\<forall>t. e_fault env t = None \<and> e_sleeps env t) \<and> (\<forall>re. \<exists>x. e_EventTopicsValue env re = Inr x)
     \<and> (\<forall>chk. plain_page env chk)"

lemma calm_fault [simp]: "calm env \<Longrightarrow> e_fault env t = None"
  and calm_sleeps [simp]: "calm env \<Longrightarrow> e_sleeps env t"
  and calm_plain: "calm env \<Longrightarrow> plain_page env chk"
  by (simp_all add: calm_def)

lemma calm_opts [simp]:
  assumes "calm env"
  shows "\<not> o_DryRun (e_opts env)" "0 < o_WriteBatchSize (e_opts env)"
    "o_ReorgConfirmationWindow (e_opts env) = 0"
  using calm_plain [OF assms, of True] by (simp_all add: plain_page_def)

lemma ok_store [simp]: "calm env \<Longrightarrow> ok (db_read env g)" "calm env \<Longrightarrow> ok (db_write env f)"
  by (simp_all add: ok_def db_read_def db_write_def)

lemma ok_reads [simp]: "calm env \<Longrightarrow> ok (getIngestionState env)" "calm env \<Longrightarrow> ok (BuildFilterBatches env)"
  by (auto simp: getIngestionState_def BuildFilterBatches_def)

lemma ok_counters [simp]: "ok add_skipped" "ok (add_fetched n)"
  by (simp_all add: add_skipped_def add_fetched_def)

lemma ok_decode [simp]: "calm env \<Longrightarrow> ok (decode_events env res)"
proof (induction res)
  case (Cons re res)
  have "\<exists>ev. toStoreEvent (e_EventTopicsValue env) re = Inr ev"
    using Cons.prems unfolding calm_def toStoreEvent_def
    by (metis (no_types, lifting) old.sum.simps(6) surj_pair prod.case)
  thus ?case using Cons by auto
qed simp

lemma ok_chunk [simp]: "calm env \<Longrightarrow> ok (upsertChunkWithIsolation env chunk)"
proof -
  assume calm: "calm env"
  have "\<exists>x. fst (upsertChunkWithIsolation env chunk w) = Inr x" for w
    using calm by (simp add: upsertChunkWithIsolation_def bindE_def attempt_def db_write_def ret_def)
  thus ?thesis by (simp add: ok_def)
qed

lemma ok_chunks: "calm env \<Longrightarrow> bc_ok bc \<Longrightarrow> ok (write_chunks env bc events)"
proof (induction env bc events rule: write_chunks.induct)
  case (1 env bc events)
  let ?n = "nat (bc_cur bc)"
  have "ok (let (backoff, bc') = recordAndBackoff (int (length (take ?n events))) (e_latency env began) bc
            in if backoff > 0 \<and> drop ?n events \<noteq> [] \<and> \<not> e_sleeps env began then raise ErrCanceled
               else bindE (write_chunks env bc' (drop ?n events)) (\<lambda>more. ret (got + more)))"
    if "events \<noteq> []" "\<not> bc_cur bc \<le> 0" for began and got :: int
  proof -
    obtain backoff bc' where rb: "recordAndBackoff (int (length (take ?n events))) (e_latency env began) bc
        = (backoff, bc')" by fastforce
    have "bc_ok bc'" using recordAndBackoff_ok [OF "1.prems"(2)] rb by (metis snd_conv)
    hence "ok (write_chunks env bc' (drop ?n events))"
      using "1.IH" [OF that refl refl refl rb [symmetric] refl _ "1.prems"(1)] "1.prems"(1) by simp
    thus ?thesis unfolding rb Let_def prod.case using "1.prems"(1) by (auto simp only: ok_basic calm_sleeps)
  qed
  moreover have "\<not> bc_cur bc \<le> 0" using "1.prems" by (simp add: bc_ok_def)
  ultimately show ?case
    using "1.prems"(1) by (subst write_chunks.simps) (simp only: Let_def if_False, auto)
qed

lemma ok_batch [simp]: "calm env \<Longrightarrow> ok (persistEventBatch env events)"
  by (auto simp: persistEventBatch_def writeEventsPersist_def ok_chunks newBatchController_ok)

lemma ok_batches [simp]: "calm env \<Longrightarrow> ok (persist_batches env bs)"
  by (induction bs) auto

lemma ok_fingerprints [simp]: "calm env \<Longrightarrow> ok (recordIngestedLedgerFingerprints env events latest chk)"
  by (auto simp: recordIngestedLedgerFingerprints_def split: prod.splits)

lemma ok_persist [simp]:
  "calm env \<Longrightarrow> ok (persistEventsWithReorgCheck env res latest chk)"
  "calm env \<Longrightarrow> ok (persistEvents env res latest)"
  by (auto simp: persistEventsWithReorgCheck_def persistEvents_def Let_def)

lemma ok_save_page [simp]: "calm env \<Longrightarrow> ok (save_page env start cursor resp)"
  by (auto simp: save_page_def Let_def split: prod.splits)

end
