(* ===== verification/Ingester_Safety.thy ===== *)
theory Ingester_Safety
  imports Ingester_Calm
begin

text \<open>
  No event is lost: a cycle moves the frontier of the network past a page or a ledger window only
  when every event of it, except those of skipped contracts, is stored or dead-lettered. This
  holds for any answers of the RPC and any failures of the store, with writes that fail after
  they were applied.
\<close>

section \<open>No event is lost\<close>

text \<open>The IDs that are stored or dead-lettered, and those of a page that have to be.\<close>

definition ids_in :: "db \<Rightarrow> string set" where
  "ids_in d = ev_ID ` set (t_events d) \<union> in_EventID ` set (t_dead d)"

definition wanted :: "env \<Rightarrow> rpc_event list \<Rightarrow> string set" where
  "wanted env res = re_ID ` {re \<in> set res. re_ContractID re \<notin> set (o_SkipContracts (e_opts env))}"

text \<open>
  The frame of persisting: IDs are only added, and neither the frontier nor the watch list moves.
\<close>

definition grows :: "world \<Rightarrow> world \<Rightarrow> bool" where
  "grows w w' \<longleftrightarrow>
     ids_in (w_db w) \<subseteq> ids_in (w_db w') \<and> t_ingestion (w_db w') = t_ingestion (w_db w)
     \<and> t_watched (w_db w') = t_watched (w_db w)
     \<and> t_tenant_watched (w_db w') = t_tenant_watched (w_db w) \<and> w_tick w \<le> w_tick w'"

interpretation gr: io_frame grows
  by unfold_locales (auto simp: grows_def)

lemma upsert_simps [simp]:
  "t_ingestion (snd (UpsertEvents es d)) = t_ingestion d"
  "t_dead (snd (UpsertEvents es d)) = t_dead d"
  "t_watched (snd (UpsertEvents es d)) = t_watched d"
  "t_tenant_watched (snd (UpsertEvents es d)) = t_tenant_watched d"
  by (simp_all add: UpsertEvents_def upsertEvents_def Let_def)

lemma upsert_ids: "ids_in (snd (UpsertEvents es d)) = ids_in d \<union> ev_ID ` set es"
proof -
  have ids: "ev_ID ` A = (snd \<circ> snd) ` event_key ` A" for A :: "event set"
    by (simp add: image_image event_key_def)
  have "event_key ` set (t_events (snd (UpsertEvents es d))) =
          (event_key \<circ> event_row) ` set es \<union> event_key ` set (t_events d)"
    by (simp add: UpsertEvents_def upsertEvents_def Let_def insertEventsBatch_keys)
  hence "ev_ID ` set (t_events (snd (UpsertEvents es d))) =
           (snd \<circ> snd) ` ((event_key \<circ> event_row) ` set es \<union> event_key ` set (t_events d))"
    by (simp add: ids)
  also have "\<dots> = ev_ID ` set es \<union> ev_ID ` set (t_events d)"
    by (simp add: image_Un image_comp event_key_def)
  finally show ?thesis by (auto simp: ids_in_def)
qed

lemma dead_letter_ids: "ids_in (DeadLetterEvent inp d) = insert (in_EventID inp) (ids_in d)"
proof -
  have "in_EventID ` set (t_dead (DeadLetterEvent inp d)) = insert (in_EventID inp) (in_EventID ` set (t_dead d))"
    by (simp add: DeadLetterEvent_def dead.put_keys dead_letter_input.extend_def dead_letter.fields_def)
  thus ?thesis by (auto simp: ids_in_def DeadLetterEvent_def)
qed

lemma other_writes [simp]:
  "ids_in (UpsertAddressRefs refs d) = ids_in d" "t_ingestion (UpsertAddressRefs refs d) = t_ingestion d"
  "t_watched (UpsertAddressRefs refs d) = t_watched d"
  "t_tenant_watched (UpsertAddressRefs refs d) = t_tenant_watched d"
  "ids_in (SaveIngestionState s d) = ids_in d" "t_watched (SaveIngestionState s d) = t_watched d"
  "t_tenant_watched (SaveIngestionState s d) = t_tenant_watched d"
  "t_ingestion (DeadLetterEvent inp d) = t_ingestion d" "t_watched (DeadLetterEvent inp d) = t_watched d"
  "t_tenant_watched (DeadLetterEvent inp d) = t_tenant_watched d"
  "ids_in (SaveContractCursor c d) = ids_in d" "t_ingestion (SaveContractCursor c d) = t_ingestion d"
  by (simp_all add: ids_in_def UpsertAddressRefs_def SaveIngestionState_def DeadLetterEvent_def
      SaveContractCursor_def)

text \<open>\<open>secures T m S\<close>: with the IDs \<open>T\<close> in, \<open>m\<close> loses none and, when it succeeds, has those of
  \<open>S\<close> in too.\<close>

definition secures :: "string set \<Rightarrow> 'a io \<Rightarrow> ('a \<Rightarrow> string set) \<Rightarrow> bool" where
  "secures T m S \<longleftrightarrow>
     triple grows (\<lambda>w. T \<subseteq> ids_in (w_db w)) m (\<lambda>x w. T \<union> S x \<subseteq> ids_in (w_db w))"

lemma secures_ret: "S x \<subseteq> T \<Longrightarrow> secures T (ret x) S"
  unfolding secures_def by (rule gr.triple_ret) auto

lemma secures_raise [simp]: "secures T (raise err) S"
  by (simp add: secures_def gr.triple_raise)

lemma secures_bind:
  assumes "secures T m S" and "\<And>x. secures (T \<union> S x) (f x) R"
  shows "secures T (bindE m f) R"
  unfolding secures_def
proof (rule gr.triple_bind)
  show "triple grows (\<lambda>w. T \<subseteq> ids_in (w_db w)) m (\<lambda>x w. T \<union> S x \<subseteq> ids_in (w_db w))"
    using assms(1) by (simp add: secures_def)
  show "triple grows (\<lambda>w. T \<union> S x \<subseteq> ids_in (w_db w)) (f x) (\<lambda>y w. T \<union> R y \<subseteq> ids_in (w_db w))" for x
    using assms(2) [of x] unfolding secures_def by (rule triple_weaken) auto
qed

lemma secures_then: "secures T m (\<lambda>_. {}) \<Longrightarrow> (\<And>x. secures T (f x) R) \<Longrightarrow> secures T (bindE m f) R"
  by (erule secures_bind) simp

lemma secures_mono: "secures T m S \<Longrightarrow> (\<And>x. S' x \<subseteq> T \<union> S x) \<Longrightarrow> secures T m S'"
  unfolding secures_def by (erule triple_weaken) auto

lemma secures_result: "secures T m (\<lambda>_. S) \<Longrightarrow> S' \<subseteq> T \<union> S \<Longrightarrow> secures T (bindE m (\<lambda>x. ret (g x))) (\<lambda>_. S')"
  by (erule secures_bind) (rule secures_ret)

lemma secures_if: "(b \<Longrightarrow> secures T m S) \<Longrightarrow> (\<not> b \<Longrightarrow> secures T m' S) \<Longrightarrow> secures T (if b then m else m') S"
  by simp

lemma secures_attempt:
  assumes "secures T m (\<lambda>x. S (Inr x))" and "\<And>err. S (Inl err) \<subseteq> T"
  shows "secures T (attempt m) S"
  using assms unfolding secures_def
  by (intro gr.triple_attempt) (auto simp: grows_def)

lemma secures_upsert: "secures T (db_write env (UpsertEvents es)) (\<lambda>_. ev_ID ` set es)"
  unfolding secures_def by (rule gr.triple_write) (auto simp: grows_def upsert_ids)

lemma secures_dead_letter: "secures T (recordDeadLetter env inp) (\<lambda>_. {in_EventID inp})"
  unfolding secures_def recordDeadLetter_def
  by (rule gr.triple_write) (auto simp: grows_def dead_letter_ids)

lemma secures_update: "(\<And>w. w_db (f w) = w_db w \<and> w_tick (f w) = w_tick w) \<Longrightarrow> secures T (update f) (\<lambda>_. {})"
  unfolding secures_def by (rule gr.triple_update) (simp add: grows_def)

lemma secures_skipped [simp]: "secures T add_skipped (\<lambda>_. {})"
  unfolding add_skipped_def by (rule secures_update) simp

lemma secures_gets [simp]: "secures T (gets g) (\<lambda>_. {})"
  unfolding secures_def by (rule gr.triple_gets) simp

section \<open>Persisting a page\<close>

lemma dead_letter_id [simp]:
  "in_EventID (store_dead_letter ev m) = ev_ID ev" "in_EventID (rpc_dead_letter re m) = re_ID re"
  by (simp_all add: store_dead_letter_def rpc_dead_letter_def)

lemma secures_isolate: "secures T (isolate env evs) (\<lambda>_. ev_ID ` set evs)"
proof (induction evs arbitrary: T)
  case (Cons ev evs)
  have all: "secures (insert (ev_ID ev) U) (isolate env evs) (\<lambda>_. ev_ID ` set (ev # evs))" for U
    using Cons by (rule secures_mono) auto
  show ?case
    unfolding isolate.simps
  proof (rule secures_bind [where S = "case_sum (\<lambda>_. {}) (\<lambda>_. {ev_ID ev})"])
    show "secures T (attempt (db_write env (UpsertEvents [ev]))) (case_sum (\<lambda>_. {}) (\<lambda>_. {ev_ID ev}))"
      using secures_upsert [of T env "[ev]"] by (intro secures_attempt) simp_all
    fix r :: "ing_error + int"
    have "secures T (bindE (recordDeadLetter env (store_dead_letter ev (fault_text err)))
            (\<lambda>_. bindE add_skipped (\<lambda>_. isolate env evs))) (\<lambda>_. ev_ID ` set (ev # evs))" for err
      using all [of T] by (intro secures_bind [OF secures_dead_letter] secures_then [OF secures_skipped]) simp
    moreover have "secures (insert (ev_ID ev) T) (bindE (isolate env evs) (\<lambda>m. ret (n + m)))
                     (\<lambda>_. ev_ID ` set (ev # evs))" for n
      using all [of T] by (rule secures_result) auto
    ultimately show "secures (T \<union> case_sum (\<lambda>_. {}) (\<lambda>_. {ev_ID ev}) r)
        (case r of Inr n \<Rightarrow> bindE (isolate env evs) (\<lambda>m. ret (n + m))
         | Inl err \<Rightarrow> if \<not> is_permanent err then raise err
             else bindE (recordDeadLetter env (store_dead_letter ev (fault_text err)))
                    (\<lambda>_. bindE add_skipped (\<lambda>_. isolate env evs)))
        (\<lambda>_. ev_ID ` set (ev # evs))"
      by (cases r) simp_all
  qed
qed (simp add: secures_ret)

lemma secures_chunk: "secures T (upsertChunkWithIsolation env chunk) (\<lambda>_. ev_ID ` set chunk)"
  unfolding upsertChunkWithIsolation_def
proof (rule secures_bind [where S = "case_sum (\<lambda>_. {}) (\<lambda>_. ev_ID ` set chunk)"])
  show "secures T (attempt (db_write env (UpsertEvents chunk))) (case_sum (\<lambda>_. {}) (\<lambda>_. ev_ID ` set chunk))"
    using secures_upsert by (intro secures_attempt) simp_all
  fix r :: "ing_error + int"
  show "secures (T \<union> case_sum (\<lambda>_. {}) (\<lambda>_. ev_ID ` set chunk) r)
      (case r of Inr inserted \<Rightarrow> ret inserted
       | Inl err \<Rightarrow> if \<not> e_deadLetterSink env \<or> \<not> is_permanent err then raise err else isolate env chunk)
      (\<lambda>_. ev_ID ` set chunk)"
    by (cases r) (simp_all add: secures_ret secures_isolate)
qed

lemma secures_chunks: "secures T (write_chunks env bc events) (\<lambda>_. ev_ID ` set events)"
proof (induction env bc events arbitrary: T rule: write_chunks.induct)
  case (1 env bc events)
  let ?n = "nat (bc_cur bc)"
  have split: "ev_ID ` set events \<subseteq> ev_ID ` set (take ?n events) \<union> ev_ID ` set (drop ?n events)"
    by (metis append_take_drop_id image_Un order_refl set_append)
  have "secures T
      (bindE (gets w_tick) (\<lambda>begin. bindE (upsertChunkWithIsolation env (take ?n events)) (\<lambda>got.
         let (backoff, bc') = recordAndBackoff (int (length (take ?n events))) (e_latency env begin) bc
         in if backoff > 0 \<and> drop ?n events \<noteq> [] \<and> \<not> e_sleeps env begin then raise ErrCanceled
            else bindE (write_chunks env bc' (drop ?n events)) (\<lambda>more. ret (got + more)))))
      (\<lambda>_. ev_ID ` set events)"
    if "events \<noteq> []" "\<not> bc_cur bc \<le> 0"
  proof (rule secures_then [OF secures_gets], rule secures_bind [OF secures_chunk])
    fix began got
    obtain backoff bc' where rb: "recordAndBackoff (int (length (take ?n events))) (e_latency env began) bc
        = (backoff, bc')" by fastforce
    have "secures U (write_chunks env bc' (drop ?n events)) (\<lambda>_. ev_ID ` set (drop ?n events))"
      if "\<not> (backoff > 0 \<and> drop ?n events \<noteq> [] \<and> \<not> e_sleeps env began)" for U
      using "1.IH" [OF \<open>events \<noteq> []\<close> \<open>\<not> bc_cur bc \<le> 0\<close> refl refl refl rb [symmetric] refl that] .
    thus "secures (T \<union> ev_ID ` set (take ?n events))
        (let (backoff, bc') = recordAndBackoff (int (length (take ?n events))) (e_latency env began) bc
         in if backoff > 0 \<and> drop ?n events \<noteq> [] \<and> \<not> e_sleeps env began then raise ErrCanceled
            else bindE (write_chunks env bc' (drop ?n events)) (\<lambda>more. ret (got + more)))
        (\<lambda>_. ev_ID ` set events)"
      unfolding Let_def rb prod.case
      using split by (intro secures_if secures_raise) (rule secures_result, auto)
  qed
  thus ?case by (subst write_chunks.simps) (simp add: secures_ret Let_def)
qed

lemma secures_writeEvents:
  "\<not> o_DryRun (e_opts env) \<Longrightarrow> secures T (writeEventsPersist env events) (\<lambda>_. ev_ID ` set events)"
  by (simp add: writeEventsPersist_def secures_ret secures_chunk secures_chunks)

lemma secures_index: "secures T (indexEventAddresses env events) (\<lambda>_. {})"
proof -
  have "secures T (db_write env (\<lambda>d. ((), UpsertAddressRefs refs d))) (\<lambda>_. {})" for refs
    unfolding secures_def by (rule gr.triple_write) (simp_all add: grows_def)
  thus ?thesis by (simp add: indexEventAddresses_def Let_def secures_ret)
qed

lemma secures_batch:
  assumes "\<not> o_DryRun (e_opts env)"
  shows "secures T (persistEventBatch env events) (\<lambda>_. ev_ID ` set events)"
proof -
  have "secures U (update (\<lambda>w. w\<lparr>w_published := w_published w @ [events]\<rparr>)) (\<lambda>_. {})"
    "secures U (update (\<lambda>w. w\<lparr>w_written := w_written w + int (length events)\<rparr>)) (\<lambda>_. {})" for U
    by (rule secures_update, simp)+
  moreover have "secures U (attempt (indexEventAddresses env events)) (\<lambda>_. {})" for U
    using secures_index by (rule secures_attempt) simp
  ultimately show ?thesis
    unfolding persistEventBatch_def using assms
    by (simp, intro secures_bind [OF secures_writeEvents] secures_then) (auto intro: secures_mono)
qed

lemma secures_batches:
  "\<not> o_DryRun (e_opts env) \<Longrightarrow> secures T (persist_batches env bs) (\<lambda>_. ev_ID ` set (concat bs))"
proof (induction bs arbitrary: T)
  case (Cons b bs)
  have "secures (T \<union> ev_ID ` set b) (persist_batches env bs) (\<lambda>_. ev_ID ` set (concat (b # bs)))"
    using Cons by (intro secures_mono [OF Cons.IH]) auto
  thus ?case using secures_bind [OF secures_batch] Cons.prems by simp
qed (simp add: secures_ret)

lemma toStoreEvent_id: "toStoreEvent f re = Inr ev \<Longrightarrow> ev_ID ev = re_ID re"
  by (auto simp: toStoreEvent_def Let_def split: sum.splits prod.splits)

lemma wanted_Nil [simp]: "wanted env [] = {}"
  by (simp add: wanted_def)

lemma wanted_Cons:
  "wanted env (re # res) =
     (if re_ContractID re \<in> set (o_SkipContracts (e_opts env)) then wanted env res
      else insert (re_ID re) (wanted env res))"
  by (auto simp: wanted_def)

text \<open>What decoding promises: an event is in already, or among the decoded ones.\<close>

definition decodes :: "env \<Rightarrow> string set \<Rightarrow> rpc_event list \<Rightarrow> event list io \<Rightarrow> bool" where
  "decodes env T res m \<longleftrightarrow>
     triple grows (\<lambda>w. T \<subseteq> ids_in (w_db w)) m
       (\<lambda>evs w. T \<subseteq> ids_in (w_db w) \<and> wanted env res \<subseteq> ids_in (w_db w) \<union> ev_ID ` set evs)"

lemma decodes_after:
  "secures T m S \<Longrightarrow> (\<And>x. decodes env (T \<union> S x) res (f x)) \<Longrightarrow> decodes env T res (bindE m f)"
  unfolding decodes_def secures_def
  by (rule gr.triple_bind, assumption) (blast intro: triple_weaken)

lemma decode_events_decodes:
  assumes "\<not> o_DryRun (e_opts env)"
  shows "decodes env T res (decode_events env res)"
proof (induction res arbitrary: T)
  case Nil
  show ?case by (simp add: decodes_def gr.triple_ret wanted_def)
next
  case (Cons re res)
  show ?case
  proof (cases "re_ContractID re \<in> set (o_SkipContracts (e_opts env))")
    case True
    have "decodes env (T \<union> {}) (re # res) (decode_events env res)"
      using Cons [of T] True by (simp add: decodes_def wanted_Cons)
    from decodes_after [OF secures_skipped this] show ?thesis using True by simp
  next
    case keep: False
    show ?thesis
    proof (cases "toStoreEvent (e_EventTopicsValue env) re")
      case (Inl err)
      have "decodes env (T \<union> {re_ID re}) (re # res) (decode_events env res)"
        using Cons [of "T \<union> {re_ID re}"] unfolding decodes_def
        by (rule triple_weaken) (use keep in \<open>auto simp: wanted_Cons\<close>)
      hence "decodes env (T \<union> {re_ID re}) (re # res) (bindE add_skipped (\<lambda>_. decode_events env res))"
        by (intro decodes_after [OF secures_skipped]) simp
      hence "decodes env T (re # res) (bindE (recordDeadLetter env (rpc_dead_letter re err))
               (\<lambda>_. bindE add_skipped (\<lambda>_. decode_events env res)))"
        by (intro decodes_after [OF secures_dead_letter]) simp
      thus ?thesis
        using Inl keep assms by (simp add: decodes_def gr.triple_raise)
    next
      case (Inr ev)
      have "decodes env T (re # res) (bindE (decode_events env res) (\<lambda>evs. ret (ev # evs)))"
        unfolding decodes_def
        by (rule gr.triple_bind [OF Cons [unfolded decodes_def, of T]], rule gr.triple_ret)
          (use keep toStoreEvent_id [OF Inr] in \<open>auto simp: wanted_Cons\<close>)
      thus ?thesis using Inr keep by simp
    qed
  qed
qed

lemma decodes_then:
  assumes "decodes env T res m"
    and "\<And>evs U. secures U (f evs) (\<lambda>_. ev_ID ` set evs)"
  shows "secures T (bindE m f) (\<lambda>_. wanted env res)"
  unfolding secures_def
proof (rule gr.triple_bind [OF assms(1) [unfolded decodes_def]])
  fix evs
  show "triple grows (\<lambda>w. T \<subseteq> ids_in (w_db w) \<and> wanted env res \<subseteq> ids_in (w_db w) \<union> ev_ID ` set evs)
          (f evs) (\<lambda>_ w. T \<union> wanted env res \<subseteq> ids_in (w_db w))"
    unfolding triple_def
  proof (intro allI impI)
    fix w :: world assume w: "T \<subseteq> ids_in (w_db w) \<and> wanted env res \<subseteq> ids_in (w_db w) \<union> ev_ID ` set evs"
    have "grows w (snd (f evs w))
          \<and> (\<forall>x. fst (f evs w) = Inr x \<longrightarrow> ids_in (w_db w) \<union> ev_ID ` set evs \<subseteq> ids_in (w_db (snd (f evs w))))"
      using assms(2) [of "ids_in (w_db w)" evs] unfolding secures_def triple_def by blast
    thus "grows w (snd (f evs w))
          \<and> (\<forall>x. fst (f evs w) = Inr x \<longrightarrow> T \<union> wanted env res \<subseteq> ids_in (w_db (snd (f evs w))))"
      using w by blast
  qed
qed

lemma secures_fingerprints:
  assumes "\<not> chk \<or> o_ReorgConfirmationWindow (e_opts env) = 0"
  shows "secures T (recordIngestedLedgerFingerprints env events latest chk) (\<lambda>_. {})"
proof -
  have "secures T (update (\<lambda>w. w\<lparr>w_tracker := rt\<rparr>)) (\<lambda>_. {})" for rt
    by (rule secures_update) simp
  thus ?thesis
    unfolding recordIngestedLedgerFingerprints_def using assms
    by (auto intro!: secures_ret secures_then [OF secures_gets] secures_then split: prod.splits)
qed

lemma secures_persist:
  assumes "plain_page env chk"
  shows "secures T (persistEventsWithReorgCheck env res latest chk) (\<lambda>_. wanted env res)"
proof (cases "res = []")
  case False
  have dry: "\<not> o_DryRun (e_opts env)" and size: "0 < o_WriteBatchSize (e_opts env)"
    using assms by (simp_all add: plain_page_def)
  have "secures U (bindE (persist_batches env (slices (o_WriteBatchSize (e_opts env)) (removeDuplicateEvents evs)))
                    (\<lambda>_. recordIngestedLedgerFingerprints env (removeDuplicateEvents evs) latest chk))
          (\<lambda>_. ev_ID ` set evs)" for U evs
    using secures_batches [OF dry, of U "slices (o_WriteBatchSize (e_opts env)) (removeDuplicateEvents evs)"]
    by (rule secures_bind, intro secures_mono [OF secures_fingerprints])
      (use assms size in \<open>auto simp: slices_concat removeDuplicateEvents_ids plain_page_def\<close>)
  from decodes_then [OF decode_events_decodes [OF dry] this] show ?thesis
    using False dry by (simp add: persistEventsWithReorgCheck_def Let_def)
qed (simp add: persistEventsWithReorgCheck_def secures_ret wanted_def)

section \<open>The frontier\<close>

text \<open>A frontier that moves only with the IDs of \<open>S\<close> in.\<close>

definition guarded :: "string set \<Rightarrow> world \<Rightarrow> world \<Rightarrow> bool" where
  "guarded S w w' \<longleftrightarrow>
     ids_in (w_db w) \<subseteq> ids_in (w_db w')
     \<and> (t_ingestion (w_db w') \<noteq> t_ingestion (w_db w) \<longrightarrow> S \<subseteq> ids_in (w_db w'))"

interpretation gd: io_frame "guarded S" for S
  by unfold_locales (force simp: guarded_def)+

lemma triple_frame: "triple F P m Q \<Longrightarrow> (\<And>w w'. F w w' \<Longrightarrow> F' w w') \<Longrightarrow> triple F' P m Q"
  unfolding triple_def by blast

lemma grows_guarded: "grows w w' \<Longrightarrow> guarded S w w'"
  by (simp add: grows_def guarded_def)

lemma secures_guarded:
  "secures {} m (\<lambda>_. S) \<Longrightarrow> triple (guarded S) anywhere m (\<lambda>_ w. S \<subseteq> ids_in (w_db w))"
  unfolding secures_def
  by (rule triple_frame [where F = grows], erule triple_weaken) (simp_all add: grows_guarded)

lemma save_page_guarded:
  assumes "\<And>chk. plain_page env chk"
  shows "triple (guarded (wanted env (rs_Events resp))) anywhere (save_page env start cursor resp)
           (\<lambda>_ w. wanted env (rs_Events resp) \<subseteq> ids_in (w_db w))"
proof -
  let ?S = "wanted env (rs_Events resp)"
  have fetched: "triple (guarded ?S) anywhere (add_fetched n) anything" for n
    unfolding add_fetched_def by (rule gd.triple_update) (simp add: guarded_def)
  have save: "triple (guarded ?S) (\<lambda>w. ?S \<subseteq> ids_in (w_db w)) (db_write env (\<lambda>d. ((), SaveIngestionState s d)))
                (\<lambda>_ w. ?S \<subseteq> ids_in (w_db w))" for s
    by (rule gd.triple_write) (simp_all add: guarded_def)
  have "\<not> o_DryRun (e_opts env)" using assms by (simp add: plain_page_def)
  thus ?thesis
    unfolding save_page_def Let_def
    by (auto intro!: gd.triple_bind [OF fetched] gd.triple_bind [where Q = anything] gd.triple_gets
        gd.triple_bind [OF secures_guarded [OF secures_persist [OF assms]]] gd.triple_bind [OF save]
        gd.triple_ret split: prod.splits)
qed


lemma honest_calm:
  "\<not> o_DryRun opts \<Longrightarrow> 0 < o_WriteBatchSize opts \<Longrightarrow> o_ReorgConfirmationWindow opts = 0 \<Longrightarrow>
   calm (honest_env opts chain latest)"
  by (simp add: calm_def honest_env_def plain_page_def)


end
