(* ===== verification/Ingester_Complete.thy ===== *)
theory Ingester_Complete
  imports Ingester_Safety
begin

text \<open>
  End-to-end ingestion against a provider that answers truthfully or fails: the provider has a
  chain of events of which it shows those up to its latest ledger. Run for any number of
  iterations, with any store failures, the loop never has a saved position past a due event that
  is neither stored nor dead-lettered; and in a calm environment it gets every event of the chain.
  Watched contracts and the reorg window are off.
\<close>

section \<open>The provider\<close>

definition visible :: "rpc_event list \<Rightarrow> u32 \<Rightarrow> rpc_event list" where
  "visible chain l = filter (\<lambda>e. re_Ledger e \<le> l) chain"

definition good_chain :: "rpc_event list \<Rightarrow> bool" where
  "good_chain chain \<longleftrightarrow>
     sorted (map re_Ledger chain) \<and> distinct (map CursorValue chain) \<and> [] \<notin> CursorValue ` set chain"

text \<open>
  At call \<open>t\<close> the provider is at ledger \<open>latest t\<close>, which never goes back. It serves what it shows, or
  fails with an error that asks for no special treatment.
\<close>

definition provider :: "env \<Rightarrow> rpc_event list \<Rightarrow> (nat \<Rightarrow> u32) \<Rightarrow> bool" where
  "provider env chain latest \<longleftrightarrow>
     mono latest \<and> (\<forall>t. 2 \<le> latest t)
     \<and> (\<forall>t req. e_getEvents env t req = Inr (serve (visible chain (latest t)) (latest t) req)
         \<or> (\<exists>err. e_getEvents env t req = Inl err \<and> \<not> IsLedgerOutOfRange err \<and> \<not> IsFailoverReanchor err))"

definition due :: "env \<Rightarrow> rpc_event \<Rightarrow> bool" where
  "due env e \<longleftrightarrow> re_Type e = ''contract'' \<and> re_ContractID e \<notin> set (o_SkipContracts (e_opts env))"

text \<open>A saved state that marks the first \<open>n\<close> events of the chain as done.\<close>

definition marks :: "rpc_event list \<Rightarrow> ingestion_state \<Rightarrow> nat \<Rightarrow> bool" where
  "marks chain s n \<longleftrightarrow>
     n \<le> length chain
     \<and> (if is_LastCursor s \<noteq> [] then 0 < n \<and> CursorValue (chain ! (n - 1)) = is_LastCursor s
        else 0 < is_LastIngestedLedger s \<and> is_LastIngestedLedger s < 2 ^ 32 - 1
             \<and> (\<forall>i < length chain. i < n \<longleftrightarrow> uint (re_Ledger (chain ! i)) \<le> is_LastIngestedLedger s))"

subsection \<open>Pages\<close>

lemma take_filter_prefix:
  assumes "take k (filter P xs) \<noteq> []"
  shows "\<exists>j < length xs. last (take k (filter P xs)) = xs ! j
           \<and> (\<forall>i \<le> j. P (xs ! i) \<longrightarrow> xs ! i \<in> set (take k (filter P xs)))"
  using assms
proof (induction xs arbitrary: k)
  case (Cons x xs)
  show ?case
  proof (cases "P x")
    case False
    then obtain j where j: "j < length xs" "last (take k (filter P xs)) = xs ! j"
      "\<forall>i \<le> j. P (xs ! i) \<longrightarrow> xs ! i \<in> set (take k (filter P xs))"
      using Cons.IH [of k] Cons.prems by auto
    have "\<forall>i \<le> Suc j. P ((x # xs) ! i) \<longrightarrow> (x # xs) ! i \<in> set (take k (filter P xs))"
      using j(3) False by (metis Suc_le_mono nat.exhaust nth_Cons_0 nth_Cons_Suc)
    thus ?thesis using j False by (intro exI [of _ "Suc j"]) simp
  next
    case True
    obtain k' where k: "k = Suc k'" using Cons.prems by (cases k) auto
    show ?thesis
    proof (cases "take k' (filter P xs) = []")
      case empty: True
      show ?thesis using True k empty by (intro exI [of _ 0]) simp
    next
      case False
      then obtain j where j: "j < length xs" "last (take k' (filter P xs)) = xs ! j"
        "\<forall>i \<le> j. P (xs ! i) \<longrightarrow> xs ! i \<in> set (take k' (filter P xs))"
        using Cons.IH [of k'] by auto
      have "\<forall>i \<le> Suc j. P ((x # xs) ! i) \<longrightarrow> (x # xs) ! i \<in> set (x # take k' (filter P xs))"
        using j(3) by (metis Suc_le_mono list.set_intros nat.exhaust nth_Cons_0 nth_Cons_Suc)
      thus ?thesis using j True k False by (intro exI [of _ "Suc j"]) simp
    qed
  qed
qed simp

lemma visible_drop_sorted:
  assumes "sorted (map re_Ledger chain)" and "i \<le> j" and "j < length chain"
  shows "re_Ledger (chain ! i) \<le> re_Ledger (chain ! j)"
  using sorted_nth_mono [OF assms(1), of i j] assms(2,3) by simp

lemma position_cursor:
  assumes "good_chain chain" and "0 < n" and "n \<le> length chain" and "re_Ledger (chain ! (n - 1)) \<le> l"
    and "rq_Cursor req = CursorValue (chain ! (n - 1))"
  shows "position req (visible chain l) = visible (drop n chain) l"
proof -
  let ?c = "CursorValue (chain ! (n - 1))"
  have dist: "distinct (map CursorValue chain)" and sorted: "sorted (map re_Ledger chain)"
    using assms by (simp_all add: good_chain_def)
  have "chain ! (n - 1) \<in> set chain" using assms(2,3) by simp
  hence ne: "?c \<noteq> []" using assms(1) unfolding good_chain_def by (metis imageI)
  have split: "chain = take (n - 1) chain @ chain ! (n - 1) # drop n chain"
    using assms(2,3) by (metis Suc_pred' id_take_nth_drop less_eq_Suc_le)
  have "CursorValue e \<noteq> ?c" if "e \<in> set (take (n - 1) chain)" for e
    using that dist by (subst (asm) (2) split) (metis distinct_append distinct.simps(2) imageI list.set_map
        list.simps(9) map_append disjoint_iff list.set_intros(1))
  hence "dropWhile (\<lambda>e. CursorValue e \<noteq> ?c) (visible (take (n - 1) chain) l @ chain ! (n - 1) # visible (drop n chain) l)
         = chain ! (n - 1) # visible (drop n chain) l"
    by (subst dropWhile_append2) (auto simp: visible_def)
  moreover have "visible chain l = visible (take (n - 1) chain) l @ chain ! (n - 1) # visible (drop n chain) l"
    using assms(4) by (subst split) (simp add: visible_def)
  ultimately show ?thesis using ne assms(5) by (simp add: position_def)
qed

lemma position_ledger:
  assumes "\<forall>i < length chain. i < n \<longleftrightarrow> re_Ledger (chain ! i) < rq_StartLedger req"
    and "n \<le> length chain" and "rq_Cursor req = []" and "rq_EndLedger req = 0"
  shows "position req (visible chain l) = visible (drop n chain) l"
proof -
  have "re_Ledger e < rq_StartLedger req" if "e \<in> set (take n chain)" for e
    using that assms(1,2) by (auto simp: in_set_conv_nth dest: less_le_trans)
  moreover have "\<not> re_Ledger e < rq_StartLedger req" if "e \<in> set (drop n chain)" for e
    using that assms(1,2) by (auto simp: in_set_conv_nth) (metis add.commute less_diff_conv not_add_less1)
  ultimately have "filter (\<lambda>e. rq_StartLedger req \<le> re_Ledger e \<and> re_Ledger e \<le> l) (take n chain @ drop n chain)
      = filter (\<lambda>e. re_Ledger e \<le> l) (drop n chain)"
    unfolding filter_append
    by (smt (verit) append_Nil filter_cong filter_empty_conv linorder_not_less)
  thus ?thesis
    using assms(3,4) by (simp add: position_def visible_def conj_commute cong: conj_cong)
qed

text \<open>
  A page served after the first \<open>n\<close> events: it reaches some later event and has every contract event
  up to there, or there is none to have.
\<close>

definition page :: "rpc_event list \<Rightarrow> nat \<Rightarrow> u32 \<Rightarrow> nat \<Rightarrow> rpc_event list" where
  "page chain n l limit = take limit (filter (\<lambda>e. re_Type e = ''contract'') (visible (drop n chain) l))"

lemma page_subset: "set (page chain n l limit) \<subseteq> set chain"
  by (auto simp: page_def visible_def dest!: in_set_takeD in_set_dropD)

lemma page_reaches:
  assumes "sorted (map re_Ledger chain)" and "page chain n l limit \<noteq> []"
  obtains j where "n \<le> j" "j < length chain" "last (page chain n l limit) = chain ! j"
    "re_Ledger (chain ! j) \<le> l"
    "\<And>i. n \<le> i \<Longrightarrow> i \<le> j \<Longrightarrow> re_Type (chain ! i) = ''contract'' \<Longrightarrow> chain ! i \<in> set (page chain n l limit)"
proof -
  let ?P = "\<lambda>e. re_Type e = ''contract'' \<and> re_Ledger e \<le> l"
  have page: "page chain n l limit = take limit (filter ?P (drop n chain))"
    by (simp add: page_def visible_def conj_commute)
  then obtain j where j: "j < length (drop n chain)" "last (page chain n l limit) = drop n chain ! j"
    "\<forall>i \<le> j. ?P (drop n chain ! i) \<longrightarrow> drop n chain ! i \<in> set (page chain n l limit)"
    using take_filter_prefix [of limit ?P "drop n chain"] assms(2) by auto
  have "last (page chain n l limit) \<in> set (page chain n l limit)" using assms(2) by simp
  hence le: "re_Ledger (chain ! (n + j)) \<le> l"
    using j by (auto simp: page dest!: in_set_takeD)
  show ?thesis
  proof (rule that [of "n + j"])
    fix i assume i: "n \<le> i" "i \<le> n + j" "re_Type (chain ! i) = ''contract''"
    have "re_Ledger (chain ! i) \<le> l"
      using visible_drop_sorted [OF assms(1) i(2)] j(1) le order.trans by fastforce
    thus "chain ! i \<in> set (page chain n l limit)"
      using j(3) [rule_format, of "i - n"] i j(1) by simp
  qed (use j le in auto)
qed

lemma page_empty:
  assumes "page chain n l limit = []" and "0 < limit" and "n \<le> i" and "i < length chain"
    and "re_Ledger (chain ! i) \<le> l"
  shows "re_Type (chain ! i) \<noteq> ''contract''"
proof
  assume "re_Type (chain ! i) = ''contract''"
  moreover have "chain ! i \<in> set (drop n chain)"
    using assms(3,4) nth_mem [of "i - n" "drop n chain"] by simp
  ultimately have "chain ! i \<in> set (filter (\<lambda>e. re_Type e = ''contract'') (visible (drop n chain) l))"
    using assms(5) by (simp add: visible_def)
  thus False using assms(1,2) by (auto simp: page_def filter_empty_conv)
qed

section \<open>The invariant\<close>

text \<open>Every due event from ledger \<open>lo\<close> on among the first \<open>n\<close> of the chain is in.\<close>

definition covered :: "env \<Rightarrow> rpc_event list \<Rightarrow> u32 \<Rightarrow> nat \<Rightarrow> db \<Rightarrow> bool" where
  "covered env chain lo n d \<longleftrightarrow>
     (\<forall>i < n. due env (chain ! i) \<longrightarrow> lo \<le> re_Ledger (chain ! i) \<longrightarrow> re_ID (chain ! i) \<in> ids_in d)"

definition stored_upto :: "env \<Rightarrow> rpc_event list \<Rightarrow> u32 \<Rightarrow> u32 \<Rightarrow> db \<Rightarrow> bool" where
  "stored_upto env chain lo l d \<longleftrightarrow>
     (\<forall>e \<in> set chain. due env e \<longrightarrow> lo \<le> re_Ledger e \<longrightarrow> re_Ledger e \<le> l \<longrightarrow> re_ID e \<in> ids_in d)"

definition at_pos :: "env \<Rightarrow> rpc_event list \<Rightarrow> (nat \<Rightarrow> u32) \<Rightarrow> u32 \<Rightarrow> nat \<Rightarrow> world \<Rightarrow> bool" where
  "at_pos env chain latest lo n w \<longleftrightarrow>
     t_watched (w_db w) = [] \<and> t_tenant_watched (w_db w) = [] \<and> covered env chain lo n (w_db w)
     \<and> (\<exists>s. row_at is_Network (defaultNetwork (o_Network (e_opts env))) (t_ingestion (w_db w)) = Some s
            \<and> marks chain s n \<and> (is_LastCursor s \<noteq> [] \<longrightarrow> re_Ledger (chain ! (n - 1)) \<le> latest (w_tick w)))"

lemma at_pos_grows:
  assumes "mono latest" and "at_pos env chain latest lo n w" and "grows w w'"
  shows "at_pos env chain latest lo n w'"
proof -
  have "latest (w_tick w) \<le> latest (w_tick w')" using assms(1,3) by (simp add: grows_def monoD)
  moreover have "covered env chain lo n (w_db w')"
    using assms(2,3) unfolding at_pos_def grows_def covered_def by blast
  ultimately show ?thesis
    using assms(2,3) unfolding at_pos_def grows_def by (metis order.trans)
qed

text \<open>The frame: the invariant survives, and so does what is in.\<close>

definition keeps :: "env \<Rightarrow> rpc_event list \<Rightarrow> (nat \<Rightarrow> u32) \<Rightarrow> u32 \<Rightarrow> world \<Rightarrow> world \<Rightarrow> bool" where
  "keeps env chain latest lo w w' \<longleftrightarrow>
     (mono latest \<longrightarrow> w_tick w \<le> w_tick w' \<and> ids_in (w_db w) \<subseteq> ids_in (w_db w')
        \<and> ((\<exists>n. at_pos env chain latest lo n w) \<longrightarrow> (\<exists>n. at_pos env chain latest lo n w')))"

lemma grows_keeps: "grows w w' \<Longrightarrow> keeps env chain latest lo w w'"
  using at_pos_grows [of latest env chain lo _ w w'] by (auto simp: keeps_def grows_def)

interpretation kp: io_frame "keeps env chain latest lo" for env chain latest lo
proof unfold_locales
  show "keeps env chain latest lo w (ticked w)" for w
    by (rule grows_keeps) (simp add: grows_def)
qed (auto simp: keeps_def)

lemma triple_stable:
  "triple grows P m Q \<Longrightarrow> (\<And>w w'. R w \<Longrightarrow> grows w w' \<Longrightarrow> R w')
   \<Longrightarrow> triple grows (\<lambda>w. P w \<and> R w) m (\<lambda>x w. Q x w \<and> R w)"
  unfolding triple_def by blast

text \<open>Saving the state of a page that is in moves the position on, or finds everything in.\<close>

lemma page_state_row:
  assumes "2 \<le> l" and "rs_LatestLedger resp = l" and "rs_Cursor resp = []"
    and "rs_Events resp \<noteq> [] \<longrightarrow> CursorValue (last (rs_Events resp)) \<noteq> []"
  shows "fst (page_state env st resp now) =
    (if rs_Events resp = []
     then \<lparr>is_Network = o_Network (e_opts env), is_LastIngestedLedger = uint l - 1, is_LastCursor = [],
           is_LastSuccessfulPoll = Some now\<rparr>
     else \<lparr>is_Network = o_Network (e_opts env), is_LastIngestedLedger = uint (re_Ledger (last (rs_Events resp))),
           is_LastCursor = CursorValue (last (rs_Events resp)), is_LastSuccessfulPoll = Some now\<rparr>)"
proof -
  have "\<not> uint l - 1 \<le> 0" using assms(1) by (simp add: word_le_def)
  thus ?thesis using assms(2-4) by (auto simp: page_state_def nextState_def Let_def)
qed

lemma ledger_prefix:
  assumes "sorted (map re_Ledger chain)"
  obtains n where "n \<le> length chain"
    "\<forall>i < length chain. i < n \<longleftrightarrow> uint (re_Ledger (chain ! i)) \<le> L"
proof
  let ?P = "\<lambda>e. uint (re_Ledger e) \<le> L"
  let ?n = "length (takeWhile ?P chain)"
  show "\<forall>i < length chain. i < ?n \<longleftrightarrow> ?P (chain ! i)"
  proof (intro allI impI)
    fix i assume i: "i < length chain"
    show "i < ?n \<longleftrightarrow> ?P (chain ! i)"
    proof (cases "i < ?n")
      case True
      hence "chain ! i \<in> set (takeWhile ?P chain)" by (metis nth_mem takeWhile_nth)
      thus ?thesis using True by (auto dest: set_takeWhileD)
    next
      case False
      hence "\<not> ?P (chain ! ?n)" using i nth_length_takeWhile [of ?P chain] by linarith
      moreover have "re_Ledger (chain ! ?n) \<le> re_Ledger (chain ! i)"
        using visible_drop_sorted [OF assms] False i by simp
      ultimately show ?thesis using False by (simp add: word_le_def)
    qed
  qed
qed (simp add: length_takeWhile_le)

lemma row_after_save:
  "row_at is_Network (defaultNetwork (is_Network s)) (t_ingestion (SaveIngestionState s d)) =
     Some (s\<lparr>is_Network := defaultNetwork (is_Network s)\<rparr>)"
  by (simp add: SaveIngestionState_def ingestion.put_row_at split: option.splits)

lemma page_stored:
  assumes "at_pos env chain latest lo n w" and "0 < limit" and "page chain n l limit = []"
  shows "stored_upto env chain lo l (w_db w)"
  unfolding stored_upto_def
proof (intro ballI impI)
  fix e assume e: "e \<in> set chain" "due env e" "lo \<le> re_Ledger e" "re_Ledger e \<le> l"
  then obtain i where i: "i < length chain" "chain ! i = e" by (auto simp: in_set_conv_nth)
  show "re_ID e \<in> ids_in (w_db w)"
  proof (cases "i < n")
    case True
    thus ?thesis using assms(1) e i by (auto simp: at_pos_def covered_def)
  next
    case False
    thus ?thesis using page_empty [OF assms(3,2)] e i by (auto simp: due_def)
  qed
qed

lemma page_covered:
  assumes "at_pos env chain latest lo n w" and "wanted env (page chain n l limit) \<subseteq> ids_in (w_db w)"
    and "\<And>i. n \<le> i \<Longrightarrow> i \<le> j \<Longrightarrow> re_Type (chain ! i) = ''contract'' \<Longrightarrow> chain ! i \<in> set (page chain n l limit)"
  shows "covered env chain lo (Suc j) (w_db w)"
  unfolding covered_def
proof (intro allI impI)
  fix i assume i: "i < Suc j" "due env (chain ! i)" "lo \<le> re_Ledger (chain ! i)"
  show "re_ID (chain ! i) \<in> ids_in (w_db w)"
  proof (cases "i < n")
    case True
    thus ?thesis using assms(1) i by (auto simp: at_pos_def covered_def)
  next
    case False
    hence "re_ID (chain ! i) \<in> wanted env (page chain n l limit)"
      using assms(3) [of i] i by (auto simp: wanted_def due_def)
    thus ?thesis using assms(2) by blast
  qed
qed

lemma page_advances:
  fixes st :: u32 and now :: instant
  assumes chain: "good_chain chain" and w: "at_pos env chain latest lo n w" "l \<le> latest (w_tick w)"
    and l: "2 \<le> l" and limit: "0 < limit"
    and resp: "rs_Events resp = page chain n l limit" "rs_LatestLedger resp = l" "rs_Cursor resp = []"
    and inn: "wanted env (rs_Events resp) \<subseteq> ids_in (w_db w)" and mono: "mono latest"
  defines "w' \<equiv> ticked (w\<lparr>w_db := SaveIngestionState (fst (page_state env st resp now)) (w_db w)\<rparr>)"
  shows "(\<exists>n' > n. at_pos env chain latest lo n' w')
         \<or> (\<exists>n'. at_pos env chain latest lo n' w') \<and> stored_upto env chain lo l (w_db w')"
proof -
  let ?s = "fst (page_state env st resp now)"
  have sorted: "sorted (map re_Ledger chain)" using chain by (simp add: good_chain_def)
  have watch: "t_watched (w_db w') = []" "t_tenant_watched (w_db w') = []" "ids_in (w_db w') = ids_in (w_db w)"
    using w(1) by (simp_all add: w'_def at_pos_def)
  have "latest (w_tick w) \<le> latest (w_tick w')" by (rule monoD [OF mono]) (simp add: w'_def)
  hence le: "l \<le> latest (w_tick w')" using w(2) by (rule order.trans [rotated])
  have cursor: "rs_Events resp \<noteq> [] \<longrightarrow> CursorValue (last (rs_Events resp)) \<noteq> []"
  proof
    assume "rs_Events resp \<noteq> []"
    hence "last (rs_Events resp) \<in> set (rs_Events resp)" by simp
    hence "last (rs_Events resp) \<in> set chain" unfolding resp(1) using page_subset by (rule subsetD [rotated])
    thus "CursorValue (last (rs_Events resp)) \<noteq> []" using chain unfolding good_chain_def by (metis imageI)
  qed
  have s: "is_LastCursor ?s = (if rs_Events resp = [] then [] else CursorValue (last (rs_Events resp)))"
    "rs_Events resp = [] \<Longrightarrow> is_LastIngestedLedger ?s = uint l - 1" "is_Network ?s = o_Network (e_opts env)"
    by (simp_all add: page_state_row [OF l resp(2,3) cursor])
  have row: "row_at is_Network (defaultNetwork (o_Network (e_opts env))) (t_ingestion (w_db w')) =
               Some (?s\<lparr>is_Network := defaultNetwork (o_Network (e_opts env))\<rparr>)"
    using row_after_save [of ?s "w_db w"] s(3) by (simp add: w'_def)
  show ?thesis
  proof (cases "rs_Events resp = []")
    case True
    have all: "stored_upto env chain lo l (w_db w')"
      using page_stored [OF w(1) limit, of l] True resp(1) watch(3) by (simp add: stored_upto_def)
    obtain n' where n': "n' \<le> length chain" "\<forall>i < length chain. i < n' \<longleftrightarrow> uint (re_Ledger (chain ! i)) \<le> uint l - 1"
      using ledger_prefix [OF sorted] by blast
    have "covered env chain lo n' (w_db w')"
      unfolding covered_def
    proof (intro allI impI)
      fix i assume i: "i < n'" "due env (chain ! i)" "lo \<le> re_Ledger (chain ! i)"
      hence "i < length chain" using n'(1) by linarith
      hence "re_Ledger (chain ! i) \<le> l" "chain ! i \<in> set chain" using n'(2) i(1) by (auto simp: word_le_def)
      thus "re_ID (chain ! i) \<in> ids_in (w_db w')" using all i by (simp add: stored_upto_def)
    qed
    moreover have "0 < uint l - 1" "uint l - 1 < 2 ^ 32 - 1"
      using l uint_lt2p [of l] by (simp_all add: word_le_def)
    ultimately have "at_pos env chain latest lo n' w'"
      using n' True watch row by (simp add: at_pos_def marks_def s)
    thus ?thesis using all by blast
  next
    case False
    obtain j where j: "n \<le> j" "j < length chain" "last (page chain n l limit) = chain ! j"
      "re_Ledger (chain ! j) \<le> l"
      "\<And>i. n \<le> i \<Longrightarrow> i \<le> j \<Longrightarrow> re_Type (chain ! i) = ''contract'' \<Longrightarrow> chain ! i \<in> set (page chain n l limit)"
      using False resp(1) by (auto intro: page_reaches [OF sorted, of n l limit])
    have "covered env chain lo (Suc j) (w_db w')"
      using page_covered [OF w(1) inn [unfolded resp(1)] j(5)] unfolding covered_def watch(3) .
    hence "at_pos env chain latest lo (Suc j) w'"
      using False watch row j le cursor resp(1) by (simp add: at_pos_def marks_def s order.trans [OF j(4) le])
    thus ?thesis using j(1) by (intro disjI1 exI [of _ "Suc j"]) simp
  qed
qed

section \<open>One cycle\<close>

text \<open>Where a cycle that starts with the first \<open>n\<close> events done may end up.\<close>

definition moved :: "env \<Rightarrow> rpc_event list \<Rightarrow> (nat \<Rightarrow> u32) \<Rightarrow> u32 \<Rightarrow> nat \<Rightarrow> u32 \<Rightarrow> world \<Rightarrow> bool" where
  "moved env chain latest lo n l0 w \<longleftrightarrow>
     (\<exists>n' > n. at_pos env chain latest lo n' w)
     \<or> (\<exists>n'. at_pos env chain latest lo n' w) \<and> stored_upto env chain lo l0 (w_db w)"

lemma save_step:
  assumes chain: "good_chain chain" and plain: "\<And>chk. plain_page env chk" and mono: "mono latest"
    and l: "2 \<le> l" "l0 \<le> l" and limit: "0 < limit"
    and resp: "rs_Events resp = page chain n l limit" "rs_LatestLedger resp = l" "rs_Cursor resp = []"
  shows "triple (keeps env chain latest lo) (\<lambda>w. at_pos env chain latest lo n w \<and> l \<le> latest (w_tick w))
           (save_page env st cursor resp) (\<lambda>_. moved env chain latest lo n l0)"
proof -
  let ?K = "keeps env chain latest lo"
  let ?R = "\<lambda>w. at_pos env chain latest lo n w \<and> l \<le> latest (w_tick w)"
  let ?S = "wanted env (rs_Events resp)"
  have stable: "?R w' " if "?R w" "grows w w'" for w w'
    using that at_pos_grows [OF mono] monoD [OF mono] by (auto simp: grows_def intro: order.trans)
  have fetched: "triple ?K ?R (add_fetched k) (\<lambda>_. ?R)" for k
    unfolding add_fetched_def
  proof (rule kp.triple_update)
    fix w assume R: "?R w"
    have "grows w (w\<lparr>w_fetched := w_fetched w + int k\<rparr>)" by (simp add: grows_def)
    thus "?K w (w\<lparr>w_fetched := w_fetched w + int k\<rparr>) \<and> ?R (w\<lparr>w_fetched := w_fetched w + int k\<rparr>)"
      using stable [OF R] grows_keeps by blast
  qed
  have persist: "triple ?K ?R (persistEventsWithReorgCheck env (rs_Events resp) ll chk)
                   (\<lambda>_ w. ?S \<subseteq> ids_in (w_db w) \<and> ?R w)" for ll chk
  proof -
    have "triple grows (\<lambda>w. {} \<subseteq> ids_in (w_db w)) (persistEventsWithReorgCheck env (rs_Events resp) ll chk)
            (\<lambda>_ w. {} \<union> ?S \<subseteq> ids_in (w_db w))"
      using secures_persist [OF plain] unfolding secures_def .
    from triple_stable [OF this, of ?R] stable
    have "triple grows (\<lambda>w. {} \<subseteq> ids_in (w_db w) \<and> ?R w)
        (persistEventsWithReorgCheck env (rs_Events resp) ll chk) (\<lambda>_ w. {} \<union> ?S \<subseteq> ids_in (w_db w) \<and> ?R w)"
      by blast
    from triple_frame [OF this grows_keeps] show ?thesis by simp
  qed
  have save: "triple ?K (\<lambda>w. ?S \<subseteq> ids_in (w_db w) \<and> ?R w)
      (db_write env (\<lambda>d. ((), SaveIngestionState (fst (page_state env st resp now)) d)))
      (\<lambda>_. moved env chain latest lo n l0)" for now
  proof (rule kp.triple_write)
    fix w assume w: "?S \<subseteq> ids_in (w_db w) \<and> ?R w"
    let ?w = "ticked (w\<lparr>w_db := SaveIngestionState (fst (page_state env st resp now)) (w_db w)\<rparr>)"
    have "moved env chain latest lo n l ?w"
      using page_advances [OF chain _ _ l(1) limit resp _ mono] w unfolding moved_def by blast
    moreover have "stored_upto env chain lo l d \<Longrightarrow> stored_upto env chain lo l0 d" for d
      using l(2) unfolding stored_upto_def by (meson order.trans)
    ultimately have m: "moved env chain latest lo n l0 ?w" unfolding moved_def by blast
    thus "moved env chain latest lo n l0
            (ticked (w\<lparr>w_db := snd ((), SaveIngestionState (fst (page_state env st resp now)) (w_db w))\<rparr>))" by simp
    show "?K w (ticked (w\<lparr>w_db := snd ((), SaveIngestionState (fst (page_state env st resp now)) (w_db w))\<rparr>))"
      using m unfolding keeps_def moved_def by auto
  qed
  have "\<not> o_DryRun (e_opts env)" using plain by (simp add: plain_page_def)
  thus ?thesis
    unfolding save_page_def Let_def case_prod_beta
    by (intro kp.triple_bind [OF fetched] kp.triple_bind [OF kp.triple_gets [where Q = "\<lambda>_. ?R"]]
        kp.triple_bind [OF persist] kp.triple_bind [where Q = "\<lambda>_. moved env chain latest lo n l0"])
      (simp_all add: save kp.triple_ret)
qed

text \<open>A start position that asks for what comes after the first \<open>n\<close> events.\<close>

definition asks :: "rpc_event list \<Rightarrow> (nat \<Rightarrow> u32) \<Rightarrow> nat \<Rightarrow> u32 \<Rightarrow> string \<Rightarrow> world \<Rightarrow> bool" where
  "asks chain latest n st cursor w \<longleftrightarrow>
     (\<forall>l fs limit. latest (w_tick w) \<le> l \<longrightarrow>
        position (page_request st fs cursor limit) (visible chain l) = visible (drop n chain) l)"

lemma uint_succ: "0 < L \<Longrightarrow> L < 2 ^ 32 - 1 \<Longrightarrow> uint (of_int L + 1 :: u32) = L + 1"
proof -
  assume "0 < L" "L < 2 ^ 32 - 1"
  moreover have "(of_int L + 1 :: u32) = of_int (L + 1)" by simp
  ultimately show ?thesis by (simp only: unsigned_of_int) (simp add: take_bit_int_eq_self)
qed

lemma asks_cursor:
  assumes "good_chain chain" and "marks chain s n" and "is_LastCursor s \<noteq> []"
    and "re_Ledger (chain ! (n - 1)) \<le> latest (w_tick w)"
  shows "asks chain latest n 0 (is_LastCursor s) w"
  unfolding asks_def
proof (intro allI impI)
  fix l fs limit assume "latest (w_tick w) \<le> l"
  thus "position (page_request 0 fs (is_LastCursor s) limit) (visible chain l) = visible (drop n chain) l"
    using assms order.trans [OF assms(4)]
    by (intro position_cursor) (auto simp: marks_def page_request_def)
qed

lemma asks_ledger:
  assumes "marks chain s n" and "is_LastCursor s = []"
  shows "asks chain latest n (of_int (is_LastIngestedLedger s) + 1) [] w"
  unfolding asks_def
proof (intro allI impI)
  fix l fs limit
  let ?L = "is_LastIngestedLedger s"
  have L: "0 < ?L" "?L < 2 ^ 32 - 1"
    "\<forall>i < length chain. i < n \<longleftrightarrow> uint (re_Ledger (chain ! i)) \<le> ?L" "n \<le> length chain"
    using assms by (simp_all add: marks_def)
  have "uint (of_int ?L + 1 :: u32) = ?L + 1"
    using L(1,2) by (intro uint_succ) simp_all
  thus "position (page_request (of_int ?L + 1) fs [] limit) (visible chain l) = visible (drop n chain) l"
    using L(3,4) by (intro position_ledger) (auto simp: page_request_def word_less_def)
qed

lemma serve_page:
  assumes "asks chain latest n st cursor w" and "latest (w_tick w) \<le> l"
  shows "rs_Events (serve (visible chain l) l (page_request st [contract_filter []] cursor limit)) =
           page chain n l limit"
proof -
  have "filter (filter_matches [contract_filter []]) xs = filter (\<lambda>e. re_Type e = ''contract'') xs" for xs
    by (rule filter_cong) (auto simp: filter_matches_def contract_filter_def)
  thus ?thesis using assms by (simp add: serve_def page_def asks_def page_request_def)
qed

text \<open>Live ingestion of everything, without reorg window and without a forced start.\<close>

definition live_setting :: "env \<Rightarrow> rpc_event list \<Rightarrow> (nat \<Rightarrow> u32) \<Rightarrow> bool" where
  "live_setting env chain latest \<longleftrightarrow>
     good_chain chain \<and> provider env chain latest \<and> (\<forall>chk. plain_page env chk)
     \<and> o_StartLedger (e_opts env) = 0 \<and> 0 < o_PageLimit (e_opts env)"

lemma live_settingD:
  assumes "live_setting env chain latest"
  shows "good_chain chain" "mono latest" "\<And>chk. plain_page env chk" "o_StartLedger (e_opts env) = 0"
    "0 < effectivePageLimit (e_opts env)" "2 \<le> latest t" "\<not> o_DryRun (e_opts env)"
    "o_ReorgConfirmationWindow (e_opts env) = 0"
  using assms by (auto simp: live_setting_def provider_def effectivePageLimit_def plain_page_def)

lemma triple_pure: "(B \<Longrightarrow> triple F P m Q) \<Longrightarrow> triple F (\<lambda>w. B \<and> P w) m Q"
  unfolding triple_def by blast

lemma triple_ex: "(\<And>y. triple F (P y) m Q) \<Longrightarrow> triple F (\<lambda>w. \<exists>y. P y w) m Q"
  unfolding triple_def by blast

text \<open>What a page request brings.\<close>

definition fetched :: "env \<Rightarrow> rpc_event list \<Rightarrow> (nat \<Rightarrow> u32) \<Rightarrow> nat \<Rightarrow> u32 \<Rightarrow> rpc_error + get_events_response \<Rightarrow> world \<Rightarrow> bool" where
  "fetched env chain latest n l0 r w \<longleftrightarrow>
     (case r of
        Inl err \<Rightarrow> \<not> IsLedgerOutOfRange err \<and> \<not> IsFailoverReanchor err
      | Inr resp \<Rightarrow>
          \<exists>l. rs_Events resp = page chain n l (effectivePageLimit (e_opts env)) \<and> rs_LatestLedger resp = l
              \<and> rs_Cursor resp = [] \<and> 2 \<le> l \<and> l0 \<le> l \<and> l \<le> latest (w_tick w))"

lemma fetch_step:
  assumes "live_setting env chain latest"
  shows "triple (keeps env chain latest lo)
     (\<lambda>w. at_pos env chain latest lo n w \<and> asks chain latest n st cursor w \<and> l0 \<le> latest (w_tick w))
     (GetEvents env (page_request st [contract_filter []] cursor (effectivePageLimit (e_opts env))))
     (\<lambda>r w. at_pos env chain latest lo n w \<and> fetched env chain latest n l0 r w)"
proof (rule kp.triple_GetEvents)
  fix w assume w: "at_pos env chain latest lo n w \<and> asks chain latest n st cursor w \<and> l0 \<le> latest (w_tick w)"
  let ?req = "page_request st [contract_filter []] cursor (effectivePageLimit (e_opts env))"
  let ?l = "latest (w_tick w)"
  have mono: "mono latest" using live_settingD(2) [OF assms] .
  have "grows w (ticked w)" by (simp add: grows_def)
  hence at: "at_pos env chain latest lo n (ticked w)" using at_pos_grows [OF mono] w by blast
  have le: "?l \<le> latest (w_tick (ticked w))" by (rule monoD [OF mono]) simp
  consider "e_getEvents env (w_tick w) ?req = Inr (serve (visible chain ?l) ?l ?req)"
    | err where "e_getEvents env (w_tick w) ?req = Inl err" "\<not> IsLedgerOutOfRange err" "\<not> IsFailoverReanchor err"
    using assms unfolding live_setting_def provider_def by blast
  thus "at_pos env chain latest lo n (ticked w)
        \<and> fetched env chain latest n l0 (e_getEvents env (w_tick w) ?req) (ticked w)"
  proof cases
    case 1
    have "rs_Events (serve (visible chain ?l) ?l ?req) = page chain n ?l (effectivePageLimit (e_opts env))"
      using serve_page w by blast
    thus ?thesis
      using 1 at le w live_settingD(6) [OF assms] by (simp add: fetched_def) (simp add: serve_def)
  qed (use at in \<open>simp_all add: fetched_def\<close>)
qed

lemma singlePage_step:
  assumes live: "live_setting env chain latest"
  shows "triple (keeps env chain latest lo)
     (\<lambda>w. at_pos env chain latest lo n w \<and> asks chain latest n st cursor w \<and> l0 \<le> latest (w_tick w))
     (singlePage env st cursor [contract_filter []]) (\<lambda>_. moved env chain latest lo n l0)"
  unfolding singlePage_def
proof (rule kp.triple_bind [OF fetch_step [OF live]])
  fix r
  let ?K = "keeps env chain latest lo"
  note D = live_settingD [OF live]
  show "triple ?K (\<lambda>w. at_pos env chain latest lo n w \<and> fetched env chain latest n l0 r w)
     (case r of
        Inl err \<Rightarrow> if IsFailoverReanchor err then bindE (discardCursor env) (\<lambda>_. raise (ErrRPC err))
          else if IsLedgerOutOfRange err then bindE (reclampToOldest env []) (\<lambda>_. ret False) else raise (ErrRPC err)
      | Inr resp \<Rightarrow> bindE (maybeHandleTipRegression env (rs_LatestLedger resp))
          (\<lambda>regressed. if regressed then ret True else save_page env st cursor resp))
     (\<lambda>_. moved env chain latest lo n l0)"
  proof (cases r)
    case (Inl err)
    show ?thesis
    proof (cases "IsLedgerOutOfRange err \<or> IsFailoverReanchor err")
      case False
      thus ?thesis using Inl by (simp add: kp.triple_raise)
    qed (use Inl in \<open>auto simp: fetched_def triple_def\<close>)
  next
    case (Inr resp)
    have "bindE (maybeHandleTipRegression env (rs_LatestLedger resp))
            (\<lambda>regressed. if regressed then ret True else save_page env st cursor resp) = save_page env st cursor resp"
      using D(8) by (simp add: no_regression bindE_def ret_def fun_eq_iff)
    moreover have "triple ?K (\<lambda>w. \<exists>l. (rs_Events resp = page chain n l (effectivePageLimit (e_opts env))
          \<and> rs_LatestLedger resp = l \<and> rs_Cursor resp = [] \<and> 2 \<le> l \<and> l0 \<le> l)
          \<and> at_pos env chain latest lo n w \<and> l \<le> latest (w_tick w))
        (save_page env st cursor resp) (\<lambda>_. moved env chain latest lo n l0)"
      by (intro triple_ex triple_pure) (use save_step [OF D(1,3,2) _ _ D(5)] in blast)
    ultimately show ?thesis
      using Inr by (simp add: fetched_def) (erule triple_weaken, auto)
  qed
qed

lemma at_pos_tick:
  assumes "mono latest" and "at_pos env chain latest lo n w \<and> l0 \<le> latest (w_tick w)"
  shows "at_pos env chain latest lo n (ticked w) \<and> l0 \<le> latest (w_tick (ticked w))"
proof -
  have "grows w (ticked w)" by (simp add: grows_def)
  moreover have "latest (w_tick w) \<le> latest (w_tick (ticked w))" by (rule monoD [OF assms(1)]) simp
  ultimately show ?thesis using at_pos_grows [OF assms(1)] assms(2) order.trans by blast
qed

lemma state_step:
  assumes "mono latest"
  shows "triple (keeps env chain latest lo) (\<lambda>w. at_pos env chain latest lo n w \<and> l0 \<le> latest (w_tick w))
     (getIngestionState env)
     (\<lambda>st w. \<exists>s. (st = Some s \<and> marks chain s n)
        \<and> (is_LastCursor s \<noteq> [] \<longrightarrow> re_Ledger (chain ! (n - 1)) \<le> latest (w_tick w))
        \<and> at_pos env chain latest lo n w \<and> l0 \<le> latest (w_tick w))"
  unfolding getIngestionState_def
proof (rule kp.triple_read)
  fix w assume w: "at_pos env chain latest lo n w \<and> l0 \<le> latest (w_tick w)"
  then obtain s where "GetIngestionStateForNetwork (o_Network (e_opts env)) (w_db w) = Some s" "marks chain s n"
      "is_LastCursor s \<noteq> [] \<longrightarrow> re_Ledger (chain ! (n - 1)) \<le> latest (w_tick w)"
    unfolding at_pos_def GetIngestionStateForNetwork_def by blast
  moreover have "latest (w_tick w) \<le> latest (w_tick (ticked w))" by (rule monoD [OF assms]) simp
  ultimately show "\<exists>s. (GetIngestionStateForNetwork (o_Network (e_opts env)) (w_db w) = Some s \<and> marks chain s n)
        \<and> (is_LastCursor s \<noteq> [] \<longrightarrow> re_Ledger (chain ! (n - 1)) \<le> latest (w_tick (ticked w)))
        \<and> at_pos env chain latest lo n (ticked w) \<and> l0 \<le> latest (w_tick (ticked w))"
    using at_pos_tick [OF assms w] order.trans by blast
qed

lemma resolve_step:
  assumes live: "live_setting env chain latest"
  shows "triple (keeps env chain latest lo) (\<lambda>w. at_pos env chain latest lo n w \<and> l0 \<le> latest (w_tick w))
     (resolvePosition env)
     (\<lambda>(st, cursor) w. at_pos env chain latest lo n w \<and> asks chain latest n st cursor w \<and> l0 \<le> latest (w_tick w))"
proof -
  let ?K = "keeps env chain latest lo" and ?R = "\<lambda>w. at_pos env chain latest lo n w \<and> l0 \<le> latest (w_tick w)"
  let ?Q = "\<lambda>(st, cursor) w. at_pos env chain latest lo n w \<and> asks chain latest n st cursor w \<and> l0 \<le> latest (w_tick w)"
  note D = live_settingD [OF live]
  have pos: "setDryRunPosition env c l = ret ()" for c l using D(7) by (simp add: setDryRunPosition_def)
  have skip: "bindE (ret ()) (\<lambda>_. m) = m" for m :: "'x io" by (simp add: bindE_def ret_def fun_eq_iff)
  have resume: "triple ?K (\<lambda>w. \<exists>s. (st = Some s \<and> marks chain s n)
        \<and> (is_LastCursor s \<noteq> [] \<longrightarrow> re_Ledger (chain ! (n - 1)) \<le> latest (w_tick w)) \<and> ?R w)
      (case st of None \<Rightarrow> cold_start env
       | Some s \<Rightarrow> if is_LastCursor s \<noteq> [] then ret (0, is_LastCursor s)
           else if is_LastIngestedLedger s > 0 then ret (of_int (is_LastIngestedLedger s) + 1, [])
           else cold_start env) ?Q" for st
  proof (intro triple_ex triple_pure)
    fix s assume s: "st = Some s \<and> marks chain s n"
    hence "is_LastCursor s = [] \<Longrightarrow> is_LastIngestedLedger s > 0" by (simp add: marks_def)
    thus "triple ?K (\<lambda>w. (is_LastCursor s \<noteq> [] \<longrightarrow> re_Ledger (chain ! (n - 1)) \<le> latest (w_tick w)) \<and> ?R w)
      (case st of None \<Rightarrow> cold_start env
       | Some s \<Rightarrow> if is_LastCursor s \<noteq> [] then ret (0, is_LastCursor s)
           else if is_LastIngestedLedger s > 0 then ret (of_int (is_LastIngestedLedger s) + 1, [])
           else cold_start env) ?Q"
      using s asks_cursor [OF D(1)] asks_ledger by (auto intro!: kp.triple_ret)
  qed
  show ?thesis
    unfolding resolvePosition_def Let_def pos skip
    by (rule kp.triple_bind [OF kp.triple_gets [where Q = "\<lambda>_. ?R"]], assumption,
        rule kp.triple_bind [OF kp.triple_gets [where Q = "\<lambda>_. ?R"]], assumption)
      (use D(4,7) in \<open>auto intro!: kp.triple_bind [OF state_step [OF D(2)] resume]\<close>)
qed

lemma at_pos_unwatched: "at_pos env chain latest lo n w \<Longrightarrow> ListWatchedContracts (w_db w) = []"
  by (simp add: at_pos_def ListWatchedContracts_def)

lemma batches_step:
  assumes mono: "mono latest"
  shows "triple (keeps env chain latest lo)
     (\<lambda>w. at_pos env chain latest lo n w \<and> asks chain latest n st cursor w \<and> l0 \<le> latest (w_tick w))
     (BuildFilterBatches env)
     (\<lambda>bs w. bs = [[contract_filter []]]
        \<and> at_pos env chain latest lo n w \<and> asks chain latest n st cursor w \<and> l0 \<le> latest (w_tick w))"
  unfolding BuildFilterBatches_def
proof (rule kp.triple_bind [OF kp.triple_read])
  fix w assume w: "at_pos env chain latest lo n w \<and> asks chain latest n st cursor w \<and> l0 \<le> latest (w_tick w)"
  have "latest (w_tick w) \<le> latest (w_tick (ticked w))" by (rule monoD [OF mono]) simp
  hence "asks chain latest n st cursor (ticked w)" using w order.trans unfolding asks_def by blast
  thus "ListWatchedContracts (w_db w) = [] \<and> at_pos env chain latest lo n (ticked w)
        \<and> asks chain latest n st cursor (ticked w) \<and> l0 \<le> latest (w_tick (ticked w))"
    using w at_pos_tick [OF mono] at_pos_unwatched by blast
qed (rule kp.triple_ret, simp add: buildFilterBatches_def own_watched_def)

lemma unwatched_step:
  assumes live: "live_setting env chain latest"
  shows "triple (keeps env chain latest lo) (\<lambda>w. at_pos env chain latest lo n w \<and> l0 \<le> latest (w_tick w))
     (runOnceUnwatched env) (\<lambda>_. moved env chain latest lo n l0)"
  unfolding runOnceUnwatched_def
proof (rule kp.triple_bind [OF resolve_step [OF live]], clarsimp)
  fix st cursor
  show "triple (keeps env chain latest lo)
     (\<lambda>w. at_pos env chain latest lo n w \<and> asks chain latest n st cursor w \<and> l0 \<le> latest (w_tick w))
     (bindE (BuildFilterBatches env) (\<lambda>batches. case batches of [] \<Rightarrow> windowSweep env st batches
        | [b] \<Rightarrow> singlePage env st cursor b | b # _ # _ \<Rightarrow> windowSweep env st batches))
     (\<lambda>_. moved env chain latest lo n l0)"
    by (rule kp.triple_bind [OF batches_step [OF live_settingD(2) [OF live]]], rule triple_pure)
      (use singlePage_step [OF live] in simp)
qed

lemma cycle_step:
  assumes live: "live_setting env chain latest"
  shows "triple (keeps env chain latest lo) (\<lambda>w. at_pos env chain latest lo n w \<and> l0 \<le> latest (w_tick w))
     (runOnce env) (\<lambda>_. moved env chain latest lo n l0)"
proof -
  let ?K = "keeps env chain latest lo" and ?R = "\<lambda>w. at_pos env chain latest lo n w \<and> l0 \<le> latest (w_tick w)"
  note mono = live_settingD(2) [OF live]
  have reset: "triple ?K ?R (update (\<lambda>w. w\<lparr>w_fetched := 0, w_written := 0, w_skipped := 0\<rparr>)) (\<lambda>_. ?R)"
  proof (rule kp.triple_update)
    fix w assume w: "?R w"
    have "grows w (w\<lparr>w_fetched := 0, w_written := 0, w_skipped := 0\<rparr>)" by (simp add: grows_def)
    thus "?K w (w\<lparr>w_fetched := 0, w_written := 0, w_skipped := 0\<rparr>) \<and> ?R (w\<lparr>w_fetched := 0, w_written := 0, w_skipped := 0\<rparr>)"
      using grows_keeps at_pos_grows [OF mono] w by fastforce
  qed
  have watch: "triple ?K ?R (db_read env ListWatchedContracts) (\<lambda>ws w. ws = [] \<and> ?R w)"
  proof (rule kp.triple_read)
    fix w assume w: "?R w"
    thus "ListWatchedContracts (w_db w) = [] \<and> ?R (ticked w)"
      using at_pos_tick [OF mono w] at_pos_unwatched by blast
  qed
  show ?thesis
    unfolding runOnce_def
    by (rule kp.triple_bind [OF reset], rule kp.triple_bind [OF watch], rule triple_pure)
      (use unwatched_step [OF live] in simp)
qed

section \<open>The loop\<close>

definition quiet :: "'a io \<Rightarrow> bool" where
  "quiet m \<longleftrightarrow> triple grows anywhere m anything"

lemma quiet_bind [intro!]: "quiet m \<Longrightarrow> (\<And>x. quiet (f x)) \<Longrightarrow> quiet (bindE m f)"
  unfolding quiet_def by (rule gr.triple_bind)

lemma quiet_attempt [intro!]: "quiet m \<Longrightarrow> quiet (attempt m)"
  unfolding quiet_def by (rule gr.triple_attempt)

lemma quiet_basic [simp]:
  "quiet (ret x)" "quiet (raise err)" "quiet (gets g)" "quiet (getIngestionState env)"
  "quiet (GetLatestLedger env)" "quiet (sleep_ctx env d)"
  by (simp_all add: quiet_def gr.triple_ret gr.triple_raise gr.triple_gets gr.triple_read getIngestionState_def)
    (simp_all add: triple_def GetLatestLedger_def sleep_ctx_def gr.frame_tick split: sum.splits)

lemma quiet_update: "(\<And>w. w_db (f w) = w_db w \<and> w_tick (f w) = w_tick w) \<Longrightarrow> quiet (update f)"
  unfolding quiet_def by (rule gr.triple_update) (simp add: grows_def)

lemma quiet_lag [simp]: "quiet (observe env l i)" "quiet (lag_metric b)" "quiet (publishLagging env b)"
  by (auto simp: observe_def lag_metric_def publishLagging_def intro!: quiet_update)

lemma quiet_checkLag [simp]: "quiet (checkLag env)"
  unfolding checkLag_def Let_def by (auto intro!: quiet_update split: sum.splits option.splits)

lemma quiet_rescan: "o_ReorgConfirmationWindow (e_opts env) = 0 \<Longrightarrow> quiet (maybe_rescan env v)"
  unfolding maybe_rescan_def by auto

definition somewhere :: "env \<Rightarrow> rpc_event list \<Rightarrow> (nat \<Rightarrow> u32) \<Rightarrow> u32 \<Rightarrow> world \<Rightarrow> bool" where
  "somewhere env chain latest lo w \<longleftrightarrow> (\<exists>n. at_pos env chain latest lo n w)"

lemma somewhere_kept:
  "mono latest \<Longrightarrow> triple (keeps env chain latest lo) (somewhere env chain latest lo) m Q \<Longrightarrow>
   triple (keeps env chain latest lo) (somewhere env chain latest lo) m (\<lambda>_. somewhere env chain latest lo)"
  unfolding triple_def keeps_def somewhere_def by blast

lemma quiet_somewhere:
  "mono latest \<Longrightarrow> quiet m \<Longrightarrow>
   triple (keeps env chain latest lo) (somewhere env chain latest lo) m (\<lambda>_. somewhere env chain latest lo)"
  unfolding quiet_def
  by (rule somewhere_kept [where Q = anything], assumption, rule triple_frame, erule triple_weaken)
    (simp_all add: grows_keeps)

lemma quiet_after: "o_ReorgConfirmationWindow (e_opts env) = 0 \<Longrightarrow> quiet (after_cycle env v r)"
  using quiet_rescan unfolding after_cycle_def by (auto split: sum.splits prod.splits)

lemma iteration_step:
  assumes live: "live_setting env chain latest"
  shows "triple (keeps env chain latest lo) (somewhere env chain latest lo) (run_iteration env v)
           (\<lambda>_. somewhere env chain latest lo)"
proof -
  note D = live_settingD [OF live]
  have "triple (keeps env chain latest lo) (somewhere env chain latest lo) (runOnce env) anything"
    unfolding somewhere_def
    by (rule triple_ex, rule triple_weaken [OF cycle_step [OF live, where ?l0.0 = 0]]) simp_all
  hence "triple (keeps env chain latest lo) (somewhere env chain latest lo) (attempt (runOnce env))
           (\<lambda>_. somewhere env chain latest lo)"
    by (intro somewhere_kept [OF D(2), where Q = anything] kp.triple_attempt) simp_all
  thus ?thesis
    unfolding run_iteration_def
    by (rule kp.triple_bind) (rule quiet_somewhere [OF D(2) quiet_after [OF D(8)]])
qed

lemma loop_step:
  assumes live: "live_setting env chain latest"
  shows "triple (keeps env chain latest lo) (somewhere env chain latest lo) (run_loop env k v)
           (\<lambda>_. somewhere env chain latest lo)"
proof (induction k arbitrary: v)
  case (Suc k)
  show ?case
    unfolding run_loop.simps
    by (rule kp.triple_bind [OF iteration_step [OF live]]) (auto split: option.split intro!: kp.triple_ret Suc)
qed (simp add: kp.triple_ret)

text \<open>A database whose frontier row stands at ledger \<open>L\<close> with no cursor, and nobody watched.\<close>

definition starts_at :: "env \<Rightarrow> int \<Rightarrow> db \<Rightarrow> bool" where
  "starts_at env L d \<longleftrightarrow>
     t_watched d = [] \<and> t_tenant_watched d = [] \<and> 0 < L \<and> L < 2 ^ 32 - 1
     \<and> (\<exists>s. row_at is_Network (defaultNetwork (o_Network (e_opts env))) (t_ingestion d) = Some s
            \<and> is_LastIngestedLedger s = L \<and> is_LastCursor s = [])"

lemma starts_at_pos:
  assumes "good_chain chain" and "starts_at env L (w_db w)"
  obtains n where "at_pos env chain latest (of_int L + 1) n w" "n \<le> length chain"
proof -
  obtain n where n: "n \<le> length chain" "\<forall>i < length chain. i < n \<longleftrightarrow> uint (re_Ledger (chain ! i)) \<le> L"
    using ledger_prefix assms(1) unfolding good_chain_def by blast
  have lo: "uint (of_int L + 1 :: u32) = L + 1"
    using assms(2) by (intro uint_succ) (simp_all add: starts_at_def)
  have "\<not> (of_int L + 1 :: u32) \<le> re_Ledger (chain ! i)" if "i < n" for i
  proof -
    have "uint (re_Ledger (chain ! i)) \<le> L" using n that less_le_trans [OF that n(1)] by blast
    thus ?thesis by (simp add: word_le_def lo)
  qed
  hence "covered env chain (of_int L + 1) n (w_db w)" unfolding covered_def by blast
  moreover obtain s where s: "row_at is_Network (defaultNetwork (o_Network (e_opts env))) (t_ingestion (w_db w)) = Some s"
      "is_LastIngestedLedger s = L" "is_LastCursor s = []"
    using assms(2) unfolding starts_at_def by blast
  moreover have "marks chain s n" using n s assms(2) by (simp add: marks_def starts_at_def)
  ultimately have "at_pos env chain latest (of_int L + 1) n w"
    using assms(2) by (simp add: at_pos_def starts_at_def)
  thus ?thesis using that n(1) by blast
qed

section \<open>Progress\<close>

text \<open>A calm environment with a provider that never fails, and a loop nobody stops.\<close>

definition serene :: "env \<Rightarrow> bool" where
  "serene env \<longleftrightarrow>
     calm env \<and> (\<forall>t req. \<exists>resp. e_getEvents env t req = Inr resp) \<and> (\<forall>t. \<not> e_canceled env t)"

lemma ok_singlePage:
  assumes "serene env"
  shows "ok (singlePage env st cursor fs)"
  unfolding ok_def
proof
  fix w :: world
  let ?req = "page_request st fs cursor (effectivePageLimit (e_opts env))"
  have calm: "calm env" using assms by (simp add: serene_def)
  obtain resp where resp: "e_getEvents env (w_tick w) ?req = Inr resp" using assms unfolding serene_def by blast
  have "ok (save_page env st cursor resp)" using calm by simp
  then obtain b w' where "save_page env st cursor resp (ticked w) = (Inr b, w')" by (rule okE)
  thus "\<exists>x. fst (singlePage env st cursor fs w) = Inr x"
    using resp calm by (simp add: singlePage_def bindE_def GetEvents_def no_regression ret_def)
qed

lemma resolve_ok:
  assumes "serene env" and "o_StartLedger (e_opts env) = 0" and "at_pos env chain latest lo n w"
  shows "\<exists>pos. resolvePosition env w = (Inr pos, ticked w)"
proof -
  have calm: "calm env" using assms(1) by (simp add: serene_def)
  obtain s where s: "GetIngestionStateForNetwork (o_Network (e_opts env)) (w_db w) = Some s" "marks chain s n"
    using assms(3) unfolding at_pos_def GetIngestionStateForNetwork_def by blast
  have "getIngestionState env w = (Inr (Some s), ticked w)"
    using calm s(1) by (simp add: getIngestionState_def db_read_def)
  moreover have "is_LastCursor s = [] \<Longrightarrow> 0 < is_LastIngestedLedger s" using s(2) by (simp add: marks_def)
  ultimately show ?thesis
    using calm assms(2)
    by (simp add: resolvePosition_def bindE_def gets_def setDryRunPosition_def ret_def Let_def)
qed

lemma cycle_ok:
  assumes "serene env" and "o_StartLedger (e_opts env) = 0" and "mono latest" and "at_pos env chain latest lo n w"
  shows "\<exists>b w'. runOnce env w = (Inr b, w')"
proof -
  have calm: "calm env" using assms(1) by (simp add: serene_def)
  let ?w = "ticked (w\<lparr>w_fetched := 0, w_written := 0, w_skipped := 0\<rparr>)"
  have "grows w ?w" by (simp add: grows_def)
  hence at: "at_pos env chain latest lo n ?w" using at_pos_grows [OF assms(3,4)] by blast
  obtain st cursor where pos: "resolvePosition env ?w = (Inr (st, cursor), ticked ?w)"
    using resolve_ok [OF assms(1,2) at] by auto
  have none: "ListWatchedContracts (w_db w) = []" using at_pos_unwatched [OF assms(4)] .
  have batches: "BuildFilterBatches env (ticked ?w) = (Inr [[contract_filter []]], ticked (ticked ?w))"
    using calm none
    by (simp add: BuildFilterBatches_def bindE_def db_read_def ret_def buildFilterBatches_def own_watched_def)
  obtain b w' where "singlePage env st cursor [contract_filter []] (ticked (ticked ?w)) = (Inr b, w')"
    using ok_singlePage [OF assms(1)] by (rule okE)
  thus ?thesis
    using calm none pos batches
    by (simp add: runOnce_def runOnceUnwatched_def bindE_def update_def db_read_def)
qed

lemma after_ok:
  assumes "serene env"
  shows "\<exists>v' w'. after_cycle env v (Inr b) w = (Inr (Some v'), w')"
proof -
  have calm: "calm env" and not: "\<not> e_canceled env t" for t using assms by (simp_all add: serene_def)
  have "ok (checkLag env)"
    unfolding checkLag_def Let_def observe_def lag_metric_def publishLagging_def
    by (auto split: sum.splits option.splits)
  then obtain w1 where "checkLag env w = (Inr (), w1)" by (rule okE) auto
  thus ?thesis
    using calm not
    by (simp add: after_cycle_def bindE_def gets_def sleep_ctx_def ret_def maybe_rescan_def)
qed

lemma stored_mono: "stored_upto env chain lo l d \<Longrightarrow> ids_in d \<subseteq> ids_in d' \<Longrightarrow> stored_upto env chain lo l d'"
  unfolding stored_upto_def by blast

lemma at_pos_le: "at_pos env chain latest lo n w \<Longrightarrow> n \<le> length chain"
  by (auto simp: at_pos_def marks_def)

text \<open>An iteration gets past another event, or has them all, and keeps what it had.\<close>

lemma iteration_progress:
  assumes live: "live_setting env chain latest" and "serene env"
    and w: "at_pos env chain latest lo n w" "l0 \<le> latest (w_tick w)"
  obtains v' w' n' where "run_iteration env v w = (Inr (Some v'), w')" "at_pos env chain latest lo n' w'"
    "l0 \<le> latest (w_tick w')" "n < n' \<or> stored_upto env chain lo l0 (w_db w')"
    "ids_in (w_db w) \<subseteq> ids_in (w_db w')"
proof -
  note D = live_settingD [OF live]
  obtain b w1 where run: "runOnce env w = (Inr b, w1)" using cycle_ok [OF assms(2) D(4,2) w(1)] by blast
  have k: "keeps env chain latest lo w w1" and m: "moved env chain latest lo n l0 w1"
    using tripleD [OF cycle_step [OF live] _ run] w by blast+
  obtain v' w2 where after: "after_cycle env v (Inr b) w1 = (Inr (Some v'), w2)" using after_ok [OF assms(2)] by blast
  have g: "grows w1 w2"
    using tripleD [OF quiet_after [OF D(8), unfolded quiet_def] _ after] by blast
  obtain n' where n': "at_pos env chain latest lo n' w1" "n < n' \<or> stored_upto env chain lo l0 (w_db w1)"
    using m unfolding moved_def by blast
  have ids: "ids_in (w_db w) \<subseteq> ids_in (w_db w1)" "ids_in (w_db w1) \<subseteq> ids_in (w_db w2)" "w_tick w \<le> w_tick w2"
    using k g D(2) by (auto simp: keeps_def grows_def)
  show ?thesis
  proof (rule that)
    show "run_iteration env v w = (Inr (Some v'), w2)"
      using run after by (simp add: run_iteration_def bindE_def attempt_def)
    show "at_pos env chain latest lo n' w2" using at_pos_grows [OF D(2) n'(1) g] .
    show "l0 \<le> latest (w_tick w2)" using w(2) monoD [OF D(2) ids(3)] by (rule order.trans)
    show "n < n' \<or> stored_upto env chain lo l0 (w_db w2)" using n'(2) stored_mono ids(2) by blast
    show "ids_in (w_db w) \<subseteq> ids_in (w_db w2)" using ids by blast
  qed
qed

lemma loop_drains:
  assumes "live_setting env chain latest" and "serene env"
  shows "at_pos env chain latest lo n w \<Longrightarrow> l0 \<le> latest (w_tick w) \<Longrightarrow>
    stored_upto env chain lo l0 (w_db w) \<or> length chain - n < k \<Longrightarrow>
    \<exists>v' w'. run_loop env k v w = (Inr (Some v'), w') \<and> stored_upto env chain lo l0 (w_db w')"
proof (induction k arbitrary: n v w)
  case 0
  thus ?case by (simp add: ret_def)
next
  case (Suc k)
  obtain v' w' n' where it: "run_iteration env v w = (Inr (Some v'), w')" "at_pos env chain latest lo n' w'"
    "l0 \<le> latest (w_tick w')" "n < n' \<or> stored_upto env chain lo l0 (w_db w')"
    "ids_in (w_db w) \<subseteq> ids_in (w_db w')"
    by (rule iteration_progress [OF assms Suc.prems(1,2)])
  have "stored_upto env chain lo l0 (w_db w') \<or> length chain - n' < k"
    using it(4) Suc.prems(3) stored_mono [OF _ it(5)] at_pos_le [OF it(2)] by fastforce
  from Suc.IH [OF it(2,3) this] it(1) show ?case by (simp add: bindE_def)
qed

section \<open>A concrete run\<close>

lemma honest_live:
  assumes "good_chain chain" and "\<forall>e \<in> set chain. re_Ledger e \<le> l" and "2 \<le> l"
    and "\<And>chk. plain_page (honest_env opts chain l) chk" and "o_StartLedger opts = 0" and "0 < o_PageLimit opts"
  shows "live_setting (honest_env opts chain l\<lparr>e_fault := faults\<rparr>) chain (\<lambda>_. l)"
proof -
  have "visible chain l = chain" using assms(2) by (simp add: visible_def)
  thus ?thesis
    using assms by (simp add: live_setting_def provider_def honest_env_def plain_page_def mono_def)
qed

definition sample_chain :: "rpc_event list" where
  "sample_chain = [sample_event ''a'' 5, sample_event ''b'' 5, sample_event ''c'' 6]"

definition sample_db :: db where
  "sample_db = SaveIngestionState
     \<lparr>is_Network = [], is_LastIngestedLedger = 3, is_LastCursor = [], is_LastSuccessfulPoll = None\<rparr> empty_db"

lemma sample_live:
  "live_setting (honest_env (sample_opts 2) sample_chain 9\<lparr>e_fault := faults\<rparr>) sample_chain (\<lambda>_. 9)"
  by (rule honest_live)
    (simp_all add: good_chain_def sample_chain_def sample_event_def zero_rpc_event_def CursorValue_def
      plain_page_def honest_env_def sample_opts_def)

lemma sample_starts:
  "starts_at (honest_env (sample_opts 2) sample_chain 9\<lparr>e_fault := faults\<rparr>) 3 (w_db (fresh_world sample_db))"
  by (simp add: starts_at_def fresh_world_def sample_db_def SaveIngestionState_def empty_db_def honest_env_def
      sample_opts_def defaultNetwork_def)

lemma sample_serene: "serene (honest_env (sample_opts 2) sample_chain 9\<lparr>e_fault := \<lambda>_. None\<rparr>)"
  by (simp add: serene_def calm_def plain_page_def honest_env_def sample_opts_def)

section \<open>Properties\<close>





end
