(* ===== verification/Rpc_Failover.thy ===== *)
theory Rpc_Failover
  imports Rpc_Errors Go_Sha256 Go_Json_Scan
begin

text \<open>
  The failover client of \<^verbatim>\<open>internal/rpc/failover.go\<close>: it routes every call to the first healthy
  provider of a priority list, demotes and promotes providers, and refuses answers that would put
  a gap or foreign data into the event stream. The clients of the providers, their rate limiters,
  the clock, the random source and the order in which a Go map is walked are the environment,
  indexed by the number of steps taken so far; \<open>fc_calls\<close> records which provider was asked what.
  An error carries the values its message formats. Each method runs without interleaving with
  another one. Metrics and logging are left out, and so is the label that only serves them.
\<close>

section \<open>State\<close>

datatype provider_state = StateActive | StateDegraded | StateDown

fun provider_state_String :: "provider_state \<Rightarrow> string" where
  "provider_state_String StateActive = ''active''"
| "provider_state_String StateDegraded = ''degraded''"
| "provider_state_String StateDown = ''down''"

record rpc_provider =
  p_url :: string
  p_state :: provider_state
  p_errCount :: int
  p_okCount :: int
  p_latestLedger :: u32
  p_oldestLedger :: u32
  p_networkVerified :: bool
  p_networkInvalid :: bool
  p_xdrJSONUnsupported :: bool

record observed_event =
  ob_providerIdx :: nat
  ob_id :: string
  ob_ledger :: u32
  ob_contractID :: string
  ob_eventType :: string
  ob_txHash :: string
  ob_topicDigest :: string
  ob_value :: string
  ob_topicJSON :: string
  ob_valueJSON :: string

record observed_prefix =
  op_providerIdx :: nat
  op_eventIDs :: "string list"

datatype mismatch =
    LedgerMismatch | ContractMismatch | TypeMismatch | TxHashMismatch | ValueMismatch | TopicMismatch
  | ValueJsonMismatch | TopicJsonMismatch | IndexMismatch nat string string | MissingEvent nat nat

record provider_divergence =
  pd_ProviderURL :: string
  pd_Ledger :: u32
  pd_EventID :: string
  pd_Description :: mismatch

datatype fo_error =
    Provider client_error
  | AllProvidersDown "fo_error option"
  | FailoverReanchor
  | ProviderBehindCursor string u32 u32
  | RetentionGapError string u32 u32
  | NetworkPassphraseMismatch "(string \<times> string \<times> string) option"
  | ProviderDivergenceError mismatch

record xdr_request = get_events_request +
  rq_XDRFormat :: string

datatype call = EventsCall xdr_request | LatestLedgerCall | HealthCall | NetworkCall | LedgerEntriesCall | SimulateCall

record failover =
  fc_providers :: "rpc_provider list"
  fc_maxConsecutiveErrors :: int
  fc_probationSuccesses :: int
  fc_headSkewTolerance :: u32
  fc_expectedPassphrase :: string
  fc_lastActive :: int
  fc_cursorLedger :: u32
  fc_maxObservedHead :: u32
  fc_reanchorLedger :: u32
  fc_allDownCount :: int
  fc_allDownUntil :: instant
  fc_observedByID :: "string \<Rightarrow> observed_event option"
  fc_observedByLgr :: "u32 \<Rightarrow> observed_prefix option"
  fc_divergences :: "provider_divergence list"
  fc_tick :: nat
  fc_calls :: "(nat \<times> call) list"

record fo_env =
  fe_getEvents :: "nat \<Rightarrow> nat \<Rightarrow> xdr_request \<Rightarrow> client_error + get_events_response"
  fe_getLatestLedger :: "nat \<Rightarrow> nat \<Rightarrow> client_error + u32"
  fe_getHealth :: "nat \<Rightarrow> nat \<Rightarrow> client_error + health"
  fe_getNetwork :: "nat \<Rightarrow> (nat \<Rightarrow> client_error + string) option"
  fe_limiter :: "nat \<Rightarrow> nat \<Rightarrow> client_error option"
  fe_stopsJSON :: "nat \<Rightarrow> nat \<Rightarrow> bool"
  fe_now :: "nat \<Rightarrow> instant"
  fe_rand :: "nat \<Rightarrow> int \<Rightarrow> int"
  fe_order :: "nat \<Rightarrow> u32 list \<Rightarrow> u32 list"

abbreviation XDRFormatJSON :: string where "XDRFormatJSON \<equiv> ''json''"
abbreviation MainnetNetworkPassphrase :: string where
  "MainnetNetworkPassphrase \<equiv> ''Public Global Stellar Network ; September 2015''"
abbreviation TestnetNetworkPassphrase :: string where
  "TestnetNetworkPassphrase \<equiv> ''Test SDF Network ; September 2015''"
abbreviation FuturenetNetworkPassphrase :: string where
  "FuturenetNetworkPassphrase \<equiv> ''Test SDF Future Network ; October 2022''"

definition resolveExpectedPassphrase :: "string \<Rightarrow> string" where
  "resolveExpectedPassphrase network =
     (let trimmed = TrimSpace network; name = ToLower trimmed
      in if name \<in> {''mainnet'', ''pubnet'', ''public''} then MainnetNetworkPassphrase
         else if name \<in> {''testnet'', ''test''} then TestnetNetworkPassphrase
         else if name = ''futurenet'' then FuturenetNetworkPassphrase
         else trimmed)"

definition new_provider :: "string \<Rightarrow> rpc_provider" where
  "new_provider url = \<lparr>p_url = url, p_state = StateActive, p_errCount = 0, p_okCount = 0, p_latestLedger = 0,
     p_oldestLedger = 0, p_networkVerified = False, p_networkInvalid = False, p_xdrJSONUnsupported = False\<rparr>"

text \<open>\<^verbatim>\<open>NewFailoverClient\<close>; the options are applied to the fields before the providers are made.\<close>

definition NewFailoverClient :: "string list \<Rightarrow> (failover \<Rightarrow> failover) list \<Rightarrow> failover" where
  "NewFailoverClient urls opts =
     (let fc = \<lparr>fc_providers = [], fc_maxConsecutiveErrors = 3, fc_probationSuccesses = 2,
                fc_headSkewTolerance = 3, fc_expectedPassphrase = [], fc_lastActive = -1, fc_cursorLedger = 0,
                fc_maxObservedHead = 0, fc_reanchorLedger = 0, fc_allDownCount = 0, fc_allDownUntil = 0,
                fc_observedByID = Map.empty, fc_observedByLgr = Map.empty, fc_divergences = [], fc_tick = 0,
                fc_calls = []\<rparr>;
          fc = foldl (\<lambda>fc opt. opt fc) fc opts
      in fc\<lparr>fc_providers := map new_provider urls\<rparr>)"

definition WithFailoverMaxErrors :: "int \<Rightarrow> failover \<Rightarrow> failover" where
  "WithFailoverMaxErrors n fc = fc\<lparr>fc_maxConsecutiveErrors := n\<rparr>"

definition WithFailoverProbationSuccesses :: "int \<Rightarrow> failover \<Rightarrow> failover" where
  "WithFailoverProbationSuccesses n fc = fc\<lparr>fc_probationSuccesses := n\<rparr>"

definition WithFailoverHeadSkew :: "u32 \<Rightarrow> failover \<Rightarrow> failover" where
  "WithFailoverHeadSkew n fc = fc\<lparr>fc_headSkewTolerance := n\<rparr>"

definition WithFailoverExpectedNetworkPassphrase :: "string \<Rightarrow> failover \<Rightarrow> failover" where
  "WithFailoverExpectedNetworkPassphrase passphrase fc = fc\<lparr>fc_expectedPassphrase := TrimSpace passphrase\<rparr>"

definition WithFailoverExpectedNetwork :: "string \<Rightarrow> failover \<Rightarrow> failover" where
  "WithFailoverExpectedNetwork network fc = fc\<lparr>fc_expectedPassphrase := resolveExpectedPassphrase network\<rparr>"

section \<open>Providers\<close>

definition prov :: "failover \<Rightarrow> nat \<Rightarrow> rpc_provider" where
  "prov fc idx = fc_providers fc ! idx"

definition on_prov :: "nat \<Rightarrow> (rpc_provider \<Rightarrow> rpc_provider) \<Rightarrow> failover \<Rightarrow> failover" where
  "on_prov idx f fc = fc\<lparr>fc_providers := (fc_providers fc)[idx := f (prov fc idx)]\<rparr>"

definition demoteProvider :: "nat \<Rightarrow> provider_state \<Rightarrow> failover \<Rightarrow> failover" where
  "demoteProvider idx targetState =
     on_prov idx (\<lambda>p.
       let targetState = (if p_state p = targetState \<and> targetState = StateDegraded then StateDown else targetState)
       in p\<lparr>p_okCount := 0, p_state := targetState\<rparr>)"

definition promoteProvider :: "nat \<Rightarrow> failover \<Rightarrow> failover" where
  "promoteProvider idx = on_prov idx (\<lambda>p. p\<lparr>p_okCount := 0, p_errCount := 0, p_state := StateActive\<rparr>)"

definition SetCursorLedger :: "u32 \<Rightarrow> failover \<Rightarrow> failover" where
  "SetCursorLedger ledger fc = (if ledger \<le> fc_cursorLedger fc then fc else fc\<lparr>fc_cursorLedger := ledger\<rparr>)"

definition updateProviderRange :: "nat \<Rightarrow> u32 \<Rightarrow> u32 \<Rightarrow> failover \<Rightarrow> failover" where
  "updateProviderRange idx oldest latest fc =
     (let fc = (if oldest > 0 then on_prov idx (\<lambda>p. p\<lparr>p_oldestLedger := oldest\<rparr>) fc else fc)
      in if latest > 0
         then let fc = on_prov idx (\<lambda>p. p\<lparr>p_latestLedger := latest\<rparr>) fc
              in if latest \<le> fc_maxObservedHead fc then fc else fc\<lparr>fc_maxObservedHead := latest\<rparr>
         else fc)"

definition SetProviderLedgerRange :: "int \<Rightarrow> u32 \<Rightarrow> u32 \<Rightarrow> failover \<Rightarrow> failover" where
  "SetProviderLedgerRange idx oldest latest fc =
     (if idx < 0 \<or> idx \<ge> int (length (fc_providers fc)) then fc
      else updateProviderRange (nat idx) oldest latest fc)"

definition first_in_state :: "provider_state \<Rightarrow> nat set \<Rightarrow> failover \<Rightarrow> nat option" where
  "first_in_state st excluded fc =
     find (\<lambda>i. i \<notin> excluded \<and> \<not> p_networkInvalid (prov fc i) \<and> p_state (prov fc i) = st)
       [0..<length (fc_providers fc)]"

definition getActiveExcluding :: "nat set \<Rightarrow> failover \<Rightarrow> nat option" where
  "getActiveExcluding excluded fc =
     (case first_in_state StateActive excluded fc of
        Some i \<Rightarrow> Some i
      | None \<Rightarrow> first_in_state StateDegraded excluded fc)"

definition getActive :: "failover \<Rightarrow> nat option" where
  "getActive fc = getActiveExcluding {} fc"

definition ProviderStates :: "failover \<Rightarrow> (string \<times> provider_state) list" where
  "ProviderStates fc = map (\<lambda>p. (p_url p, p_state p)) (fc_providers fc)"

definition ProviderSupportsXDRJSON :: "fo_env \<Rightarrow> int \<Rightarrow> failover \<Rightarrow> bool" where
  "ProviderSupportsXDRJSON env idx fc =
     (if idx < 0 \<or> idx \<ge> int (length (fc_providers fc)) then False
      else if p_xdrJSONUnsupported (prov fc (nat idx)) then False
      else \<not> fe_stopsJSON env (nat idx) (fc_tick fc))"

section \<open>Outcomes of calls\<close>

definition fo_ticked :: "failover \<Rightarrow> failover" where
  "fo_ticked fc = fc\<lparr>fc_tick := Suc (fc_tick fc)\<rparr>"

definition asking :: "nat \<Rightarrow> call \<Rightarrow> failover \<Rightarrow> failover" where
  "asking idx c fc = fo_ticked fc\<lparr>fc_calls := fc_calls fc @ [(idx, c)]\<rparr>"

definition recordSuccess :: "nat \<Rightarrow> failover \<Rightarrow> failover" where
  "recordSuccess idx fc =
     (if p_networkInvalid (prov fc idx) then fc
      else
        let fc = on_prov idx (\<lambda>p. p\<lparr>p_errCount := 0\<rparr>) fc;
            fc = fc\<lparr>fc_allDownCount := 0, fc_allDownUntil := 0, fc_lastActive := int idx\<rparr>;
            s = p_state (prov fc idx)
        in if s = StateDegraded \<or> s = StateDown
           then let fc = on_prov idx (\<lambda>p. p\<lparr>p_okCount := p_okCount p + 1\<rparr>) fc
                in if p_okCount (prov fc idx) \<ge> fc_probationSuccesses fc then promoteProvider idx fc else fc
           else fc)"

definition recordError :: "nat \<Rightarrow> client_error \<Rightarrow> failover \<Rightarrow> failover" where
  "recordError idx err fc =
     (if out_of_range err then fc
      else if \<not> isDemotableError err then fc
      else
        let fc = on_prov idx (\<lambda>p. p\<lparr>p_okCount := 0, p_errCount := p_errCount p + 1\<rparr>) fc;
            c = p_errCount (prov fc idx); oldState = p_state (prov fc idx)
        in if oldState = StateActive \<and> c \<ge> fc_maxConsecutiveErrors fc then demoteProvider idx StateDegraded fc
           else if oldState = StateDegraded \<and> c \<ge> fc_maxConsecutiveErrors fc * 2
           then demoteProvider idx StateDown fc
           else fc)"

text \<open>\<^verbatim>\<open>waitLimiter\<close>: the error the rate limiter of the provider gives up with.\<close>

definition waitLimiter :: "fo_env \<Rightarrow> nat \<Rightarrow> failover \<Rightarrow> client_error option \<times> failover" where
  "waitLimiter env idx fc = (fe_limiter env idx (fc_tick fc), fo_ticked fc)"

section \<open>Choosing a provider\<close>

definition verifyProviderNetwork :: "fo_env \<Rightarrow> nat \<Rightarrow> failover \<Rightarrow> fo_error option \<times> failover" where
  "verifyProviderNetwork env idx fc =
     (if p_networkInvalid (prov fc idx) then (Some (NetworkPassphraseMismatch None), fc)
      else if fc_expectedPassphrase fc = [] \<or> p_networkVerified (prov fc idx) then (None, fc)
      else case fe_getNetwork env idx of
          None \<Rightarrow> (None, on_prov idx (\<lambda>p. p\<lparr>p_networkVerified := True\<rparr>) fc)
        | Some inspector \<Rightarrow>
            (case waitLimiter env idx fc of
               (Some err, fc) \<Rightarrow> (Some (Provider err), fc)
             | (None, fc) \<Rightarrow>
                 (case inspector (fc_tick fc) of
                    Inl err \<Rightarrow> (Some (Provider err), recordError idx err (asking idx NetworkCall fc))
                  | Inr passphrase \<Rightarrow>
                      let fc = asking idx NetworkCall fc; actual = TrimSpace passphrase
                      in if actual \<noteq> fc_expectedPassphrase fc
                         then (Some (NetworkPassphraseMismatch
                                 (Some (p_url (prov fc idx), actual, fc_expectedPassphrase fc))),
                               demoteProvider idx StateDown (on_prov idx (\<lambda>p. p\<lparr>p_networkInvalid := True\<rparr>) fc))
                         else (None, on_prov idx (\<lambda>p. p\<lparr>p_networkVerified := True\<rparr>) fc))))"

fun all_down_base :: "nat \<Rightarrow> duration \<Rightarrow> duration" where
  "all_down_base 0 base = base"
| "all_down_base (Suc n) base =
     (let base = base * 2 in if base > 30 * second then 30 * second else all_down_base n base)"

definition allDownBackoff :: "(int \<Rightarrow> int) \<Rightarrow> failover \<Rightarrow> duration" where
  "allDownBackoff rand_N fc =
     (let base = all_down_base (nat (fc_allDownCount fc)) second; jitter = rand_N (base div 4)
      in base - base div 4 + jitter)"

definition is_mismatch :: "fo_error \<Rightarrow> bool" where
  "is_mismatch err \<longleftrightarrow> (case err of NetworkPassphraseMismatch _ \<Rightarrow> True | _ \<Rightarrow> False)"

text \<open>
  The loop of \<^verbatim>\<open>pickProviderExcluding\<close>: it returns the error, the index or the last mismatch,
  together with the excluded providers, which the caller shares. Every round excludes a provider.
\<close>

lemma on_prov_simps [simp]:
  "length (fc_providers (on_prov idx f fc)) = length (fc_providers fc)"
  "fc_tick (on_prov idx f fc) = fc_tick fc" "fc_calls (on_prov idx f fc) = fc_calls fc"
  "fc_cursorLedger (on_prov idx f fc) = fc_cursorLedger fc" "fc_lastActive (on_prov idx f fc) = fc_lastActive fc"
  "fc_reanchorLedger (on_prov idx f fc) = fc_reanchorLedger fc"
  "fc_expectedPassphrase (on_prov idx f fc) = fc_expectedPassphrase fc"
  "fc_observedByID (on_prov idx f fc) = fc_observedByID fc"
  "fc_observedByLgr (on_prov idx f fc) = fc_observedByLgr fc"
  "fc_maxObservedHead (on_prov idx f fc) = fc_maxObservedHead fc"
  "fc_maxConsecutiveErrors (on_prov idx f fc) = fc_maxConsecutiveErrors fc"
  "fc_probationSuccesses (on_prov idx f fc) = fc_probationSuccesses fc"
  "fc_headSkewTolerance (on_prov idx f fc) = fc_headSkewTolerance fc"
  "fc_allDownUntil (on_prov idx f fc) = fc_allDownUntil fc"
  by (simp_all add: on_prov_def)

lemma first_in_state_Some:
  "first_in_state st ex fc = Some i \<Longrightarrow>
     i < length (fc_providers fc) \<and> i \<notin> ex \<and> \<not> p_networkInvalid (prov fc i) \<and> p_state (prov fc i) = st"
  by (auto simp: first_in_state_def find_Some_iff)

lemma getActiveExcluding_Some:
  "getActiveExcluding ex fc = Some i \<Longrightarrow>
     i < length (fc_providers fc) \<and> i \<notin> ex \<and> \<not> p_networkInvalid (prov fc i) \<and> p_state (prov fc i) \<noteq> StateDown"
  by (auto simp: getActiveExcluding_def split: option.splits dest!: first_in_state_Some)

lemma fo_sizes [simp]:
  "length (fc_providers (fo_ticked fc)) = length (fc_providers fc)"
  "length (fc_providers (asking idx c fc)) = length (fc_providers fc)"
  "length (fc_providers (demoteProvider idx st fc)) = length (fc_providers fc)"
  "length (fc_providers (promoteProvider idx fc)) = length (fc_providers fc)"
  "length (fc_providers (recordSuccess idx fc)) = length (fc_providers fc)"
  "length (fc_providers (recordError idx err fc)) = length (fc_providers fc)"
  "length (fc_providers (updateProviderRange idx oldest latest fc)) = length (fc_providers fc)"
  by (simp_all add: fo_ticked_def asking_def demoteProvider_def promoteProvider_def recordSuccess_def
      recordError_def updateProviderRange_def Let_def)

lemma verify_size: "verifyProviderNetwork env idx fc = (r, fc') \<Longrightarrow> length (fc_providers fc') = length (fc_providers fc)"
  by (auto simp: verifyProviderNetwork_def waitLimiter_def Let_def split: if_splits option.splits sum.splits)

definition unexcluded :: "nat set \<Rightarrow> failover \<Rightarrow> nat" where
  "unexcluded ex fc = card ({..<length (fc_providers fc)} - ex)"

lemma unexcluded_insert:
  "i < length (fc_providers fc) \<Longrightarrow> i \<notin> ex \<Longrightarrow> length (fc_providers fc') = length (fc_providers fc) \<Longrightarrow>
     unexcluded (insert i ex) fc' < unexcluded ex fc"
  unfolding unexcluded_def by (rule psubset_card_mono) auto

function pick_loop ::
  "fo_env \<Rightarrow> nat set \<Rightarrow> fo_error option \<Rightarrow> failover \<Rightarrow> (fo_error option + fo_error + nat) \<times> nat set \<times> failover" where
  "pick_loop env excluded lastMismatchErr fc =
     (case getActiveExcluding excluded fc of
        None \<Rightarrow> (Inl lastMismatchErr, excluded, fc)
      | Some idx \<Rightarrow>
          (case verifyProviderNetwork env idx fc of
             (Some err, fc') \<Rightarrow>
               if is_mismatch err then pick_loop env (insert idx excluded) (Some err) fc'
               else (Inr (Inl err), excluded, fc')
           | (None, fc') \<Rightarrow> (Inr (Inr idx), excluded, fc')))"
  by pat_completeness auto
termination
proof (relation "measure (\<lambda>(env, ex, err, fc). unexcluded ex fc)", goal_cases)
  case (2 env excluded err fc idx v fc' e)
  from 2(2,3) have v: "verifyProviderNetwork env idx fc = (Some e, fc')" by simp
  show ?case using getActiveExcluding_Some [OF 2(1)] verify_size [OF v] v by (simp add: unexcluded_insert)
qed simp

declare pick_loop.simps [simp del]

definition no_provider :: "fo_env \<Rightarrow> fo_error option \<Rightarrow> nat set \<Rightarrow> failover \<Rightarrow> fo_error \<times> failover" where
  "no_provider env lastMismatchErr excluded fc =
     (if excluded \<noteq> {} \<and> getActive fc \<noteq> None
      then (case lastMismatchErr of Some err \<Rightarrow> err | None \<Rightarrow> AllProvidersDown None, fc)
      else
        let fc = fc\<lparr>fc_allDownCount := fc_allDownCount fc + 1\<rparr>;
            until = fe_now env (fc_tick fc) + allDownBackoff (fe_rand env (fc_tick fc)) fc
        in (AllProvidersDown lastMismatchErr, fo_ticked fc\<lparr>fc_allDownUntil := until\<rparr>))"

definition pickProviderExcluding ::
  "fo_env \<Rightarrow> nat set \<Rightarrow> failover \<Rightarrow> (fo_error + nat) \<times> nat set \<times> failover" where
  "pickProviderExcluding env excluded fc =
     (if fc_allDownUntil fc \<noteq> 0 \<and> fc_allDownUntil fc - fe_now env (fc_tick fc) > 0
      then (Inl (AllProvidersDown None), excluded, fc)
      else
        case pick_loop env excluded None (fc\<lparr>fc_allDownUntil := 0\<rparr>) of
            (Inr (Inl err), excluded, fc) \<Rightarrow> (Inl err, excluded, fc)
          | (Inr (Inr idx), excluded, fc) \<Rightarrow> (Inr idx, excluded, fc)
          | (Inl lastMismatchErr, excluded, fc) \<Rightarrow>
              (case no_provider env lastMismatchErr excluded fc of (err, fc) \<Rightarrow> (Inl err, excluded, fc)))"

definition pickProvider :: "fo_env \<Rightarrow> failover \<Rightarrow> (fo_error + nat) \<times> failover" where
  "pickProvider env fc = (case pickProviderExcluding env {} fc of (r, _, fc) \<Rightarrow> (r, fc))"

section \<open>Divergence between providers\<close>

fun first_some :: "('a \<Rightarrow> 'b option) \<Rightarrow> 'a list \<Rightarrow> 'b option" where
  "first_some f [] = None"
| "first_some f (x # xs) = (case f x of Some y \<Rightarrow> Some y | None \<Rightarrow> first_some f xs)"

text \<open>\<^verbatim>\<open>json.Marshal\<close> of raw messages: each is compacted, and HTML characters and line separators are
  escaped.\<close>

fun html_escape :: "string \<Rightarrow> string" where
  "html_escape [] = []"
| "html_escape (c # s) =
     (if c = CHR ''<'' then CHR 0x5C # ''u003c'' @ html_escape s
      else if c = CHR ''>'' then CHR 0x5C # ''u003e'' @ html_escape s
      else if c = CHR ''&'' then CHR 0x5C # ''u0026'' @ html_escape s
      else if c = CHR 0xE2 \<and> take 2 s = [CHR 0x80, CHR 0xA8] then CHR 0x5C # ''u2028'' @ html_escape (drop 2 s)
      else if c = CHR 0xE2 \<and> take 2 s = [CHR 0x80, CHR 0xA9] then CHR 0x5C # ''u2029'' @ html_escape (drop 2 s)
      else c # html_escape s)"

fun comma_join :: "string list \<Rightarrow> string" where
  "comma_join [] = []"
| "comma_join [x] = x"
| "comma_join (x # xs) = x @ '','' @ comma_join xs"

definition marshal_raws :: "string list \<Rightarrow> string option" where
  "marshal_raws raws =
     (let parts = map (\<lambda>raw. if raw = [] then Some ''null'' else map_option html_escape (Compact raw)) raws
      in if None \<in> set parts then None else Some (''['' @ comma_join (map the parts) @ '']''))"

definition topic_digest :: "string list \<Rightarrow> string" where
  "topic_digest topics =
     (if topics = [] then [] else hex_encode (sha256 (concat (map (\<lambda>t. t @ ''|'') topics))))"

definition topic_json :: "string list option \<Rightarrow> string" where
  "topic_json topics =
     (case topics of
        None \<Rightarrow> []
      | Some ts \<Rightarrow> if ts = [] then [] else case marshal_raws ts of None \<Rightarrow> [] | Some b \<Rightarrow> b)"

definition buildObservedEvent :: "nat \<Rightarrow> rpc_event \<Rightarrow> observed_event" where
  "buildObservedEvent providerIdx ev =
     \<lparr>ob_providerIdx = providerIdx, ob_id = re_ID ev, ob_ledger = re_Ledger ev, ob_contractID = re_ContractID ev,
      ob_eventType = re_Type ev, ob_txHash = re_TxHash ev, ob_topicDigest = topic_digest (re_Topic ev),
      ob_value = re_Value ev, ob_topicJSON = topic_json (re_TopicJSON ev),
      ob_valueJSON = (case re_ValueJSON ev of None \<Rightarrow> [] | Some v \<Rightarrow> v)\<rparr>"

definition differ :: "string \<Rightarrow> string \<Rightarrow> bool" where
  "differ a b \<longleftrightarrow> a \<noteq> [] \<and> b \<noteq> [] \<and> a \<noteq> b"

definition compareObservedEvents :: "observed_event \<Rightarrow> observed_event \<Rightarrow> mismatch option" where
  "compareObservedEvents prev cur =
     (if ob_ledger prev \<noteq> ob_ledger cur then Some LedgerMismatch
      else if ob_contractID prev \<noteq> ob_contractID cur then Some ContractMismatch
      else if ob_eventType prev \<noteq> ob_eventType cur then Some TypeMismatch
      else if ob_txHash prev \<noteq> ob_txHash cur then Some TxHashMismatch
      else if differ (ob_value prev) (ob_value cur) then Some ValueMismatch
      else if differ (ob_topicDigest prev) (ob_topicDigest cur) then Some TopicMismatch
      else if differ (ob_valueJSON prev) (ob_valueJSON cur) then Some ValueJsonMismatch
      else if differ (ob_topicJSON prev) (ob_topicJSON cur) then Some TopicJsonMismatch
      else None)"

definition event_divergence :: "nat \<Rightarrow> failover \<Rightarrow> rpc_event \<Rightarrow> provider_divergence option" where
  "event_divergence idx fc ev =
     (case fc_observedByID fc (re_ID ev) of
        None \<Rightarrow> None
      | Some prev \<Rightarrow>
          if ob_providerIdx prev \<noteq> idx
          then map_option (\<lambda>reason. \<lparr>pd_ProviderURL = p_url (prov fc idx), pd_Ledger = re_Ledger ev,
                 pd_EventID = re_ID ev, pd_Description = reason\<rparr>)
                 (compareObservedEvents prev (buildObservedEvent idx ev))
          else None)"

definition ids_at :: "u32 \<Rightarrow> rpc_event list \<Rightarrow> string list" where
  "ids_at ledger events = map re_ID (filter (\<lambda>ev. re_Ledger ev = ledger) events)"

definition ledger_divergence ::
  "nat \<Rightarrow> u32 \<Rightarrow> get_events_response \<Rightarrow> failover \<Rightarrow> u32 \<Rightarrow> provider_divergence option" where
  "ledger_divergence idx startLedger resp fc ledger =
     (let gotIDs = ids_at ledger (rs_Events resp); maxLedgerInPage = re_Ledger (last (rs_Events resp));
          divergence = (\<lambda>id reason. \<lparr>pd_ProviderURL = p_url (prov fc idx), pd_Ledger = ledger, pd_EventID = id,
                                     pd_Description = reason\<rparr>)
      in if startLedger > 0 \<and> ledger < startLedger then None
         else case fc_observedByLgr fc ledger of
             None \<Rightarrow> None
           | Some prev \<Rightarrow>
               if op_providerIdx prev = idx \<or> op_eventIDs prev = [] then None
               else case first_some (\<lambda>i. if gotIDs ! i \<noteq> op_eventIDs prev ! i
                           then Some (divergence (gotIDs ! i) (IndexMismatch i (gotIDs ! i) (op_eventIDs prev ! i)))
                           else None) [0..<min (length gotIDs) (length (op_eventIDs prev))] of
                   Some d \<Rightarrow> Some d
                 | None \<Rightarrow>
                     if length gotIDs < length (op_eventIDs prev) \<and> (maxLedgerInPage > ledger \<or> rs_Cursor resp = [])
                     then Some (divergence (op_eventIDs prev ! length gotIDs)
                                  (MissingEvent (length gotIDs) (length (op_eventIDs prev))))
                     else None)"

definition append_new :: "string list \<Rightarrow> string list \<Rightarrow> string list" where
  "append_new ids new = foldl (\<lambda>acc id. if id \<in> set acc then acc else acc @ [id]) ids new"

definition record_events :: "nat \<Rightarrow> rpc_event list \<Rightarrow> failover \<Rightarrow> failover" where
  "record_events idx events fc =
     fc\<lparr>fc_observedByID := foldl (\<lambda>m ev. m(re_ID ev \<mapsto> buildObservedEvent idx ev)) (fc_observedByID fc) events,
        fc_observedByLgr := (\<lambda>ledger.
          if ledger \<in> set (map re_Ledger events)
          then Some (case fc_observedByLgr fc ledger of
                 None \<Rightarrow> \<lparr>op_providerIdx = idx, op_eventIDs = ids_at ledger events\<rparr>
               | Some existing \<Rightarrow> existing\<lparr>op_eventIDs := append_new (op_eventIDs existing) (ids_at ledger events)\<rparr>)
          else fc_observedByLgr fc ledger)\<rparr>"

definition checkAndRecordEvents ::
  "fo_env \<Rightarrow> nat \<Rightarrow> u32 \<Rightarrow> bool \<Rightarrow> get_events_response \<Rightarrow> failover \<Rightarrow> provider_divergence option \<times> failover" where
  "checkAndRecordEvents env idx startLedger hasCursor resp fc =
     (if rs_Events resp = [] then (None, fc)
      else
        let byEvent = first_some (event_divergence idx fc) (rs_Events resp);
            ledgers = fe_order env (fc_tick fc) (remdups (map re_Ledger (rs_Events resp)));
            found = (case byEvent of
                       Some d \<Rightarrow> Some d
                     | None \<Rightarrow> if hasCursor then None
                              else first_some (ledger_divergence idx startLedger resp fc) ledgers)
        in case found of
            Some d \<Rightarrow> (Some d, fc\<lparr>fc_divergences := fc_divergences fc @ [d]\<rparr>)
          | None \<Rightarrow> (None, record_events idx (rs_Events resp) fc))"

section \<open>GetEvents\<close>

definition parseLedgerFromCursor :: "string \<Rightarrow> u32" where
  "parseLedgerFromCursor cursor =
     (case IndexByte cursor (CHR ''-'') of
        None \<Rightarrow> 0
      | Some dash \<Rightarrow>
          if dash = 0 then 0
          else case ParseUint 32 (take dash cursor) of None \<Rightarrow> 0 | Some n \<Rightarrow> of_nat n)"

definition requiredLedgerForRequest :: "xdr_request \<Rightarrow> failover \<Rightarrow> u32" where
  "requiredLedgerForRequest req fc =
     (let reqLedger = fc_cursorLedger fc;
          reqLedger = (if rq_StartLedger req > reqLedger then rq_StartLedger req else reqLedger)
      in if rq_Cursor req \<noteq> [] \<and> parseLedgerFromCursor (rq_Cursor req) > reqLedger
         then parseLedgerFromCursor (rq_Cursor req) else reqLedger)"

definition hasCandidateWithHeadAtLeast :: "nat set \<Rightarrow> nat \<Rightarrow> u32 \<Rightarrow> failover \<Rightarrow> bool" where
  "hasCandidateWithHeadAtLeast excluded selfIdx minHead fc =
     list_ex (\<lambda>i. i \<noteq> selfIdx \<and> i \<notin> excluded \<and> \<not> p_networkInvalid (prov fc i) \<and> p_state (prov fc i) \<noteq> StateDown
                \<and> (p_latestLedger (prov fc i) = 0 \<or> p_latestLedger (prov fc i) \<ge> minHead))
       [0..<length (fc_providers fc)]"

definition ask_events ::
  "fo_env \<Rightarrow> nat \<Rightarrow> xdr_request \<Rightarrow> failover \<Rightarrow> (client_error + get_events_response) \<times> failover" where
  "ask_events env idx req fc = (fe_getEvents env idx (fc_tick fc) req, asking idx (EventsCall req) fc)"

definition callProviderGetEvents ::
  "fo_env \<Rightarrow> nat \<Rightarrow> xdr_request \<Rightarrow> failover \<Rightarrow> (client_error + get_events_response) \<times> failover" where
  "callProviderGetEvents env idx req fc =
     (let callReq = (if p_xdrJSONUnsupported (prov fc idx) then req\<lparr>rq_XDRFormat := []\<rparr>
                     else if rq_XDRFormat req = [] then req\<lparr>rq_XDRFormat := XDRFormatJSON\<rparr> else req);
          unsupported = on_prov idx (\<lambda>p. p\<lparr>p_xdrJSONUnsupported := True\<rparr>);
          (r, fc) = ask_events env idx callReq fc;
          (r, fc) = (case r of
                       Inl err \<Rightarrow> if isXDRFormatRejected err
                                  then ask_events env idx (callReq\<lparr>rq_XDRFormat := []\<rparr>) (unsupported fc)
                                  else (r, fc)
                     | Inr _ \<Rightarrow> (r, fc))
      in (r, if fe_stopsJSON env idx (fc_tick fc) then unsupported fc else fc))"

text \<open>What a round does with the chosen provider: its answer, an error for the caller, or a reason to try
  another provider.\<close>

datatype gate = Behind | Gap | Divergent

datatype outcome = Answer get_events_response | Fail fo_error | Skip gate fo_error

definition demote_for :: "gate \<Rightarrow> provider_state" where
  "demote_for g = (case g of Divergent \<Rightarrow> StateDown | _ \<Rightarrow> StateDegraded)"

definition selection_check :: "xdr_request \<Rightarrow> u32 \<Rightarrow> nat set \<Rightarrow> nat \<Rightarrow> failover \<Rightarrow> (gate \<times> fo_error) option" where
  "selection_check req requiredLedger excluded idx fc =
     (let p = prov fc idx; pLatest = p_latestLedger p; maxHead = fc_maxObservedHead fc;
          pOldest = p_oldestLedger p
      in if requiredLedger > 0 \<and> pLatest > 0 \<and> pLatest < requiredLedger
         then Some (Behind, ProviderBehindCursor (p_url p) pLatest requiredLedger)
         else if maxHead > 0 \<and> pLatest > 0 \<and> pLatest + fc_headSkewTolerance fc < maxHead
                 \<and> hasCandidateWithHeadAtLeast excluded idx (maxHead - fc_headSkewTolerance fc) fc
         then Some (Behind, ProviderBehindCursor (p_url p) pLatest maxHead)
         else if rq_Cursor req = [] \<and> rq_StartLedger req > 0 \<and> pOldest > rq_StartLedger req
         then Some (Gap, RetentionGapError (p_url p) (rq_StartLedger req) pOldest)
         else None)"

definition response_check :: "xdr_request \<Rightarrow> u32 \<Rightarrow> nat \<Rightarrow> get_events_response \<Rightarrow> failover \<Rightarrow> (gate \<times> fo_error) option" where
  "response_check req requiredLedger idx resp fc =
     (if requiredLedger > 0 \<and> rs_LatestLedger resp > 0 \<and> rs_LatestLedger resp < requiredLedger
      then Some (Behind, ProviderBehindCursor (p_url (prov fc idx)) (rs_LatestLedger resp) requiredLedger)
      else if rq_Cursor req = [] \<and> rq_StartLedger req > 0 \<and> rs_OldestLedger resp > rq_StartLedger req
      then Some (Gap, RetentionGapError (p_url (prov fc idx)) (rq_StartLedger req) (rs_OldestLedger resp))
      else None)"

definition answered :: "xdr_request \<Rightarrow> nat \<Rightarrow> get_events_response \<Rightarrow> failover \<Rightarrow> failover" where
  "answered req idx resp fc =
     (let maxLedger = foldl (\<lambda>m ev. if re_Ledger ev > m then re_Ledger ev else m) 0 (rs_Events resp);
          maxLedger = (if maxLedger = 0 \<and> rs_Cursor resp \<noteq> [] then parseLedgerFromCursor (rs_Cursor resp)
                       else maxLedger);
          fc = (if maxLedger > 0 then SetCursorLedger maxLedger fc else fc);
          fc = (if rq_Cursor req = [] then fc\<lparr>fc_reanchorLedger := 0\<rparr> else fc)
      in recordSuccess idx fc)"

definition skipping :: "nat \<Rightarrow> gate \<times> fo_error \<Rightarrow> failover \<Rightarrow> outcome \<times> failover" where
  "skipping idx reason fc = (Skip (fst reason) (snd reason), demoteProvider idx (demote_for (fst reason)) fc)"

definition after_response ::
  "fo_env \<Rightarrow> xdr_request \<Rightarrow> u32 \<Rightarrow> nat \<Rightarrow> get_events_response \<Rightarrow> failover \<Rightarrow> outcome \<times> failover" where
  "after_response env req requiredLedger idx resp fc =
     (let fc = updateProviderRange idx (rs_OldestLedger resp) (rs_LatestLedger resp) fc
      in case response_check req requiredLedger idx resp fc of
          Some reason \<Rightarrow> skipping idx reason fc
        | None \<Rightarrow>
            (case checkAndRecordEvents env idx (rq_StartLedger req) (rq_Cursor req \<noteq> []) resp fc of
               (Some d, fc) \<Rightarrow> skipping idx (Divergent, ProviderDivergenceError (pd_Description d)) fc
             | (None, fc) \<Rightarrow> (Answer resp, answered req idx resp fc)))"

definition try_provider ::
  "fo_env \<Rightarrow> xdr_request \<Rightarrow> u32 \<Rightarrow> nat set \<Rightarrow> nat \<Rightarrow> failover \<Rightarrow> outcome \<times> failover" where
  "try_provider env req requiredLedger excluded idx fc =
     (case selection_check req requiredLedger excluded idx fc of
        Some reason \<Rightarrow> skipping idx reason fc
      | None \<Rightarrow>
          if rq_Cursor req \<noteq> [] \<and> fc_lastActive fc \<noteq> -1 \<and> fc_lastActive fc \<noteq> int idx
          then (Fail FailoverReanchor,
                if fc_cursorLedger fc > 0 then fc\<lparr>fc_reanchorLedger := fc_cursorLedger fc\<rparr> else fc)
          else case waitLimiter env idx fc of
              (Some err, fc) \<Rightarrow> (Fail (Provider err), fc)
            | (None, fc) \<Rightarrow>
                (case callProviderGetEvents env idx req fc of
                   (Inl err, fc) \<Rightarrow>
                     if out_of_range err
                     then if length (fc_providers fc) = 1 then (Fail (Provider err), recordError idx err fc)
                          else skipping idx (Gap, Provider err) fc
                     else (Fail (Provider err), recordError idx err fc)
                 | (Inr resp, fc) \<Rightarrow> after_response env req requiredLedger idx resp fc))"

record skips =
  lastBehindErr :: "fo_error option"
  lastRetentionGapErr :: "fo_error option"
  lastDivergenceErr :: "fo_error option"

definition no_skips :: skips where
  "no_skips = \<lparr>lastBehindErr = None, lastRetentionGapErr = None, lastDivergenceErr = None\<rparr>"

fun note_skip :: "gate \<Rightarrow> fo_error \<Rightarrow> skips \<Rightarrow> skips" where
  "note_skip Behind err s = s\<lparr>lastBehindErr := Some err\<rparr>"
| "note_skip Gap err s = s\<lparr>lastRetentionGapErr := Some err\<rparr>"
| "note_skip Divergent err s = s\<lparr>lastDivergenceErr := Some err\<rparr>"

definition report :: "skips \<Rightarrow> fo_error \<Rightarrow> fo_error" where
  "report s err =
     (case lastRetentionGapErr s of Some e \<Rightarrow> e
      | None \<Rightarrow> (case lastBehindErr s of Some e \<Rightarrow> e
               | None \<Rightarrow> (case lastDivergenceErr s of Some e \<Rightarrow> e | None \<Rightarrow> err)))"

text \<open>A round changes neither the number of providers nor, when it skips the provider, anything the
  termination of the loop depends on.\<close>

lemma call_size: "callProviderGetEvents env idx req fc = (r, fc') \<Longrightarrow> length (fc_providers fc') = length (fc_providers fc)"
  by (auto simp: callProviderGetEvents_def ask_events_def Let_def split: if_splits sum.splits)

lemma check_size: "checkAndRecordEvents env idx l c resp fc = (r, fc') \<Longrightarrow> length (fc_providers fc') = length (fc_providers fc)"
  by (auto simp: checkAndRecordEvents_def record_events_def Let_def split: if_splits option.splits)

lemma answered_size [simp]: "length (fc_providers (answered req idx resp fc)) = length (fc_providers fc)"
  by (simp add: answered_def SetCursorLedger_def Let_def)

lemma skipping_size: "skipping idx reason fc = (r, fc') \<Longrightarrow> length (fc_providers fc') = length (fc_providers fc)"
  by (auto simp: skipping_def)

lemma response_size: "after_response env req l idx resp fc = (r, fc') \<Longrightarrow> length (fc_providers fc') = length (fc_providers fc)"
  by (auto simp: after_response_def Let_def split: option.splits prod.splits dest!: skipping_size check_size)

lemma try_size: "try_provider env req l ex idx fc = (r, fc') \<Longrightarrow> length (fc_providers fc') = length (fc_providers fc)"
  by (auto simp: try_provider_def waitLimiter_def split: option.splits if_splits prod.splits sum.splits
      dest!: skipping_size call_size response_size)

text \<open>Induction over the rounds of the loop.\<close>

lemma pick_loop_rounds [consumes 1, case_names none fault picked mismatch]:
  assumes "pick_loop env ex err fc = (r, ex', fc')"
    and "\<And>ex err fc. getActiveExcluding ex fc = None \<Longrightarrow> P ex err fc (Inl err) ex fc"
    and "\<And>ex fc idx e fc' err. getActiveExcluding ex fc = Some idx \<Longrightarrow> verifyProviderNetwork env idx fc = (Some e, fc')
           \<Longrightarrow> \<not> is_mismatch e \<Longrightarrow> P ex err fc (Inr (Inl e)) ex fc'"
    and "\<And>ex fc idx fc' err. getActiveExcluding ex fc = Some idx \<Longrightarrow> verifyProviderNetwork env idx fc = (None, fc')
           \<Longrightarrow> P ex err fc (Inr (Inr idx)) ex fc'"
    and "\<And>ex fc idx e fc' r ex' fc'' err. getActiveExcluding ex fc = Some idx
           \<Longrightarrow> verifyProviderNetwork env idx fc = (Some e, fc') \<Longrightarrow> is_mismatch e
           \<Longrightarrow> P (insert idx ex) (Some e) fc' r ex' fc'' \<Longrightarrow> P ex err fc r ex' fc''"
  shows "P ex err fc r ex' fc'"
  using assms(1)
proof (induction env \<equiv> env ex err fc arbitrary: r ex' fc' rule: pick_loop.induct)
  case (1 ex err fc)
  note eq = 1(2) [unfolded pick_loop.simps [of env ex err fc]]
  show ?case
  proof (cases "getActiveExcluding ex fc")
    case None
    thus ?thesis using eq assms(2) by auto
  next
    case (Some idx)
    note act = this
    obtain v fc1 where v: "verifyProviderNetwork env idx fc = (v, fc1)" by fastforce
    show ?thesis
    proof (cases v)
      case None
      thus ?thesis using eq v act assms(4) by auto
    next
      case (Some e)
      show ?thesis
      proof (cases "is_mismatch e")
        case True
        have "P (insert idx ex) (Some e) fc1 r ex' fc'"
          by (rule 1(1) [OF act _ Some True]) (use eq v act Some True in auto)
        thus ?thesis using assms(5) act v Some True by blast
      qed (use eq v act Some assms(3) in auto)
    qed
  qed
qed

lemma pick_loop_facts:
  assumes "pick_loop env ex err fc = (r, ex', fc')"
  shows "length (fc_providers fc') = length (fc_providers fc) \<and> ex \<subseteq> ex'
    \<and> (\<forall>idx. r = Inr (Inr idx) \<longrightarrow> idx < length (fc_providers fc) \<and> idx \<notin> ex')"
  using assms
  by (induction rule: pick_loop_rounds) (auto dest: getActiveExcluding_Some verify_size)

lemma pick_facts:
  assumes "pickProviderExcluding env ex fc = (Inr idx, ex', fc')"
  shows "length (fc_providers fc') = length (fc_providers fc)" "ex \<subseteq> ex'" "idx < length (fc_providers fc)" "idx \<notin> ex'"
proof -
  from assms obtain fc0 where "pick_loop env ex None fc0 = (Inr (Inr idx), ex', fc')"
      "length (fc_providers fc0) = length (fc_providers fc)"
    by (auto simp: pickProviderExcluding_def Let_def split: if_splits prod.splits sum.splits)
  from pick_loop_facts [OF this(1)] this(2)
  show "length (fc_providers fc') = length (fc_providers fc)" "ex \<subseteq> ex'" "idx < length (fc_providers fc)" "idx \<notin> ex'"
    by auto
qed

function get_events_loop ::
  "fo_env \<Rightarrow> xdr_request \<Rightarrow> u32 \<Rightarrow> nat set \<Rightarrow> skips \<Rightarrow> failover \<Rightarrow> (fo_error + get_events_response) \<times> failover" where
  "get_events_loop env req requiredLedger excluded errs fc =
     (case pickProviderExcluding env excluded fc of
        (Inl err, _, fc') \<Rightarrow> (Inl (report errs err), fc')
      | (Inr idx, excluded', fc') \<Rightarrow>
          (case try_provider env req requiredLedger excluded' idx fc' of
             (Answer resp, fc'') \<Rightarrow> (Inr resp, fc'')
           | (Fail err, fc'') \<Rightarrow> (Inl err, fc'')
           | (Skip g err, fc'') \<Rightarrow>
               get_events_loop env req requiredLedger (insert idx excluded') (note_skip g err errs) fc''))"
  by pat_completeness auto
termination
proof (relation "measure (\<lambda>(env, req, l, ex, errs, fc). unexcluded ex fc)", goal_cases)
  case (2 env req l ex errs fc r p idx ex' fc' u fc'' g err)
  from 2 have p: "pickProviderExcluding env ex fc = (Inr idx, ex', fc')" by simp
  from 2 have t: "try_provider env req l ex' idx fc' = (Skip g err, fc'')" by simp
  have "unexcluded (insert idx ex') fc'' < unexcluded ex' fc"
    using pick_facts [OF p] try_size [OF t] by (intro unexcluded_insert) auto
  also have "unexcluded ex' fc \<le> unexcluded ex fc"
    unfolding unexcluded_def using pick_facts(2) [OF p] by (intro card_mono) auto
  finally show ?case by simp
qed simp

declare get_events_loop.simps [simp del]

definition reanchored :: "xdr_request \<Rightarrow> failover \<Rightarrow> xdr_request" where
  "reanchored req fc =
     (if rq_Cursor req = [] \<and> fc_reanchorLedger fc > 0 \<and> rq_StartLedger req = fc_reanchorLedger fc + 1
      then req\<lparr>rq_StartLedger := fc_reanchorLedger fc\<rparr> else req)"

definition fo_GetEvents :: "fo_env \<Rightarrow> xdr_request \<Rightarrow> failover \<Rightarrow> (fo_error + get_events_response) \<times> failover" where
  "fo_GetEvents env req fc =
     (let req = reanchored req fc
      in get_events_loop env req (requiredLedgerForRequest req fc) {} no_skips fc)"

section \<open>The other methods\<close>

definition delegate ::
  "fo_env \<Rightarrow> call \<Rightarrow> (nat \<Rightarrow> nat \<Rightarrow> client_error + 'r) \<Rightarrow> (nat \<Rightarrow> 'r \<Rightarrow> failover \<Rightarrow> failover) \<Rightarrow> failover
   \<Rightarrow> (fo_error + 'r) \<times> failover" where
  "delegate env c ask learn fc =
     (case pickProvider env fc of
        (Inl err, fc) \<Rightarrow> (Inl err, fc)
      | (Inr idx, fc) \<Rightarrow>
          (case waitLimiter env idx fc of
             (Some err, fc) \<Rightarrow> (Inl (Provider err), fc)
           | (None, fc) \<Rightarrow>
               (case ask idx (fc_tick fc) of
                  Inl err \<Rightarrow> (Inl (Provider err), recordError idx err (asking idx c fc))
                | Inr resp \<Rightarrow> (Inr resp, recordSuccess idx (learn idx resp (asking idx c fc))))))"

definition fo_GetLatestLedger :: "fo_env \<Rightarrow> failover \<Rightarrow> (fo_error + u32) \<times> failover" where
  "fo_GetLatestLedger env =
     delegate env LatestLedgerCall (fe_getLatestLedger env) (\<lambda>idx sequence. updateProviderRange idx 0 sequence)"

definition fo_GetHealth :: "fo_env \<Rightarrow> failover \<Rightarrow> (fo_error + health) \<times> failover" where
  "fo_GetHealth env =
     delegate env HealthCall (fe_getHealth env)
       (\<lambda>idx resp. updateProviderRange idx (h_OldestLedger resp) (h_LatestLedger resp))"

definition fo_GetLedgerEntries :: "fo_env \<Rightarrow> (nat \<Rightarrow> nat \<Rightarrow> client_error + 'r) \<Rightarrow> failover \<Rightarrow> (fo_error + 'r) \<times> failover" where
  "fo_GetLedgerEntries env ask = delegate env LedgerEntriesCall ask (\<lambda>_ _ fc. fc)"

definition fo_SimulateTransaction :: "fo_env \<Rightarrow> (nat \<Rightarrow> nat \<Rightarrow> client_error + 'r) \<Rightarrow> failover \<Rightarrow> (fo_error + 'r) \<times> failover" where
  "fo_SimulateTransaction env ask = delegate env SimulateCall ask (\<lambda>_ _ fc. fc)"

definition fo_GetNetwork :: "fo_env \<Rightarrow> failover \<Rightarrow> (fo_error + string) \<times> failover" where
  "fo_GetNetwork env fc =
     (case pickProvider env fc of
        (Inl err, fc) \<Rightarrow> (Inl err, fc)
      | (Inr idx, fc) \<Rightarrow>
          (case fe_getNetwork env idx of
             None \<Rightarrow> (Inr (fc_expectedPassphrase fc), fc)
           | Some inspector \<Rightarrow>
               (case waitLimiter env idx fc of
                  (Some err, fc) \<Rightarrow> (Inl (Provider err), fc)
                | (None, fc) \<Rightarrow>
                    (case inspector (fc_tick fc) of
                       Inl err \<Rightarrow> (Inl (Provider err), recordError idx err (asking idx NetworkCall fc))
                     | Inr resp \<Rightarrow> (Inr resp, recordSuccess idx (asking idx NetworkCall fc))))))"

definition probe :: "fo_env \<Rightarrow> nat \<Rightarrow> failover \<Rightarrow> failover" where
  "probe env idx fc =
     (if p_state (prov fc idx) \<noteq> StateDown then fc
      else if p_networkInvalid (prov fc idx) then fc
      else case verifyProviderNetwork env idx fc of
          (Some _, fc) \<Rightarrow> fc
        | (None, fc) \<Rightarrow>
            (case waitLimiter env idx fc of
               (Some _, fc) \<Rightarrow> fc
             | (None, fc) \<Rightarrow>
                 (case fe_getHealth env idx (fc_tick fc) of
                    Inl _ \<Rightarrow> asking idx HealthCall fc
                  | Inr h \<Rightarrow>
                      let fc = updateProviderRange idx (h_OldestLedger h) (h_LatestLedger h) (asking idx HealthCall fc)
                      in if fc_cursorLedger fc > 0 \<and> h_LatestLedger h > 0 \<and> h_LatestLedger h < fc_cursorLedger fc
                         then fc
                         else let fc = on_prov idx (\<lambda>p. p\<lparr>p_okCount := p_okCount p + 1\<rparr>) fc
                              in if p_okCount (prov fc idx) \<ge> fc_probationSuccesses fc
                                 then promoteProvider idx fc else fc)))"

definition probeDownProviders :: "fo_env \<Rightarrow> failover \<Rightarrow> failover" where
  "probeDownProviders env fc = foldl (\<lambda>fc idx. probe env idx fc) fc [0..<length (fc_providers fc)]"

end
