(* ===== verification/Rpc_Failover_Spec.thy ===== *)
theory Rpc_Failover_Spec
  imports Rpc_Failover
begin

text \<open>
  What the failover client guarantees: an answer it passes on comes from a provider of the right
  network that is neither behind the cursor nor missing the requested ledgers, and agrees with what
  other providers have said; and a call asks every provider a bounded number of times.
\<close>

section \<open>Reasoning about the choice of a provider\<close>

lemma no_provider_shape:
  assumes "no_provider env m ex fc = (e, fc')"
  obtains u c t where "fc' = fc\<lparr>fc_allDownCount := c, fc_tick := t, fc_allDownUntil := u\<rparr>"
proof (cases "ex \<noteq> {} \<and> getActive fc \<noteq> None")
  case True
  thus ?thesis using assms that [of "fc_allDownUntil fc" "fc_tick fc" "fc_allDownCount fc"]
    by (simp add: no_provider_def)
next
  case False
  hence "fc' = fo_ticked (fc\<lparr>fc_allDownCount := fc_allDownCount fc + 1\<rparr>)\<lparr>fc_allDownUntil := fc_allDownUntil fc'\<rparr>"
    using assms by (auto simp: no_provider_def Let_def)
  thus ?thesis using that [of "fc_allDownUntil fc'" "Suc (fc_tick fc)" "fc_allDownCount fc + 1"]
    by (simp add: fo_ticked_def)
qed

lemma pick_shape:
  assumes "pickProviderExcluding env ex fc = (r, ex', fc')"
  obtains (backoff) "r = Inl (AllProvidersDown None)" "fc' = fc"
  | (none) m fc1 u c t where "pick_loop env ex None (fc\<lparr>fc_allDownUntil := 0\<rparr>) = (Inl m, ex', fc1)"
      "\<exists>e. r = Inl e" "fc' = fc1\<lparr>fc_allDownCount := c, fc_tick := t, fc_allDownUntil := u\<rparr>"
  | (fault) e where "pick_loop env ex None (fc\<lparr>fc_allDownUntil := 0\<rparr>) = (Inr (Inl e), ex', fc')" "r = Inl e"
  | (picked) idx where "pick_loop env ex None (fc\<lparr>fc_allDownUntil := 0\<rparr>) = (Inr (Inr idx), ex', fc')" "r = Inr idx"
proof (cases "fc_allDownUntil fc \<noteq> 0 \<and> fc_allDownUntil fc - fe_now env (fc_tick fc) > 0")
  case True
  thus ?thesis using assms backoff by (simp add: pickProviderExcluding_def)
next
  case False
  obtain q ex1 fc1 where l: "pick_loop env ex None (fc\<lparr>fc_allDownUntil := 0\<rparr>) = (q, ex1, fc1)"
    by (cases "pick_loop env ex None (fc\<lparr>fc_allDownUntil := 0\<rparr>)")
  note eq = assms [unfolded pickProviderExcluding_def if_not_P [OF False] l prod.case]
  consider m where "q = Inl m" | e where "q = Inr (Inl e)" | idx where "q = Inr (Inr idx)"
    by (metis sum.exhaust)
  thus ?thesis
  proof cases
    case (1 m)
    obtain e fc2 where n: "no_provider env m ex1 fc1 = (e, fc2)" by fastforce
    obtain u c t where "fc2 = fc1\<lparr>fc_allDownCount := c, fc_tick := t, fc_allDownUntil := u\<rparr>"
      by (rule no_provider_shape [OF n])
    thus ?thesis using eq l 1 n by (intro none) auto
  next
    case (2 e)
    thus ?thesis using eq l by (intro fault) auto
  next
    case (3 idx)
    thus ?thesis using eq l by (intro picked) auto
  qed
qed

text \<open>
  A relation that the verification of a provider and the bookkeeping of an outage respect is respected
  by the choice of a provider, and by the round that follows if also asking and judging respect it.
\<close>

locale choice_frame =
  fixes env :: fo_env and R :: "failover \<Rightarrow> failover \<Rightarrow> bool"
  assumes refl: "R fc fc"
    and trans: "R fc1 fc2 \<Longrightarrow> R fc2 fc3 \<Longrightarrow> R fc1 fc3"
    and outage: "R fc (fc\<lparr>fc_allDownCount := c, fc_tick := t, fc_allDownUntil := u\<rparr>)"
    and verify: "verifyProviderNetwork env idx fc = (r, fc') \<Longrightarrow> R fc fc'"
begin

lemma pick_loop:
  assumes "pick_loop env ex err fc = (r, ex', fc')"
  shows "R fc fc'"
  using assms by (induction rule: pick_loop_rounds) (auto intro: refl trans verify)

lemma pick:
  assumes "pickProviderExcluding env ex fc = (r, ex', fc')"
  shows "R fc fc'"
proof -
  have start: "R fc (fc\<lparr>fc_allDownUntil := 0\<rparr>)"
    using outage [of fc 0 "fc_tick fc" "fc_allDownCount fc"] by simp
  from assms show ?thesis
    by (cases rule: pick_shape) (auto intro: refl trans [OF start] pick_loop trans [OF pick_loop outage])
qed

end

section \<open>What a skipped provider leaves unchanged\<close>

text \<open>Choosing and rejecting providers changes their records only, never the position of the stream.\<close>

definition same_stream :: "failover \<Rightarrow> failover \<Rightarrow> bool" where
  "same_stream fc fc' \<longleftrightarrow>
     length (fc_providers fc') = length (fc_providers fc) \<and> fc_lastActive fc' = fc_lastActive fc
     \<and> fc_cursorLedger fc' = fc_cursorLedger fc \<and> fc_reanchorLedger fc' = fc_reanchorLedger fc
     \<and> fc_expectedPassphrase fc' = fc_expectedPassphrase fc \<and> fc_observedByID fc' = fc_observedByID fc
     \<and> fc_observedByLgr fc' = fc_observedByLgr fc"

lemma same_stream_refl [simp]: "same_stream fc fc"
  by (simp add: same_stream_def)

lemma same_stream_trans: "same_stream a b \<Longrightarrow> same_stream b c \<Longrightarrow> same_stream a c"
  by (simp add: same_stream_def)

lemma same_stream_steps [simp]:
  "same_stream fc (on_prov idx f fc)" "same_stream fc (fo_ticked fc)" "same_stream fc (asking idx c fc)"
  "same_stream fc (demoteProvider idx st fc)" "same_stream fc (promoteProvider idx fc)"
  "same_stream fc (recordError idx err fc)" "same_stream fc (updateProviderRange idx oldest latest fc)"
  by (simp_all add: same_stream_def fo_ticked_def asking_def demoteProvider_def promoteProvider_def
      recordError_def updateProviderRange_def Let_def)

lemma same_stream_after [simp]:
  "same_stream a b \<Longrightarrow> same_stream a (on_prov idx f b)" "same_stream a b \<Longrightarrow> same_stream a (fo_ticked b)"
  "same_stream a b \<Longrightarrow> same_stream a (asking idx c b)" "same_stream a b \<Longrightarrow> same_stream a (demoteProvider idx st b)"
  "same_stream a b \<Longrightarrow> same_stream a (recordError idx err b)"
  "same_stream a b \<Longrightarrow> same_stream a (updateProviderRange idx oldest latest b)"
  by (erule same_stream_trans, simp)+

lemma same_stream_ticked [simp]: "same_stream (fo_ticked a) b \<longleftrightarrow> same_stream a b"
  by (simp add: same_stream_def fo_ticked_def)

lemma same_verify: "verifyProviderNetwork env idx fc = (r, fc') \<Longrightarrow> same_stream fc fc'"
  by (auto simp: verifyProviderNetwork_def waitLimiter_def Let_def split: if_splits option.splits sum.splits)

interpretation stream: choice_frame env same_stream for env
proof (unfold_locales, goal_cases)
  case (3 fc u c t)
  show ?case by (simp add: same_stream_def)
qed (auto intro: same_stream_trans same_verify)

lemma same_call: "callProviderGetEvents env idx req fc = (r, fc') \<Longrightarrow> same_stream fc fc'"
  by (auto simp: callProviderGetEvents_def ask_events_def Let_def split: if_splits sum.splits)

lemma same_skipping: "skipping idx reason fc = (r, fc') \<Longrightarrow> same_stream fc fc'"
  by (auto simp: skipping_def)

lemma loop_rounds [consumes 1, case_names none answer fail skip]:
  assumes "get_events_loop env req l ex errs fc = (r, fc')"
    and "\<And>ex errs fc err ex' fc'. pickProviderExcluding env ex fc = (Inl err, ex', fc')
           \<Longrightarrow> P ex errs fc (Inl (report errs err)) fc'"
    and "\<And>ex fc idx ex' fc1 resp fc2 errs. pickProviderExcluding env ex fc = (Inr idx, ex', fc1)
           \<Longrightarrow> try_provider env req l ex' idx fc1 = (Answer resp, fc2) \<Longrightarrow> P ex errs fc (Inr resp) fc2"
    and "\<And>ex fc idx ex' fc1 e fc2 errs. pickProviderExcluding env ex fc = (Inr idx, ex', fc1)
           \<Longrightarrow> try_provider env req l ex' idx fc1 = (Fail e, fc2) \<Longrightarrow> P ex errs fc (Inl e) fc2"
    and "\<And>ex fc idx ex' fc1 g e fc2 r fc3 errs. pickProviderExcluding env ex fc = (Inr idx, ex', fc1)
           \<Longrightarrow> try_provider env req l ex' idx fc1 = (Skip g e, fc2) \<Longrightarrow> P (insert idx ex') (note_skip g e errs) fc2 r fc3
           \<Longrightarrow> P ex errs fc r fc3"
  shows "P ex errs fc r fc'"
  using assms(1)
proof (induction env \<equiv> env req \<equiv> req l \<equiv> l ex errs fc arbitrary: r fc' rule: get_events_loop.induct)
  case (1 ex errs fc)
  note eq = 1(2) [unfolded get_events_loop.simps [of env req l ex errs fc]]
  obtain c ex' fc1 where p: "pickProviderExcluding env ex fc = (c, ex', fc1)"
    by (cases "pickProviderExcluding env ex fc")
  show ?case
  proof (cases c)
    case (Inl err)
    thus ?thesis using eq p assms(2) [of ex fc err ex' fc1 errs] by simp
  next
    case (Inr idx)
    note p = p [unfolded Inr]
    obtain u fc2 where t: "try_provider env req l ex' idx fc1 = (u, fc2)" by fastforce
    show ?thesis
    proof (cases u)
      case (Answer resp)
      thus ?thesis using eq p t assms(3) [OF p, of resp fc2 errs] by simp
    next
      case (Fail e)
      thus ?thesis using eq p t assms(4) [OF p, of e fc2 errs] by simp
    next
      case (Skip g e)
      have "P (insert idx ex') (note_skip g e errs) fc2 r fc'"
        by (rule 1(1)) (use eq p t Skip in auto)
      thus ?thesis using assms(5) [OF p t [unfolded Skip]] by blast
    qed
  qed
qed

section \<open>What an answer has passed\<close>

lemma same_response_skip:
  "after_response env req l idx resp fc = (Skip g e, fc') \<Longrightarrow> same_stream fc fc'"
  by (auto simp: after_response_def Let_def checkAndRecordEvents_def skipping_def same_stream_def
      demoteProvider_def updateProviderRange_def split: option.splits if_splits)

lemma same_try_skip:
  assumes "try_provider env req l ex idx fc = (Skip g e, fc')"
  shows "same_stream fc fc'"
  using assms
  by (auto simp: try_provider_def waitLimiter_def split: option.splits if_splits prod.splits sum.splits
      dest!: same_call same_response_skip same_skipping intro: same_stream_trans)

text \<open>The round that answered, from the same position of the stream.\<close>

lemma answering_round:
  assumes "get_events_loop env req l ex errs fc = (Inr resp, fc')"
  obtains ex0 fc0 idx ex1 fc1 where "same_stream fc fc0" "pickProviderExcluding env ex0 fc0 = (Inr idx, ex1, fc1)"
    "try_provider env req l ex1 idx fc1 = (Answer resp, fc')"
proof -
  define r where "r = (Inr resp :: fo_error + get_events_response)"
  have "get_events_loop env req l ex errs fc = (r, fc')" using assms by (simp add: r_def)
  hence "r = Inr resp \<longrightarrow> (\<exists>ex0 fc0 idx ex1 fc1. same_stream fc fc0
      \<and> pickProviderExcluding env ex0 fc0 = (Inr idx, ex1, fc1)
      \<and> try_provider env req l ex1 idx fc1 = (Answer resp, fc'))"
  proof (induction rule: loop_rounds)
    case (skip ex fc idx ex' fc1 g e fc2 r fc3)
    have "same_stream fc fc2" by (rule same_stream_trans [OF stream.pick [OF skip(1)] same_try_skip [OF skip(2)]])
    thus ?case using skip(3) by (blast intro: same_stream_trans)
  next
    case (answer ex fc idx ex' fc1 resp' fc2)
    thus ?case using same_stream_refl [of fc] by blast
  qed simp_all
  thus thesis using that by (auto simp: r_def)
qed

section \<open>The network of a provider\<close>

lemma prov_on_prov:
  "prov (on_prov idx f fc) i = (if i = idx \<and> idx < length (fc_providers fc) then f (prov fc idx) else prov fc i)"
  by (cases "idx < length (fc_providers fc)"; cases "i = idx")
    (simp_all add: prov_def on_prov_def not_less list_update_beyond)

lemma prov_steps [simp]: "prov (fo_ticked fc) = prov fc" "prov (asking idx c fc) = prov fc"
  by (simp_all add: prov_def asking_def fo_ticked_def fun_eq_iff)

definition network_flags :: "failover \<Rightarrow> nat \<Rightarrow> bool \<times> bool" where
  "network_flags fc i = (p_networkInvalid (prov fc i), p_networkVerified (prov fc i))"

lemma network_flags_record [simp]:
  "network_flags (fc\<lparr>fc_lastActive := a\<rparr>) = network_flags fc" "network_flags (fc\<lparr>fc_cursorLedger := b\<rparr>) = network_flags fc"
  "network_flags (fc\<lparr>fc_reanchorLedger := b\<rparr>) = network_flags fc"
  "network_flags (fc\<lparr>fc_allDownUntil := a\<rparr>) = network_flags fc"
  "network_flags (fc\<lparr>fc_allDownCount := a\<rparr>) = network_flags fc"
  "network_flags (fc\<lparr>fc_maxObservedHead := b\<rparr>) = network_flags fc"
  "network_flags (fc\<lparr>fc_divergences := ds\<rparr>) = network_flags fc"
  "network_flags (fc\<lparr>fc_tick := t\<rparr>) = network_flags fc" "network_flags (fc\<lparr>fc_calls := cs\<rparr>) = network_flags fc"
  "network_flags (fc\<lparr>fc_observedByID := m\<rparr>) = network_flags fc"
  "network_flags (fc\<lparr>fc_observedByLgr := n\<rparr>) = network_flags fc"
  by (simp_all add: network_flags_def prov_def fun_eq_iff)

lemma network_flags_on_prov:
  "(\<And>p. p_networkInvalid (f p) = p_networkInvalid p \<and> p_networkVerified (f p) = p_networkVerified p) \<Longrightarrow>
     network_flags (on_prov idx f fc) = network_flags fc"
  by (simp add: network_flags_def prov_on_prov fun_eq_iff)

lemma network_flags_steps [simp]:
  "network_flags (fo_ticked fc) = network_flags fc" "network_flags (asking idx c fc) = network_flags fc"
  "network_flags (demoteProvider idx st fc) = network_flags fc" "network_flags (promoteProvider idx fc) = network_flags fc"
  "network_flags (recordError idx err fc) = network_flags fc"
  "network_flags (updateProviderRange idx oldest latest fc) = network_flags fc"
  "network_flags (recordSuccess idx fc) = network_flags fc"
  "network_flags (record_events idx evs fc) = network_flags fc"
  "network_flags (SetCursorLedger l fc) = network_flags fc"
  "network_flags (answered req idx resp fc) = network_flags fc"
  by (simp_all add: fo_ticked_def asking_def demoteProvider_def promoteProvider_def recordError_def
      updateProviderRange_def recordSuccess_def record_events_def SetCursorLedger_def answered_def Let_def
      network_flags_on_prov)

lemma network_flags_check [simp]:
  "checkAndRecordEvents env idx l c resp fc = (r, fc') \<Longrightarrow> network_flags fc' = network_flags fc"
  by (auto simp: checkAndRecordEvents_def Let_def split: if_splits option.splits)

lemma network_flags_call:
  "callProviderGetEvents env idx req fc = (r, fc') \<Longrightarrow> network_flags fc' = network_flags fc"
  by (auto simp: callProviderGetEvents_def ask_events_def Let_def network_flags_on_prov split: if_splits sum.splits)

lemma network_flags_response:
  "after_response env req l idx resp fc = (r, fc') \<Longrightarrow> network_flags fc' = network_flags fc"
  by (auto simp: after_response_def Let_def skipping_def split: option.splits prod.splits)

lemma network_flags_try:
  assumes "try_provider env req l ex idx fc = (r, fc')"
  shows "network_flags fc' = network_flags fc"
  using assms
  by (auto simp: try_provider_def waitLimiter_def skipping_def split: option.splits if_splits prod.splits sum.splits
      dest!: network_flags_call network_flags_response)

definition cleared :: "failover \<Rightarrow> nat \<Rightarrow> bool" where
  "cleared fc i \<longleftrightarrow> \<not> p_networkInvalid (prov fc i) \<and> (fc_expectedPassphrase fc = [] \<or> p_networkVerified (prov fc i))"

lemma cleared_flags: "network_flags fc' = network_flags fc \<Longrightarrow> same_stream fc fc' \<Longrightarrow> cleared fc' = cleared fc"
  by (auto simp: cleared_def network_flags_def same_stream_def fun_eq_iff)

lemma verify_cleared:
  "verifyProviderNetwork env idx fc = (None, fc') \<Longrightarrow> idx < length (fc_providers fc) \<Longrightarrow> cleared fc' idx"
  by (auto simp: verifyProviderNetwork_def waitLimiter_def cleared_def prov_on_prov Let_def
      split: if_splits option.splits sum.splits)

lemma pick_cleared:
  assumes "pickProviderExcluding env ex fc = (Inr idx, ex', fc')"
  shows "cleared fc' idx"
proof -
  have "idx < length (fc_providers fc)" by (rule pick_facts(3) [OF assms])
  have "cleared fc' idx" if "pick_loop env ex None fc0 = (r, ex', fc')" "r = Inr (Inr idx)" for fc0 r
    using that by (induction rule: pick_loop_rounds) (auto dest: getActiveExcluding_Some intro: verify_cleared)
  with assms show ?thesis by (cases rule: pick_shape) auto
qed

section \<open>The answer itself\<close>

lemma recordSuccess_stream [simp]:
  "fc_cursorLedger (recordSuccess idx fc) = fc_cursorLedger fc" "fc_calls (recordSuccess idx fc) = fc_calls fc"
  "\<not> p_networkInvalid (prov fc idx) \<Longrightarrow> fc_lastActive (recordSuccess idx fc) = int idx"
  by (simp_all add: recordSuccess_def promoteProvider_def Let_def)

lemma foldl_max_ledger:
  "let m = foldl (\<lambda>m ev. if re_Ledger ev > m then re_Ledger ev else m) m0 evs
   in m0 \<le> m \<and> (\<forall>ev \<in> set evs. re_Ledger ev \<le> m)"
proof (induction evs arbitrary: m0)
  case (Cons ev evs)
  show ?case
    using Cons.IH [of "if re_Ledger ev > m0 then re_Ledger ev else m0"]
    by (auto simp: Let_def not_less split: if_splits intro: order.trans order_less_imp_le)
qed simp

lemma answered_cursor:
  "fc_cursorLedger fc \<le> fc_cursorLedger (answered req idx resp fc)"
  "ev \<in> set (rs_Events resp) \<Longrightarrow> re_Ledger ev \<le> fc_cursorLedger (answered req idx resp fc)"
proof -
  show "fc_cursorLedger fc \<le> fc_cursorLedger (answered req idx resp fc)"
    by (auto simp: answered_def SetCursorLedger_def Let_def not_le)
  assume ev: "ev \<in> set (rs_Events resp)"
  let ?m = "foldl (\<lambda>m ev. if re_Ledger ev > m then re_Ledger ev else m) 0 (rs_Events resp)"
  have "re_Ledger ev \<le> ?m" using foldl_max_ledger [of 0 "rs_Events resp"] ev by (simp add: Let_def)
  thus "re_Ledger ev \<le> fc_cursorLedger (answered req idx resp fc)"
    by (cases "?m = 0") (auto simp: answered_def SetCursorLedger_def Let_def word_neq_0_conv)
qed

lemma first_some_None: "first_some f xs = None \<longleftrightarrow> (\<forall>x \<in> set xs. f x = None)"
  by (induction xs) (auto split: option.splits)

lemma checked_events:
  assumes "checkAndRecordEvents env idx l c resp fc = (None, fc')" and "ev \<in> set (rs_Events resp)"
    and "fc_observedByID fc (re_ID ev) = Some prev" and "ob_providerIdx prev \<noteq> idx"
  shows "compareObservedEvents prev (buildObservedEvent idx ev) = None"
proof -
  have "first_some (event_divergence idx fc) (rs_Events resp) = None"
    using assms(1,2) by (auto simp: checkAndRecordEvents_def Let_def split: if_splits option.splits)
  hence "event_divergence idx fc ev = None" using assms(2) by (simp add: first_some_None)
  thus ?thesis using assms(3,4) by (simp add: event_divergence_def)
qed

lemma call_last:
  assumes "callProviderGetEvents env idx req fc = (r, fc')"
  shows "\<exists>fmt. last (fc_calls fc') = (idx, EventsCall (req\<lparr>rq_XDRFormat := fmt\<rparr>))"
proof -
  have same: "\<exists>fmt. req = req\<lparr>rq_XDRFormat := fmt\<rparr>" by (rule exI [of _ "rq_XDRFormat req"]) simp
  show ?thesis
    using assms
    by (auto simp: callProviderGetEvents_def ask_events_def asking_def fo_ticked_def Let_def
        split: if_splits sum.splits intro: same)
qed

lemma check_keeps:
  "checkAndRecordEvents env idx l c resp fc = (r, fc') \<Longrightarrow> fc_calls fc' = fc_calls fc \<and> fc_cursorLedger fc' = fc_cursorLedger fc"
  by (auto simp: checkAndRecordEvents_def record_events_def Let_def split: if_splits option.splits)

text \<open>An answer passed every check of its round.\<close>

lemma try_answer:
  assumes "try_provider env req l ex idx fc = (Answer resp, fc')" and "cleared fc idx"
  shows "(\<exists>fmt. last (fc_calls fc') = (idx, EventsCall (req\<lparr>rq_XDRFormat := fmt\<rparr>)))
    \<and> (l = 0 \<or> rs_LatestLedger resp = 0 \<or> l \<le> rs_LatestLedger resp)
    \<and> (rq_Cursor req \<noteq> [] \<or> rq_StartLedger req = 0 \<or> rs_OldestLedger resp \<le> rq_StartLedger req)
    \<and> (rq_Cursor req \<noteq> [] \<longrightarrow> fc_lastActive fc = -1 \<or> fc_lastActive fc = int idx)
    \<and> (\<forall>ev \<in> set (rs_Events resp). \<forall>prev. fc_observedByID fc (re_ID ev) = Some prev \<longrightarrow> ob_providerIdx prev \<noteq> idx
         \<longrightarrow> compareObservedEvents prev (buildObservedEvent idx ev) = None)
    \<and> fc_lastActive fc' = int idx \<and> fc_cursorLedger fc \<le> fc_cursorLedger fc'
    \<and> (\<forall>ev \<in> set (rs_Events resp). re_Ledger ev \<le> fc_cursorLedger fc')"
proof -
  let ?range = "updateProviderRange idx (rs_OldestLedger resp) (rs_LatestLedger resp)"
  from assms(1) obtain fc1 where c: "callProviderGetEvents env idx req (fo_ticked fc) = (Inr resp, fc1)"
      and a: "after_response env req l idx resp fc1 = (Answer resp, fc')"
      and la: "rq_Cursor req \<noteq> [] \<longrightarrow> fc_lastActive fc = -1 \<or> fc_lastActive fc = int idx"
    by (auto simp: try_provider_def waitLimiter_def skipping_def after_response_def Let_def
        split: option.splits if_splits prod.splits sum.splits)
  from a obtain fc2 where
      r: "response_check req l idx resp (?range fc1) = None"
      and k: "checkAndRecordEvents env idx (rq_StartLedger req) (rq_Cursor req \<noteq> []) resp (?range fc1) = (None, fc2)"
      and f: "fc' = answered req idx resp fc2"
    by (auto simp: after_response_def Let_def skipping_def split: option.splits prod.splits)
  have s1: "same_stream fc (?range fc1)" using same_call [OF c] by simp
  have flags: "network_flags fc2 = network_flags fc"
    using network_flags_check [OF k] network_flags_call [OF c] by simp
  have valid: "\<not> p_networkInvalid (prov fc2 idx)"
    using assms(2) fun_cong [OF flags, of idx] by (simp add: network_flags_def cleared_def)
  have calls: "fc_calls fc' = fc_calls fc1"
    using check_keeps [OF k] by (simp add: f answered_def SetCursorLedger_def updateProviderRange_def Let_def)
  have cur: "fc_cursorLedger fc2 = fc_cursorLedger fc" using check_keeps [OF k] s1 by (simp add: same_stream_def)
  have "fc_lastActive fc' = int idx"
    using valid by (simp add: f answered_def SetCursorLedger_def Let_def prov_def)
  moreover have "compareObservedEvents prev (buildObservedEvent idx ev) = None"
    if "ev \<in> set (rs_Events resp)" "fc_observedByID fc (re_ID ev) = Some prev" "ob_providerIdx prev \<noteq> idx" for ev prev
    using checked_events [OF k that(1) _ that(3)] that(2) s1 by (simp add: same_stream_def)
  moreover have "l = 0 \<or> rs_LatestLedger resp = 0 \<or> l \<le> rs_LatestLedger resp"
      "rq_Cursor req \<noteq> [] \<or> rq_StartLedger req = 0 \<or> rs_OldestLedger resp \<le> rq_StartLedger req"
    using r by (auto simp: response_check_def word_neq_0_conv not_less split: if_splits)
  ultimately show ?thesis
    using la call_last [OF c] answered_cursor(1) [of fc2 req idx resp] answered_cursor(2) [of _ resp req idx fc2]
    by (simp add: calls [unfolded f] f cur)
qed

section \<open>Which providers are asked\<close>

text \<open>\<open>asks i n\<close> relates states between which only provider \<open>i\<close> was asked, at most \<open>n\<close> times.\<close>

definition asks_only :: "nat \<Rightarrow> nat \<Rightarrow> failover \<Rightarrow> failover \<Rightarrow> bool" where
  "asks_only i n fc fc' \<longleftrightarrow> (\<exists>new. fc_calls fc' = fc_calls fc @ new \<and> fst ` set new \<subseteq> {i} \<and> length new \<le> n)"

lemma asks_only_none: "fc_calls fc' = fc_calls fc \<Longrightarrow> asks_only i n fc fc'"
  by (simp add: asks_only_def)

lemma calls_kept [simp]:
  "fc_calls (fo_ticked fc) = fc_calls fc" "fc_calls (demoteProvider idx st fc) = fc_calls fc"
  "fc_calls (promoteProvider idx fc) = fc_calls fc" "fc_calls (recordError idx err fc) = fc_calls fc"
  "fc_calls (updateProviderRange idx oldest latest fc) = fc_calls fc"
  "fc_calls (SetCursorLedger l fc) = fc_calls fc" "fc_calls (answered req idx resp fc) = fc_calls fc"
  "fc_calls (asking idx c fc) = fc_calls fc @ [(idx, c)]"
  by (simp_all add: fo_ticked_def asking_def demoteProvider_def promoteProvider_def recordError_def
      updateProviderRange_def SetCursorLedger_def answered_def Let_def)

lemma verify_asks:
  assumes "verifyProviderNetwork env idx fc = (r, fc')"
  obtains "fc_calls fc' = fc_calls fc" | "fc_calls fc' = fc_calls fc @ [(idx, NetworkCall)]"
  using assms
  by (auto simp: verifyProviderNetwork_def waitLimiter_def Let_def split: if_splits option.splits sum.splits)

lemma call_asks:
  assumes "callProviderGetEvents env idx req fc = (r, fc')"
  shows "asks_only idx 2 fc fc'"
  using assms
  by (auto simp: callProviderGetEvents_def ask_events_def asks_only_def Let_def split: if_splits sum.splits)

lemma response_asks: "after_response env req l idx resp fc = (r, fc') \<Longrightarrow> fc_calls fc' = fc_calls fc"
  by (auto simp: after_response_def Let_def skipping_def split: option.splits prod.splits dest!: check_keeps)

lemma try_asks:
  assumes "try_provider env req l ex idx fc = (r, fc')"
  shows "asks_only idx 2 fc fc'"
  using assms
  by (auto simp: try_provider_def waitLimiter_def skipping_def asks_only_none
      split: option.splits if_splits prod.splits sum.splits dest!: call_asks response_asks)
    (auto simp: asks_only_def)

definition asked :: "nat \<Rightarrow> (nat \<times> call) list \<Rightarrow> nat" where
  "asked j cs = length (filter (\<lambda>c. fst c = j) cs)"

lemma asked_append [simp]: "asked j (xs @ ys) = asked j xs + asked j ys" "asked j [] = 0"
  by (simp_all add: asked_def)

lemma asked_others: "fst ` set new \<subseteq> {i} \<Longrightarrow> j \<noteq> i \<Longrightarrow> asked j new = 0"
  by (auto simp: asked_def filter_empty_conv)

lemma asked_le: "asked j cs \<le> length cs"
  by (simp add: asked_def)

lemma pick_loop_asks:
  assumes "pick_loop env ex err fc = (r, ex', fc')"
  shows "\<exists>new. fc_calls fc' = fc_calls fc @ new \<and> (\<forall>j. asked j new \<le> 1) \<and> (\<forall>j \<in> ex. asked j new = 0)
    \<and> (\<forall>idx j. r = Inr (Inr idx) \<longrightarrow> j \<notin> insert idx ex' \<longrightarrow> asked j new = 0) \<and> ex \<subseteq> ex'"
  using assms
proof (induction rule: pick_loop_rounds)
  case (none ex err fc)
  thus ?case by (intro exI [of _ "[]"]) simp
next
  case (fault ex fc idx e fc')
  have "idx \<notin> ex" using getActiveExcluding_Some [OF fault(1)] by simp
  thus ?case by (cases rule: verify_asks [OF fault(2)]) (auto simp: asked_def)
next
  case (picked ex fc idx fc')
  have "idx \<notin> ex" using getActiveExcluding_Some [OF picked(1)] by simp
  thus ?case by (cases rule: verify_asks [OF picked(2)]) (auto simp: asked_def)
next
  case (mismatch ex fc idx e fc' r ex' fc'')
  obtain new where new: "fc_calls fc'' = fc_calls fc' @ new" "\<forall>j. asked j new \<le> 1" "\<forall>j \<in> insert idx ex. asked j new = 0"
      "\<forall>idx' j. r = Inr (Inr idx') \<longrightarrow> j \<notin> insert idx' ex' \<longrightarrow> asked j new = 0" "insert idx ex \<subseteq> ex'"
    using mismatch(4) by blast
  obtain net where net: "fc_calls fc' = fc_calls fc @ net" "fst ` set net \<subseteq> {idx}" "length net \<le> 1"
    by (cases rule: verify_asks [OF mismatch(2)]) (auto intro: that [of "[]"] that [of "[(idx, NetworkCall)]"])
  have "idx \<notin> ex" using getActiveExcluding_Some [OF mismatch(1)] by simp
  moreover have "asked j net \<le> 1" for j using asked_le [of j net] net(3) by linarith
  moreover have "asked j net = 0" if "j \<noteq> idx" for j by (rule asked_others [OF net(2) that])
  ultimately have "asked j net + asked j new \<le> 1" "j \<in> ex \<Longrightarrow> asked j net + asked j new = 0"
      "r = Inr (Inr idx') \<Longrightarrow> j \<notin> insert idx' ex' \<Longrightarrow> asked j net + asked j new = 0" for j idx'
    using new(2-5) by (cases "j = idx"; force)+
  thus ?case using new(1,5) net(1) by (intro exI [of _ "net @ new"]) simp
qed

lemma pick_asks:
  assumes "pickProviderExcluding env ex fc = (r, ex', fc')"
  shows "\<exists>new. fc_calls fc' = fc_calls fc @ new \<and> (\<forall>j. asked j new \<le> 1) \<and> (\<forall>j \<in> ex. asked j new = 0)
    \<and> (\<forall>idx j. r = Inr idx \<longrightarrow> j \<notin> insert idx ex' \<longrightarrow> asked j new = 0)"
  using assms
proof (cases rule: pick_shape)
  case backoff
  thus ?thesis by (intro exI [of _ "[]"]) simp
qed (auto dest!: pick_loop_asks)

text \<open>Excluded providers are not asked at all, and each other one at most three times: for its network, for
  the events, and for the events in the older format.\<close>

lemma round_asks:
  assumes "pickProviderExcluding env ex fc = (Inr idx, ex', fc1)" and "try_provider env req l ex' idx fc1 = (u, fc2)"
  shows "\<exists>new. fc_calls fc2 = fc_calls fc @ new \<and> (\<forall>j. asked j new \<le> 3) \<and> (\<forall>j \<in> ex. asked j new = 0)
    \<and> (\<forall>j. j \<notin> insert idx ex' \<longrightarrow> asked j new = 0)"
proof -
  obtain net where net: "fc_calls fc1 = fc_calls fc @ net" "\<forall>j. asked j net \<le> 1" "\<forall>j \<in> ex. asked j net = 0"
      "\<forall>j. j \<notin> insert idx ex' \<longrightarrow> asked j net = 0"
    using pick_asks [OF assms(1)] by auto
  obtain evs where evs: "fc_calls fc2 = fc_calls fc1 @ evs" "fst ` set evs \<subseteq> {idx}" "length evs \<le> 2"
    using try_asks [OF assms(2)] unfolding asks_only_def by blast
  have "asked j net + asked j evs \<le> 3" for j
    using spec [OF net(2), of j] asked_le [of j evs] evs(3) by linarith
  moreover have "idx \<notin> ex" using pick_facts [OF assms(1)] by blast
  hence "asked j net + asked j evs = 0" if "j \<in> ex" for j
    using that net(3) asked_others [OF evs(2), of j] by auto
  moreover have "asked j net + asked j evs = 0" if "j \<notin> insert idx ex'" for j
    using that net(4) asked_others [OF evs(2), of j] by auto
  ultimately show ?thesis using net(1) evs(1) by (intro exI [of _ "net @ evs"]) simp
qed

lemma loop_asks:
  assumes "get_events_loop env req l ex errs fc = (r, fc')"
  shows "\<exists>new. fc_calls fc' = fc_calls fc @ new \<and> (\<forall>j. asked j new \<le> 3) \<and> (\<forall>j \<in> ex. asked j new = 0)"
  using assms
proof (induction rule: loop_rounds)
  case (none ex errs fc err ex' fc')
  obtain new where "fc_calls fc' = fc_calls fc @ new" "\<forall>j. asked j new \<le> 1" "\<forall>j \<in> ex. asked j new = 0"
    using pick_asks [OF none] by blast
  moreover have "asked j new \<le> 3" for j using spec [OF calculation(2), of j] by simp
  ultimately show ?case by blast
next
  case (answer ex fc idx ex' fc1 resp fc2)
  show ?case using round_asks [OF answer] by blast
next
  case (fail ex fc idx ex' fc1 e fc2)
  show ?case using round_asks [OF fail] by blast
next
  case (skip ex fc idx ex' fc1 g e fc2 r fc3)
  obtain new where new: "fc_calls fc2 = fc_calls fc @ new" "\<forall>j. asked j new \<le> 3" "\<forall>j \<in> ex. asked j new = 0"
      "\<forall>j. j \<notin> insert idx ex' \<longrightarrow> asked j new = 0"
    using round_asks [OF skip(1,2)] by blast
  obtain more where more: "fc_calls fc3 = fc_calls fc2 @ more" "\<forall>j. asked j more \<le> 3"
      "\<forall>j \<in> insert idx ex'. asked j more = 0"
    using skip(3) by blast
  have "asked j new + asked j more \<le> 3" for j
    using new(2,4) more(2,3) by (cases "j \<in> insert idx ex'") auto
  moreover have "asked j new + asked j more = 0" if "j \<in> ex" for j
    using that new(3) more(3) pick_facts(2) [OF skip(1)] by auto
  ultimately show ?case using new(1) more(1) by (intro exI [of _ "new @ more"]) simp
qed

section \<open>Sequences of calls\<close>

datatype fo_op =
    OpGetEvents xdr_request | OpGetLatestLedger | OpGetHealth | OpGetNetwork | OpProbe
  | OpGetLedgerEntries "nat \<Rightarrow> nat \<Rightarrow> client_error + string" | OpSimulate "nat \<Rightarrow> nat \<Rightarrow> client_error + string"
  | OpSetCursorLedger u32 | OpSetProviderLedgerRange int u32 u32

fun fo_step :: "fo_env \<Rightarrow> failover \<Rightarrow> fo_op \<Rightarrow> failover" where
  "fo_step env fc (OpGetEvents req) = snd (fo_GetEvents env req fc)"
| "fo_step env fc OpGetLatestLedger = snd (fo_GetLatestLedger env fc)"
| "fo_step env fc OpGetHealth = snd (fo_GetHealth env fc)"
| "fo_step env fc OpGetNetwork = snd (fo_GetNetwork env fc)"
| "fo_step env fc OpProbe = probeDownProviders env fc"
| "fo_step env fc (OpGetLedgerEntries ask) = snd (fo_GetLedgerEntries env ask fc)"
| "fo_step env fc (OpSimulate ask) = snd (fo_SimulateTransaction env ask fc)"
| "fo_step env fc (OpSetCursorLedger l) = SetCursorLedger l fc"
| "fo_step env fc (OpSetProviderLedgerRange i oldest latest) = SetProviderLedgerRange i oldest latest fc"

text \<open>A provider that can be asked for its network has reported the expected one at some point; and the
  invariant that only such providers are asked for anything else.\<close>

definition reported :: "fo_env \<Rightarrow> string \<Rightarrow> nat \<Rightarrow> bool" where
  "reported env expected i \<longleftrightarrow>
     (case fe_getNetwork env i of None \<Rightarrow> True | Some f \<Rightarrow> \<exists>t passphrase. f t = Inr passphrase \<and> TrimSpace passphrase = expected)"

definition gated :: "fo_env \<Rightarrow> string \<Rightarrow> failover \<Rightarrow> bool" where
  "gated env expected fc \<longleftrightarrow>
     fc_expectedPassphrase fc = expected \<and> (\<forall>i. snd (network_flags fc i) \<longrightarrow> i < length (fc_providers fc) \<longrightarrow> reported env expected i)
     \<and> (\<forall>i c. (i, c) \<in> set (fc_calls fc) \<longrightarrow> c = NetworkCall \<or> reported env expected i)"

lemma gated_step:
  assumes "gated env expected fc" and "network_flags fc' = network_flags fc"
    and "fc_expectedPassphrase fc' = fc_expectedPassphrase fc" and "length (fc_providers fc') = length (fc_providers fc)"
    and "fst ` (set (fc_calls fc') - set (fc_calls fc)) \<subseteq> Collect (reported env expected)"
  shows "gated env expected fc'"
  using assms by (force simp: gated_def)

lemma expected_kept [simp]:
  "fc_expectedPassphrase (fo_ticked fc) = fc_expectedPassphrase fc"
  "fc_expectedPassphrase (asking idx c fc) = fc_expectedPassphrase fc"
  by (simp_all add: fo_ticked_def asking_def)

lemma verified_on_prov:
  "(\<And>p. p_networkVerified (f p) = p_networkVerified p) \<Longrightarrow>
     snd (network_flags (on_prov idx f fc) i) = snd (network_flags fc i)"
  "snd (network_flags (on_prov idx (\<lambda>p. p\<lparr>p_networkVerified := True\<rparr>) fc) i) \<longrightarrow> i = idx \<or> snd (network_flags fc i)"
  by (simp_all add: network_flags_def prov_on_prov)

lemma verify_reports:
  assumes "verifyProviderNetwork env idx fc = (r, fc')"
  shows "snd (network_flags fc' i) \<longrightarrow>
    snd (network_flags fc i) \<or> i = idx \<and> reported env (fc_expectedPassphrase fc) idx"
  using assms
  by (auto simp: verifyProviderNetwork_def waitLimiter_def reported_def Let_def verified_on_prov(1)
      split: if_splits option.splits sum.splits dest!: mp [OF verified_on_prov(2)])

lemma gated_verify:
  assumes "verifyProviderNetwork env idx fc = (r, fc')" and "gated env expected fc"
  shows "gated env expected fc'"
proof -
  have len: "length (fc_providers fc') = length (fc_providers fc)" by (rule verify_size [OF assms(1)])
  have ex: "fc_expectedPassphrase fc' = expected"
    using same_verify [OF assms(1)] assms(2) by (simp add: same_stream_def gated_def)
  have "snd (network_flags fc' i) \<longrightarrow> snd (network_flags fc i) \<or> i = idx \<and> reported env expected idx" for i
    using verify_reports [OF assms(1)] assms(2) by (simp add: gated_def)
  moreover have "set (fc_calls fc') \<subseteq> insert (idx, NetworkCall) (set (fc_calls fc))"
    by (cases rule: verify_asks [OF assms(1)]) auto
  moreover have "c = NetworkCall \<or> reported env expected i" if "(i, c) \<in> set (fc_calls fc')" for i c
    using that calculation(2) assms(2) by (auto simp: gated_def)
  ultimately show ?thesis using assms(2) len ex unfolding gated_def by metis
qed

interpretation gate: choice_frame env "\<lambda>fc fc'. gated env expected fc \<longrightarrow> gated env expected fc'" for env expected
proof (unfold_locales, goal_cases)
  case (3 fc u t c)
  show ?case by (simp add: gated_def)
next
  case (4 idx fc r fc')
  thus ?case using gated_verify by blast
qed blast+

text \<open>The provider chosen in such a state has reported the network.\<close>

lemma gated_pick:
  assumes "pickProviderExcluding env ex fc = (Inr idx, ex', fc')" and "gated env expected fc" and "expected \<noteq> []"
  shows "gated env expected fc' \<and> reported env expected idx"
proof -
  have g: "gated env expected fc'" using gate.pick [OF assms(1)] assms(2) by blast
  moreover have "idx < length (fc_providers fc')" using pick_facts [OF assms(1)] by simp
  ultimately show ?thesis
    using pick_cleared [OF assms(1)] assms(3) by (simp add: gated_def cleared_def network_flags_def)
qed

lemma expected_steps [simp]:
  "fc_expectedPassphrase (recordSuccess idx fc) = fc_expectedPassphrase fc"
  "fc_expectedPassphrase (recordError idx err fc) = fc_expectedPassphrase fc"
  "fc_expectedPassphrase (demoteProvider idx st fc) = fc_expectedPassphrase fc"
  "fc_expectedPassphrase (promoteProvider idx fc) = fc_expectedPassphrase fc"
  "fc_expectedPassphrase (updateProviderRange idx oldest latest fc) = fc_expectedPassphrase fc"
  "fc_expectedPassphrase (SetCursorLedger l fc) = fc_expectedPassphrase fc"
  "fc_expectedPassphrase (answered req idx resp fc) = fc_expectedPassphrase fc"
  by (simp_all add: recordSuccess_def recordError_def demoteProvider_def promoteProvider_def updateProviderRange_def
      SetCursorLedger_def answered_def Let_def)

lemma expected_call: "callProviderGetEvents env idx req fc = (r, fc') \<Longrightarrow> fc_expectedPassphrase fc' = fc_expectedPassphrase fc"
  by (drule same_call) (simp add: same_stream_def)

lemma expected_check:
  "checkAndRecordEvents env idx l c resp fc = (r, fc') \<Longrightarrow> fc_expectedPassphrase fc' = fc_expectedPassphrase fc"
  by (auto simp: checkAndRecordEvents_def record_events_def Let_def split: if_splits option.splits)

lemma expected_response:
  "after_response env req l idx resp fc = (r, fc') \<Longrightarrow> fc_expectedPassphrase fc' = fc_expectedPassphrase fc"
  by (auto simp: after_response_def Let_def skipping_def split: option.splits prod.splits dest!: expected_check)

lemma expected_try:
  assumes "try_provider env req l ex idx fc = (r, fc')"
  shows "fc_expectedPassphrase fc' = fc_expectedPassphrase fc"
  using assms
  by (auto simp: try_provider_def waitLimiter_def skipping_def split: option.splits if_splits prod.splits sum.splits
      dest!: expected_call expected_response)

lemma gated_try:
  assumes "try_provider env req l ex idx fc = (r, fc')" and "gated env expected fc" and "reported env expected idx"
  shows "gated env expected fc'"
proof (rule gated_step [OF assms(2)])
  obtain new where "fc_calls fc' = fc_calls fc @ new" "fst ` set new \<subseteq> {idx}"
    using try_asks [OF assms(1)] by (auto simp: asks_only_def)
  thus "fst ` (set (fc_calls fc') - set (fc_calls fc)) \<subseteq> Collect (reported env expected)"
    using assms(3) by auto
qed (use network_flags_try [OF assms(1)] expected_try [OF assms(1)] try_size [OF assms(1)] in auto)

lemma gated_loop:
  assumes "get_events_loop env req l ex errs fc = (r, fc')" and "expected \<noteq> []"
  shows "gated env expected fc \<longrightarrow> gated env expected fc'"
  using assms(1)
proof (induction rule: loop_rounds)
  case (none ex errs fc err ex' fc')
  thus ?case by (rule gate.pick)
next
  case (answer ex fc idx ex' fc1 resp fc2)
  thus ?case using gated_pick [OF answer(1) _ assms(2)] gated_try by blast
next
  case (fail ex fc idx ex' fc1 e fc2)
  thus ?case using gated_pick [OF fail(1) _ assms(2)] gated_try by blast
next
  case (skip ex fc idx ex' fc1 g e fc2 r fc3)
  thus ?case using gated_pick [OF skip(1) _ assms(2)] gated_try by blast
qed

lemma gated_asking:
  "gated env expected fc \<Longrightarrow> reported env expected idx \<or> c = NetworkCall \<Longrightarrow> gated env expected (asking idx c fc)"
  by (auto simp: gated_def)

lemma gated_kept:
  assumes "gated env expected fc"
  shows "gated env expected (fo_ticked fc)" "gated env expected (recordSuccess idx fc)"
    "gated env expected (recordError idx err fc)" "gated env expected (updateProviderRange idx oldest latest fc)"
    "gated env expected (promoteProvider idx fc)" "gated env expected (SetCursorLedger l fc)"
  using assms by (simp_all add: gated_def SetCursorLedger_def)

lemma gated_delegate:
  assumes "gated env expected fc" and "expected \<noteq> []"
    and "\<And>idx r fc. gated env expected fc \<Longrightarrow> gated env expected (learn idx r fc)"
  shows "gated env expected (snd (delegate env c ask learn fc))"
proof -
  obtain r ex' fc1 where p: "pickProviderExcluding env {} fc = (r, ex', fc1)" by (cases "pickProviderExcluding env {} fc")
  show ?thesis
  proof (cases r)
    case (Inl e)
    thus ?thesis using gate.pick [OF p] assms(1) p by (simp add: delegate_def pickProvider_def)
  next
    case (Inr idx)
    have "gated env expected fc1" "reported env expected idx"
      using gated_pick [OF p [unfolded Inr] assms(1,2)] by auto
    thus ?thesis
      using p Inr assms(3)
      by (auto simp: delegate_def pickProvider_def waitLimiter_def gated_kept gated_asking split: option.splits sum.splits)
  qed
qed

lemma gated_network_op: "gated env expected fc \<Longrightarrow> gated env expected (snd (fo_GetNetwork env fc))"
proof -
  assume g: "gated env expected fc"
  obtain r ex' fc1 where p: "pickProviderExcluding env {} fc = (r, ex', fc1)" by (cases "pickProviderExcluding env {} fc")
  have "gated env expected fc1" using gate.pick [OF p] g by blast
  thus ?thesis
    using p by (auto simp: fo_GetNetwork_def pickProvider_def waitLimiter_def gated_kept gated_asking
        split: option.splits sum.splits)
qed

lemma gated_probe:
  assumes "gated env expected fc" and "expected \<noteq> []" and "idx < length (fc_providers fc)"
  shows "gated env expected (probe env idx fc)"
proof -
  obtain v fc1 where v: "verifyProviderNetwork env idx fc = (v, fc1)" by fastforce
  have g: "gated env expected fc1" by (rule gated_verify [OF v assms(1)])
  show ?thesis
  proof (cases v)
    case None
    have "cleared fc1 idx" using verify_cleared [of env idx fc fc1] v None assms(3) by simp
    hence "reported env expected idx"
      using g assms(2,3) verify_size [OF v] by (simp add: gated_def cleared_def network_flags_def)
    moreover have "gated env expected (on_prov idx (\<lambda>p. p\<lparr>p_okCount := p_okCount p + 1\<rparr>) fc)"
      if "gated env expected fc" for fc
      using that by (simp add: gated_def network_flags_on_prov)
    ultimately show ?thesis
      using g assms(1) v None
      by (auto simp: probe_def waitLimiter_def Let_def gated_kept gated_asking split: option.splits sum.splits)
  qed (use g assms(1) v in \<open>auto simp: probe_def\<close>)
qed

lemma probe_size: "length (fc_providers (probe env idx fc)) = length (fc_providers fc)"
  by (auto simp: probe_def waitLimiter_def Let_def split: option.splits prod.splits sum.splits dest!: verify_size)

lemma gated_probes:
  assumes "gated env expected fc" and "expected \<noteq> []" and "\<forall>i \<in> set is. i < length (fc_providers fc)"
  shows "gated env expected (foldl (\<lambda>fc idx. probe env idx fc) fc is)"
  using assms
proof (induction "is" arbitrary: fc)
  case (Cons i ks)
  thus ?case using gated_probe [of env expected fc i] by (simp add: probe_size)
qed simp

lemma gated_op:
  assumes "gated env expected fc" and "expected \<noteq> []"
  shows "gated env expected (fo_step env fc oper)"
proof (cases oper)
  case (OpGetEvents req)
  thus ?thesis using assms gated_loop by (metis fo_GetEvents_def fo_step.simps(1) prod.collapse)
qed (use assms in \<open>auto simp: fo_GetLatestLedger_def fo_GetHealth_def fo_GetLedgerEntries_def fo_SimulateTransaction_def
      probeDownProviders_def SetProviderLedgerRange_def gated_kept gated_network_op intro!: gated_delegate gated_probes\<close>)

lemma gated_run:
  assumes "gated env expected fc" and "expected \<noteq> []"
  shows "gated env expected (foldl (fo_step env) fc ops)"
  using assms(1)
proof (induction ops arbitrary: fc)
  case (Cons oper ops)
  show ?case using Cons.IH [OF gated_op [OF Cons.prems assms(2)]] by (simp only: foldl_Cons)
qed simp

text \<open>The provider behind an answer.\<close>

lemma answer_provider:
  assumes "fo_GetEvents env req fc = (Inr resp, fc')"
  obtains idx ex1 fc1 where "same_stream fc fc1" "cleared fc1 idx" "idx < length (fc_providers fc)"
    "try_provider env (reanchored req fc) (requiredLedgerForRequest (reanchored req fc) fc) ex1 idx fc1 = (Answer resp, fc')"
proof -
  obtain ex0 fc0 idx ex1 fc1 where s: "same_stream fc fc0"
      and p: "pickProviderExcluding env ex0 fc0 = (Inr idx, ex1, fc1)"
      and t: "try_provider env (reanchored req fc) (requiredLedgerForRequest (reanchored req fc) fc) ex1 idx fc1
        = (Answer resp, fc')"
    by (rule answering_round [OF assms [unfolded fo_GetEvents_def Let_def]])
  show thesis
    by (rule that [OF same_stream_trans [OF s stream.pick [OF p]] pick_cleared [OF p] _ t])
      (use pick_facts(3) [OF p] s in \<open>simp add: same_stream_def\<close>)
qed

lemma latest_active:
  assumes "fo_GetLatestLedger env fc = (Inr latest, fc1)" and "fc_lastActive fc1 \<noteq> fc_lastActive fc"
  shows "fc_lastActive fc1 \<noteq> -1"
proof -
  obtain r ex' fc0 where p: "pickProviderExcluding env {} fc = (r, ex', fc0)" by (cases "pickProviderExcluding env {} fc")
  have "fc_lastActive fc0 = fc_lastActive fc" using stream.pick [OF p] by (simp add: same_stream_def)
  moreover obtain i l c where "fc1 = recordSuccess i (updateProviderRange i 0 l (asking i c (fo_ticked fc0)))"
    using assms(1) p
    by (auto simp: fo_GetLatestLedger_def delegate_def pickProvider_def waitLimiter_def split: option.splits sum.splits)
  moreover have "fc_lastActive (recordSuccess i fc) = (if p_networkInvalid (prov fc i) then fc_lastActive fc else int i)"
    for fc
    by (simp add: recordSuccess_def promoteProvider_def Let_def)
  moreover have "fc_lastActive (updateProviderRange i 0 l (asking i c (fo_ticked fc0))) = fc_lastActive fc0"
    by (simp add: updateProviderRange_def asking_def fo_ticked_def Let_def)
  ultimately show ?thesis using assms(2) by (simp split: if_splits)
qed

section \<open>The re-anchor signal\<close>

text \<open>The signal only comes from a round that met a foreign cursor, and leaves the height of the stream as the
  ledger to start again from.\<close>

lemma verify_no_reanchor: "verifyProviderNetwork env idx fc = (Some e, fc') \<Longrightarrow> e \<noteq> FailoverReanchor"
  by (auto simp: verifyProviderNetwork_def waitLimiter_def Let_def split: if_splits option.splits sum.splits)

lemma pick_loop_errors:
  assumes "pick_loop env ex err fc = (r, ex', fc')"
  shows "r \<noteq> Inr (Inl FailoverReanchor) \<and> (err \<noteq> Some FailoverReanchor \<longrightarrow> r \<noteq> Inl (Some FailoverReanchor))"
  using assms by (induction rule: pick_loop_rounds) (auto dest: verify_no_reanchor)

lemma pick_no_reanchor:
  assumes "pickProviderExcluding env ex fc = (Inl e, ex', fc')"
  shows "e \<noteq> FailoverReanchor"
  using assms
  by (auto simp: pickProviderExcluding_def no_provider_def Let_def split: if_splits prod.splits sum.splits option.splits
      dest!: pick_loop_errors)

definition no_signal :: "skips \<Rightarrow> bool" where
  "no_signal errs \<longleftrightarrow> FailoverReanchor \<notin> \<Union> (set_option ` {lastBehindErr errs, lastRetentionGapErr errs, lastDivergenceErr errs})"

lemma report_no_signal: "no_signal errs \<Longrightarrow> e \<noteq> FailoverReanchor \<Longrightarrow> report errs e \<noteq> FailoverReanchor"
  by (auto simp: no_signal_def report_def split: option.splits)

lemma note_no_signal: "no_signal errs \<Longrightarrow> e \<noteq> FailoverReanchor \<Longrightarrow> no_signal (note_skip g e errs)"
  by (cases g) (auto simp: no_signal_def)

lemma checks_no_signal:
  "selection_check req l ex idx fc = Some (g, e) \<Longrightarrow> e \<noteq> FailoverReanchor"
  "response_check req l idx resp fc = Some (g, e) \<Longrightarrow> e \<noteq> FailoverReanchor"
  by (auto simp: selection_check_def response_check_def Let_def split: if_splits)

lemma skip_no_signal:
  assumes "try_provider env req l ex idx fc = (Skip g e, fc')"
  shows "e \<noteq> FailoverReanchor"
  using assms
  by (auto simp: try_provider_def waitLimiter_def after_response_def skipping_def Let_def
      split: option.splits if_splits prod.splits sum.splits dest: checks_no_signal)

lemma try_signal:
  assumes "try_provider env req l ex idx fc = (Fail FailoverReanchor, fc')"
  shows "rq_Cursor req \<noteq> [] \<and> fc_lastActive fc \<noteq> int idx
    \<and> fc' = (if fc_cursorLedger fc > 0 then fc\<lparr>fc_reanchorLedger := fc_cursorLedger fc\<rparr> else fc)"
  using assms
  by (auto simp: try_provider_def waitLimiter_def after_response_def skipping_def Let_def
      split: option.splits if_splits prod.splits sum.splits)

lemma loop_signal:
  assumes "get_events_loop env req l ex errs fc = (r, fc')"
  shows "r = Inl FailoverReanchor \<longrightarrow> no_signal errs \<longrightarrow> 0 < fc_cursorLedger fc \<longrightarrow> fc_reanchorLedger fc' = fc_cursorLedger fc"
  using assms
proof (induction rule: loop_rounds)
  case (none ex errs fc err ex' fc')
  thus ?case using pick_no_reanchor [OF none] report_no_signal by blast
next
  case (fail ex fc idx ex' fc1 e fc2 errs)
  have "same_stream fc fc1" by (rule stream.pick [OF fail(1)])
  thus ?case using try_signal [of env req l ex' idx fc1 fc2] fail(2) by (auto simp: same_stream_def)
next
  case (skip ex fc idx ex' fc1 g e fc2 r fc3 errs)
  have "same_stream fc fc2" by (rule same_stream_trans [OF stream.pick [OF skip(1)] same_try_skip [OF skip(2)]])
  thus ?case using skip(3) note_no_signal [OF _ skip_no_signal [OF skip(2)]] by (auto simp: same_stream_def)
qed simp

lemma signal_height:
  assumes "fo_GetEvents env req fc = (Inl FailoverReanchor, fc')" and "0 < fc_cursorLedger fc"
  shows "fc_reanchorLedger fc' = fc_cursorLedger fc"
  using loop_signal [OF assms(1) [unfolded fo_GetEvents_def Let_def]] assms(2) by (simp add: no_signal_def no_skips_def)

text \<open>Two providers: the first one lags behind the requested ledger, the second one serves an event.\<close>

definition sample_providers :: fo_env where
  "sample_providers =
     \<lparr>fe_getEvents = (\<lambda>i t req. Inr \<lparr>rs_Events = (if i = 0 then [] else [zero_rpc_event\<lparr>re_ID := ''a'', re_Ledger := 7\<rparr>]),
        rs_LatestLedger = (if i = 0 then 4 else 9), rs_OldestLedger = 1, rs_Cursor = []\<rparr>),
      fe_getLatestLedger = (\<lambda>i t. Inr (if i = 0 then 4 else 9)),
      fe_getHealth = (\<lambda>i t. Inr \<lparr>h_LatestLedger = (if i = 0 then 4 else 9), h_OldestLedger = 1\<rparr>),
      fe_getNetwork = (\<lambda>i. Some (\<lambda>t. Inr ''net'')), fe_limiter = (\<lambda>i t. None),
      fe_stopsJSON = (\<lambda>i t. False), fe_now = int, fe_rand = (\<lambda>t m. 0), fe_order = (\<lambda>t ls. ls)\<rparr>"

definition plain_request :: "u32 \<Rightarrow> string \<Rightarrow> xdr_request" where
  "plain_request start cursor = \<lparr>rq_StartLedger = start, rq_EndLedger = 0, rq_Filters = [], rq_Cursor = cursor,
     rq_Limit = 100, rq_XDRFormat = []\<rparr>"

definition sample_failover :: failover where
  "sample_failover = NewFailoverClient [''http://a'', ''http://b''] []"

section \<open>Properties\<close>




text \<open>A first provider of another network.\<close>

definition mixed_networks :: fo_env where
  "mixed_networks = sample_providers\<lparr>fe_getNetwork :=
     (\<lambda>i. Some (\<lambda>t. Inr (if i = 0 then ''other'' else ''net'')))\<rparr>"


text \<open>
  C22. Every call ends: whatever the providers answer, one request for events asks each of them at most
  three times (for its network, for the events, and once more without the JSON format), so it makes at
  most three calls per provider before it returns an answer or an error.
\<close>

theorem failover_calls_bounded:
  "\<exists>new. fc_calls (snd (fo_GetEvents env req fc)) = fc_calls fc @ new \<and> (\<forall>i. asked i new \<le> 3)"
  using loop_asks [of env "reanchored req fc" "requiredLedgerForRequest (reanchored req fc) fc" "{}" no_skips fc
      "fst (fo_GetEvents env req fc)" "snd (fo_GetEvents env req fc)"]
  by (auto simp: fo_GetEvents_def Let_def)

text \<open>
  C39. The re-anchor signal can be lost. \<open>fc_lastActive\<close> is meant to say which provider issued the cursor, but
  every successful call moves it. After a call for the latest ledger (the lag check makes one in every
  iteration) that another provider served, a request with the old provider's cursor is passed to the new
  provider as it is, instead of being answered with the signal to discard the cursor.
\<close>

theorem lag_check_hides_switch:
  assumes "fo_GetLatestLedger env fc = (Inr latest, fc1)" and "fc_lastActive fc1 \<noteq> fc_lastActive fc"
    and "rq_Cursor req \<noteq> []" and "fo_GetEvents env req fc1 = (Inr resp, fc2)"
  shows "\<exists>idx fmt. last (fc_calls fc2) = (idx, EventsCall (req\<lparr>rq_XDRFormat := fmt\<rparr>)) \<and> int idx \<noteq> fc_lastActive fc"
proof -
  have "fc_lastActive fc1 \<noteq> -1"
    using assms(1,2) by (rule latest_active)
  moreover obtain idx ex1 fc0 where s: "same_stream fc1 fc0" and c: "cleared fc0 idx"
      and t: "try_provider env (reanchored req fc1) (requiredLedgerForRequest (reanchored req fc1) fc1) ex1 idx fc0
        = (Answer resp, fc2)"
    by (rule answer_provider [OF assms(4)])
  moreover have "reanchored req fc1 = req" using assms(3) by (simp add: reanchored_def)
  ultimately have "fc_lastActive fc1 = int idx \<and> (\<exists>fmt. last (fc_calls fc2) = (idx, EventsCall (req\<lparr>rq_XDRFormat := fmt\<rparr>)))"
    using try_answer [OF t c] assms(3) by (auto simp: same_stream_def)
  thus ?thesis using assms(2) by auto
qed

text \<open>The first provider issued the cursor and then failed three times.\<close>

definition flaky_providers :: fo_env where
  "flaky_providers = sample_providers\<lparr>
     fe_getEvents := (\<lambda>i t req. if i = 0 \<and> 1 < t then Inl (plain_error ''connection refused'')
       else Inr \<lparr>rs_Events = [zero_rpc_event\<lparr>re_ID := ''a'', re_Ledger := 7\<rparr>], rs_LatestLedger = 9, rs_OldestLedger = 1,
                 rs_Cursor = ''c''\<rparr>),
     fe_getLatestLedger := (\<lambda>i t. Inr 9)\<rparr>"

definition switched :: failover where
  "switched = foldl (fo_step flaky_providers) sample_failover
     [OpGetEvents (plain_request 5 []), OpGetEvents (plain_request 0 ''c''), OpGetEvents (plain_request 0 ''c''),
      OpGetEvents (plain_request 0 ''c'')]"

theorem lag_check_hides_switch_witness:
  "fst (fo_GetEvents flaky_providers (plain_request 0 ''c'') switched) = Inl FailoverReanchor
   \<and> (\<exists>idx fmt. last (fc_calls (snd (fo_GetEvents flaky_providers (plain_request 0 ''c'')
          (snd (fo_GetLatestLedger flaky_providers switched)))))
        = (idx, EventsCall ((plain_request 0 ''c'')\<lparr>rq_XDRFormat := fmt\<rparr>)) \<and> int idx \<noteq> fc_lastActive switched)"
proof -
  let ?lag = "fo_GetLatestLedger flaky_providers switched"
  let ?evs = "fo_GetEvents flaky_providers (plain_request 0 ''c'') (snd ?lag)"
  have "fst ?lag = Inr 9" "fc_lastActive (snd ?lag) \<noteq> fc_lastActive switched" by code_simp+
  moreover have "fst ?evs = Inr \<lparr>rs_Events = [zero_rpc_event\<lparr>re_ID := ''a'', re_Ledger := 7\<rparr>], rs_LatestLedger = 9,
      rs_OldestLedger = 1, rs_Cursor = ''c''\<rparr>"
    by code_simp
  moreover have "fst (fo_GetEvents flaky_providers (plain_request 0 ''c'') switched) = Inl FailoverReanchor" by code_simp
  moreover have "rq_Cursor (plain_request 0 ''c'') \<noteq> []" by (simp add: plain_request_def)
  ultimately show ?thesis
    using lag_check_hides_switch [of flaky_providers switched 9 "snd ?lag" "plain_request 0 ''c''" _ "snd ?evs"]
    by (metis prod.collapse)
qed

end
