(* ===== verification/Ingester_Failover.thy ===== *)
theory Ingester_Failover
  imports Ingester_Complete Rpc_Failover_Spec Cursor
begin

text \<open>
  The ingester on top of the failover client: where ingestion continues after the client has signalled
  that the cursor belongs to another provider, and what the client reads from a cursor.
\<close>

definition fo_request :: "get_events_request \<Rightarrow> xdr_request" where
  "fo_request req = \<lparr>rq_StartLedger = rq_StartLedger req, rq_EndLedger = rq_EndLedger req, rq_Filters = rq_Filters req,
     rq_Cursor = rq_Cursor req, rq_Limit = rq_Limit req, rq_XDRFormat = []\<rparr>"

definition fo_rpc_error :: "fo_error \<Rightarrow> rpc_error" where
  "fo_rpc_error err =
     (case err of
        Provider e \<Rightarrow> as_rpc_error e
      | FailoverReanchor \<Rightarrow> ErrFailoverReanchor
      | RetentionGapError url requested oldest \<Rightarrow>
          RpcError (''startLedger '' @ FormatInt (uint requested) @ '' is outside of retention window (must be within [''
            @ FormatInt (uint oldest) @ '', ...])'') []
      | AllProvidersDown _ \<Rightarrow> RpcFailure ''rpc: all providers down, backing off''
      | ProviderBehindCursor _ _ _ \<Rightarrow> RpcFailure ''rpc: provider latest ledger is behind cursor''
      | NetworkPassphraseMismatch _ \<Rightarrow> RpcFailure ''rpc: provider network passphrase mismatch''
      | ProviderDivergenceError _ \<Rightarrow> RpcFailure ''rpc: provider returned divergent event data'')"

section \<open>After the signal\<close>

lemma discard_then_resolve:
  assumes "\<forall>t. e_fault env t = None" and "\<not> o_DryRun (e_opts env)" and "o_StartLedger (e_opts env) = 0"
    and "GetIngestionStateForNetwork (o_Network (e_opts env)) (w_db w) = Some s" and "is_LastCursor s \<noteq> []"
    and "0 < is_LastIngestedLedger s" and "discardCursor env w = (r, w1)"
  shows "fst (resolvePosition env w1) = Inr (of_int (is_LastIngestedLedger s) + 1, [])"
proof -
  let ?s = "\<lparr>is_Network = o_Network (e_opts env), is_LastIngestedLedger = is_LastIngestedLedger s, is_LastCursor = [],
    is_LastSuccessfulPoll = None\<rparr>"
  have "w_db w1 = SaveIngestionState ?s (w_db w)"
    using assms
    by (auto simp: discardCursor_def bindE_def attempt_def getIngestionState_def db_read_def db_write_def ret_def ticked_def)
  hence "GetIngestionStateForNetwork (o_Network (e_opts env)) (w_db w1) = Some (?s\<lparr>is_Network := defaultNetwork (o_Network (e_opts env))\<rparr>)"
    by (simp add: GetIngestionStateForNetwork_def SaveIngestionState_def ingestion.put_row_at split: option.splits)
  thus ?thesis
    using assms(1-3,6)
    by (simp add: resolvePosition_def bindE_def gets_def getIngestionState_def db_read_def setDryRunPosition_def ret_def Let_def)
qed

section \<open>Properties\<close>

text \<open>
  C21. Where ingestion continues after a provider switch. The client answers a cursor of another provider with
  the re-anchor signal, the ingester drops its cursor and asks for the ledger after its last ingested one
  \<open>L\<close>, and the client moves that request back to \<open>L\<close>, whose remaining events were still to come, exactly
  when the height it has seen itself is \<open>L\<close>. If it has seen more, for instance in a page the store then
  failed to take, the request stays at \<open>L + 1\<close> and the rest of ledger \<open>L\<close> is not asked for again.
\<close>

theorem reanchor_restart:
  assumes "\<forall>t. e_fault env t = None" and "\<not> o_DryRun (e_opts env)" and "o_StartLedger (e_opts env) = 0"
    and "GetIngestionStateForNetwork (o_Network (e_opts env)) (w_db w) = Some s" and "is_LastCursor s \<noteq> []"
    and "is_LastIngestedLedger s = uint L" and "0 < L"
    and "req = page_request 0 filters (is_LastCursor s) limit" and "limit = effectivePageLimit (e_opts env)"
    and "fo_GetEvents fenv (fo_request req) fc = (Inl FailoverReanchor, fc1)" and "0 < fc_cursorLedger fc"
    and "e_getEvents env (w_tick w) req = Inl (fo_rpc_error FailoverReanchor)"
  shows "fst (resolvePosition env (snd (singlePage env 0 (is_LastCursor s) filters w))) = Inr (L + 1, [])
    \<and> rq_StartLedger (reanchored (fo_request (page_request (L + 1) filters [] limit)) fc1)
        = (if fc_cursorLedger fc = L then L else L + 1)"
proof -
  obtain r w1 where d: "discardCursor env (ticked w) = (r, w1)" by fastforce
  have "snd (singlePage env 0 (is_LastCursor s) filters w) = w1"
    using d assms(8,9,12)
    by (cases r) (simp_all add: singlePage_def bindE_def GetEvents_def fo_rpc_error_def IsFailoverReanchor_def raise_def)
  moreover have "fst (resolvePosition env w1) = Inr (of_int (is_LastIngestedLedger s) + 1, [])"
    using assms(4-7) by (intro discard_then_resolve [OF assms(1-3) _ _ _ d]) (auto simp: ticked_def word_less_def)
  moreover have "fc_reanchorLedger fc1 = fc_cursorLedger fc" by (rule signal_height [OF assms(10,11)])
  ultimately show ?thesis
    using assms(6,11) by (auto simp: reanchored_def fo_request_def page_request_def)
qed

definition switching_env :: env where
  "switching_env = honest_env (sample_opts 2) [] 9\<lparr>e_getEvents := \<lambda>t req. Inl ErrFailoverReanchor\<rparr>"

definition mid_ledger_db :: db where
  "mid_ledger_db = SaveIngestionState
     \<lparr>is_Network = [], is_LastIngestedLedger = 7, is_LastCursor = ''c'', is_LastSuccessfulPoll = None\<rparr> empty_db"

theorem reanchor_restart_witness:
  "fst (resolvePosition switching_env (snd (singlePage switching_env 0 ''c'' [] (fresh_world mid_ledger_db)))) = Inr (8, [])
   \<and> rq_StartLedger (reanchored (fo_request (page_request 8 [] [] 2))
        (snd (fo_GetEvents flaky_providers (fo_request (page_request 0 [] ''c'' 2)) switched))) = 7"
proof -
  let ?s = "\<lparr>is_Network = ''default'', is_LastIngestedLedger = 7, is_LastCursor = ''c'', is_LastSuccessfulPoll = None\<rparr>"
  have env: "\<forall>t. e_fault switching_env t = None" "\<not> o_DryRun (e_opts switching_env)" "o_StartLedger (e_opts switching_env) = 0"
    by (simp_all add: switching_env_def honest_env_def sample_opts_def)
  have st: "GetIngestionStateForNetwork (o_Network (e_opts switching_env)) (w_db (fresh_world mid_ledger_db)) = Some ?s"
    by (simp add: switching_env_def honest_env_def sample_opts_def fresh_world_def mid_ledger_db_def SaveIngestionState_def
        empty_db_def GetIngestionStateForNetwork_def defaultNetwork_def)
  have lim: "2 = effectivePageLimit (e_opts switching_env)" by code_simp
  have fo: "fo_GetEvents flaky_providers (fo_request (page_request 0 [] ''c'' 2)) switched
      = (Inl FailoverReanchor, snd (fo_GetEvents flaky_providers (fo_request (page_request 0 [] ''c'' 2)) switched))"
    by (rule prod_eqI) (code_simp, simp)
  have "fc_cursorLedger switched = 7" by code_simp
  thus ?thesis
    using reanchor_restart [OF env st _ _ _ _ lim, of 7 _ "[]" flaky_providers switched] fo
    by (simp add: switching_env_def fo_rpc_error_def)
qed

text \<open>
  C40. The cursors of the network are opaque to the failover client. It takes the height of a request from the
  digits before the dash of its cursor, read as a 32-bit number, but in every canonical event cursor these
  digits are a 64-bit id with the ledger in its upper half; so it never gets a height from one, and a
  request by cursor is only held to the height of the stream it has seen itself.
\<close>

theorem cursor_height_unread:
  assumes "1 \<le> l" "l < 2 ^ 31" "0 \<le> i"
    and "req = fo_request (page_request 0 filters (FormatTOIDCursor l t p i) limit)"
  shows "parseLedgerFromCursor (FormatTOIDCursor l t p i) = 0 \<and> requiredLedgerForRequest req fc = fc_cursorLedger fc"
proof -
  let ?d = "zero_pad 20 (nat_digits (nat (toid l t p)))"
  have eq: "FormatTOIDCursor l t p i = ?d @ CHR ''-'' # zero_pad 10 (nat_digits (nat i))"
    using assms by (simp add: FormatTOIDCursor_eq)
  have "l * 2 ^ 32 \<le> toid l t p" using toid_bounds [of l t p] assms by auto
  hence "4294967296 \<le> toid l t p" using assms(1) by simp
  hence big: "2 ^ 32 \<le> nat (toid l t p)" by simp
  have digits: "list_all is_digit ?d" by simp
  hence "CHR ''-'' \<notin> set ?d" using is_digit_not by (auto simp: list_all_iff)
  hence "IndexByte (FormatTOIDCursor l t p i) (CHR ''-'') = Some (length ?d)" unfolding eq by (rule IndexByte_snoc)
  moreover have "take (length ?d) (FormatTOIDCursor l t p i) = ?d" unfolding eq by simp
  moreover have "ParseUint 32 ?d = None" using big by (simp add: ParseUint_def not_less)
  ultimately have "parseLedgerFromCursor (FormatTOIDCursor l t p i) = 0" by (simp add: parseLedgerFromCursor_def)
  thus ?thesis by (simp add: requiredLedgerForRequest_def fo_request_def page_request_def assms(4))
qed

theorem cursor_height_unread_witness:
  "parseLedgerFromCursor (FormatTOIDCursor 51000000 3 1 2) = 0
   \<and> requiredLedgerForRequest (fo_request (page_request 0 [] (FormatTOIDCursor 51000000 3 1 2) 100)) sample_failover = 0"
  using cursor_height_unread [of 51000000 2 _ "[]" 3 1 100 sample_failover]
  by (simp add: sample_failover_def NewFailoverClient_def)

end
