(* ===== verification/Ingester_Frame.thy ===== *)
theory Ingester_Frame
  imports Ingester_Safety
begin

text \<open>
  Invariants of the database through everything ingestion does: which computations leave an
  invariant alone, and what the writes of a page need from it.
\<close>

section \<open>An invariant of the database\<close>

definition stays :: "(db \<Rightarrow> bool) \<Rightarrow> world \<Rightarrow> world \<Rightarrow> bool" where
  "stays I w w' \<longleftrightarrow> (I (w_db w) \<longrightarrow> I (w_db w'))"

interpretation st: io_frame "stays I" for I
  by unfold_locales (auto simp: stays_def)

definition leaves :: "(db \<Rightarrow> bool) \<Rightarrow> 'a io \<Rightarrow> bool" where
  "leaves I m \<longleftrightarrow> triple (stays I) anywhere m anything"

lemma triple_fact: "(B \<Longrightarrow> triple F anywhere m Q) \<Longrightarrow> triple F (\<lambda>_. B) m Q"
  unfolding triple_def by blast

lemma leaves_bind [intro!]: "leaves I m \<Longrightarrow> (\<And>x. leaves I (f x)) \<Longrightarrow> leaves I (bindE m f)"
  unfolding leaves_def by (rule st.triple_bind)

lemma leaves_attempt [intro!]: "leaves I m \<Longrightarrow> leaves I (attempt m)"
  unfolding leaves_def by (rule st.triple_attempt)

lemma leaves_harmless: "harmless m \<Longrightarrow> leaves I m"
  unfolding harmless_def leaves_def by (erule triple_frame) (simp add: untouched_def stays_def)

lemma leaves_basic [simp]:
  "leaves I (ret x)" "leaves I (raise err)" "leaves I (gets g)" "leaves I (db_read env h)"
  "leaves I (getIngestionState env)" "leaves I add_skipped" "leaves I (add_fetched n)"
  by (rule leaves_harmless, simp)+

lemma leaves_update: "(\<And>w. w_db (f w) = w_db w) \<Longrightarrow> leaves I (update f)"
  unfolding leaves_def by (rule st.triple_update) (simp add: stays_def)

lemma leaves_write: "(\<And>d. I d \<Longrightarrow> I (snd (f d))) \<Longrightarrow> leaves I (db_write env f)"
  unfolding leaves_def by (rule st.triple_write) (simp_all add: stays_def)

text \<open>
  What persisting relies on: an invariant that survives every write of an event or a dead letter
  whose ID is not among \<open>X\<close>.
\<close>

locale persist_frame =
  fixes I :: "db \<Rightarrow> bool" and X :: "string set"
  assumes upsert: "I d \<Longrightarrow> ev_ID ` set es \<inter> X = {} \<Longrightarrow> I (snd (UpsertEvents es d))"
    and dead_letter: "I d \<Longrightarrow> in_EventID inp \<notin> X \<Longrightarrow> I (DeadLetterEvent inp d)"
    and addresses: "I d \<Longrightarrow> I (UpsertAddressRefs refs d)"
begin

lemma leaves_upsert: "ev_ID ` set es \<inter> X = {} \<Longrightarrow> leaves I (db_write env (UpsertEvents es))"
  by (rule leaves_write) (rule upsert)

lemma leaves_dead_letter: "in_EventID inp \<notin> X \<Longrightarrow> leaves I (recordDeadLetter env inp)"
  unfolding recordDeadLetter_def by (rule leaves_write) (simp add: dead_letter)

lemma leaves_isolate: "ev_ID ` set evs \<inter> X = {} \<Longrightarrow> leaves I (isolate env evs)"
  by (induction evs) (auto intro!: leaves_upsert leaves_dead_letter split: sum.splits)

lemma leaves_chunk: "ev_ID ` set chunk \<inter> X = {} \<Longrightarrow> leaves I (upsertChunkWithIsolation env chunk)"
  unfolding upsertChunkWithIsolation_def
  by (auto intro!: leaves_upsert leaves_isolate split: sum.splits)

lemma leaves_chunks: "ev_ID ` set events \<inter> X = {} \<Longrightarrow> leaves I (write_chunks env bc events)"
proof (induction env bc events rule: write_chunks.induct)
  case (1 env bc events)
  let ?n = "nat (bc_cur bc)"
  have sub: "ev_ID ` set (take ?n events) \<inter> X = {}" "ev_ID ` set (drop ?n events) \<inter> X = {}"
    using 1(2) by (auto dest: in_set_takeD in_set_dropD)
  have "leaves I (let (backoff, bc') = recordAndBackoff (int (length (take ?n events))) (e_latency env began) bc
         in if backoff > 0 \<and> drop ?n events \<noteq> [] \<and> \<not> e_sleeps env began then raise ErrCanceled
            else bindE (write_chunks env bc' (drop ?n events)) (\<lambda>more. ret (got + more)))"
    if "events \<noteq> []" "\<not> bc_cur bc \<le> 0" for began got
  proof -
    obtain backoff bc' where rb: "recordAndBackoff (int (length (take ?n events))) (e_latency env began) bc
        = (backoff, bc')" by fastforce
    have "leaves I (write_chunks env bc' (drop ?n events))"
      if "\<not> (backoff > 0 \<and> drop ?n events \<noteq> [] \<and> \<not> e_sleeps env began)"
      using "1.IH" [OF \<open>events \<noteq> []\<close> \<open>\<not> bc_cur bc \<le> 0\<close> refl refl refl rb [symmetric] refl that sub(2)] .
    thus ?thesis unfolding Let_def rb prod.case by auto
  qed
  thus ?case
    by (subst write_chunks.simps) (auto simp: Let_def intro!: leaves_chunk [OF sub(1)])
qed

lemma leaves_batch:
  assumes "ev_ID ` set events \<inter> X = {}"
  shows "leaves I (persistEventBatch env events)"
proof -
  have "leaves I (writeEventsPersist env events)"
    using assms by (auto simp: writeEventsPersist_def intro!: leaves_chunk leaves_chunks)
  moreover have "leaves I (indexEventAddresses env events)"
    by (auto simp: indexEventAddresses_def Let_def intro!: leaves_write addresses)
  ultimately show ?thesis
    by (auto simp: persistEventBatch_def intro!: leaves_update)
qed

lemma leaves_batches: "ev_ID ` set (concat bs) \<inter> X = {} \<Longrightarrow> leaves I (persist_batches env bs)"
  by (induction bs) (auto intro!: leaves_batch)

lemma decode_ids:
  "re_ID ` set res \<inter> X = {} \<Longrightarrow>
   triple (stays I) anywhere (decode_events env res) (\<lambda>evs _. ev_ID ` set evs \<inter> X = {})"
proof (induction res)
  case (Cons re res)
  have skip: "triple (stays I) anywhere (bindE m (\<lambda>_. decode_events env res)) (\<lambda>evs _. ev_ID ` set evs \<inter> X = {})"
    if "leaves I m" for m :: "unit io"
    using that Cons unfolding leaves_def by (intro st.triple_bind [where Q = anything]) auto
  have keep: "triple (stays I) anywhere (bindE (decode_events env res) (\<lambda>evs. ret (ev # evs)))
      (\<lambda>evs _. ev_ID ` set evs \<inter> X = {})" if "ev_ID ev = re_ID re" for ev
    using that Cons by (intro st.triple_bind [OF _ st.triple_ret]) auto
  have dead: "triple (stays I) anywhere
      (bindE (recordDeadLetter env (rpc_dead_letter re err)) (\<lambda>_. bindE add_skipped (\<lambda>_. decode_events env res)))
      (\<lambda>evs _. ev_ID ` set evs \<inter> X = {})" for err
  proof (rule st.triple_bind)
    show "triple (stays I) anywhere (recordDeadLetter env (rpc_dead_letter re err)) anything"
      using Cons.prems by (auto intro!: leaves_dead_letter simp flip: leaves_def)
  qed (simp add: skip)
  show ?case
    using Cons toStoreEvent_id [of "e_EventTopicsValue env" re]
    by (auto simp: st.triple_raise intro!: skip keep dead split: sum.splits)
qed (simp add: st.triple_ret)

lemma leaves_persist:
  assumes prints: "\<And>evs. leaves I (recordIngestedLedgerFingerprints env evs latest chk)"
    and "re_ID ` set res \<inter> X = {}"
  shows "leaves I (persistEventsWithReorgCheck env res latest chk)"
proof -
  let ?k = "o_WriteBatchSize (e_opts env)"
  have batches: "leaves I (persist_batches env (slices ?k (removeDuplicateEvents evs)))"
    if "ev_ID ` set evs \<inter> X = {}" for evs
  proof (rule leaves_batches)
    have "set (concat (slices ?k xs)) \<subseteq> set xs" for xs :: "event list"
      by (cases "?k = 0") (simp add: slices.simps, simp add: slices_concat)
    thus "ev_ID ` set (concat (slices ?k (removeDuplicateEvents evs))) \<inter> X = {}"
      using that removeDuplicateEvents_ids [of evs] by blast
  qed
  have "triple (stays I) (\<lambda>_. ev_ID ` set evs \<inter> X = {})
      (bindE (persist_batches env (slices ?k (removeDuplicateEvents evs)))
         (\<lambda>_. if o_DryRun (e_opts env) then ret ()
              else recordIngestedLedgerFingerprints env (removeDuplicateEvents evs) latest chk)) anything" for evs
    by (rule triple_fact) (use batches prints in \<open>auto simp flip: leaves_def\<close>)
  from st.triple_bind [OF decode_ids [OF assms(2)] this] show ?thesis
    by (simp add: leaves_def persistEventsWithReorgCheck_def Let_def st.triple_ret)
qed

end


lemma leaves_plain_fingerprints:
  "plain_page env chk \<Longrightarrow> leaves I (recordIngestedLedgerFingerprints env evs latest chk)"
  unfolding recordIngestedLedgerFingerprints_def plain_page_def
  by (auto intro!: leaves_update split: prod.splits)

lemma leaves_checkLag: "leaves I (checkLag env)"
proof -
  have calls: "leaves I (GetLatestLedger env)"
    by (simp add: leaves_def triple_def GetLatestLedger_def st.frame_tick split: sum.splits)
  have "leaves I (observe env l i)" "leaves I (lag_metric b)" "leaves I (publishLagging env b)" for l i b
    by (auto simp: observe_def lag_metric_def publishLagging_def intro!: leaves_update)
  thus ?thesis
    unfolding checkLag_def Let_def by (auto intro!: leaves_update calls split: sum.splits option.splits)
qed

lemma leaves_after:
  assumes "\<And>v. leaves I (maybe_rescan env v)"
  shows "leaves I (after_cycle env v r)"
proof -
  have "leaves I (sleep_ctx env d)" for d
    by (simp add: leaves_def triple_def sleep_ctx_def st.frame_tick)
  thus ?thesis
    unfolding after_cycle_def by (auto intro!: assms leaves_checkLag split: sum.splits prod.splits)
qed

lemma leaves_loop:
  assumes "leaves I (runOnce env)" and "\<And>v. leaves I (maybe_rescan env v)"
  shows "leaves I (run_loop env k v)"
  by (induction k arbitrary: v)
    (auto simp: run_iteration_def intro!: assms leaves_after split: option.split)

end
