(* ===== verification/Ingester_Watched.thy ===== *)
theory Ingester_Watched
  imports Ingester_Complete Ingester_Frame
begin

text \<open>
  Ingestion of a watched contract. The position of a watched contract is a ledger: a cycle resumes
  at the ledger after the last one it got an event of. When a full page ends inside a ledger, the
  events of the ledger that did not fit are not asked for again, by any number of cycles. The
  proofs follow an invariant of the database through everything a cycle writes.
\<close>

section \<open>A page that ends inside a ledger\<close>

text \<open>The events of a contract, and those of ledger \<open>L\<close> that do not fit a page.\<close>

definition own :: "string \<Rightarrow> rpc_event \<Rightarrow> bool" where
  "own C e \<longleftrightarrow> re_Type e = ''contract'' \<and> re_ContractID e = C"

definition overflow :: "string \<Rightarrow> u32 \<Rightarrow> nat \<Rightarrow> rpc_event list \<Rightarrow> rpc_event list" where
  "overflow C L limit chain = drop limit (filter (\<lambda>e. own C e \<and> re_Ledger e = L) chain)"

text \<open>
  A chain whose next event of the contract after ledger \<open>L0\<close> is in ledger \<open>L\<close>; no ledger is the
  last 32-bit number, after which the next start would wrap around.
\<close>

definition next_ledger :: "string \<Rightarrow> int \<Rightarrow> u32 \<Rightarrow> rpc_event list \<Rightarrow> bool" where
  "next_ledger C L0 L chain \<longleftrightarrow>
     sorted (map re_Ledger chain) \<and> distinct (map re_ID chain) \<and> 0 < L0 \<and> L0 < uint L
     \<and> (\<forall>e \<in> set chain. uint (re_Ledger e) < 2 ^ 32 - 1)
     \<and> (\<forall>e \<in> set chain. own C e \<longrightarrow> L0 < uint (re_Ledger e) \<longrightarrow> L \<le> re_Ledger e)"

text \<open>Positions of the contract before the page and from it on.\<close>

definition placed :: "int \<Rightarrow> u32 \<Rightarrow> int \<Rightarrow> bool" where
  "placed L0 L l \<longleftrightarrow> l = L0 \<or> uint L \<le> l \<and> l < 2 ^ 32 - 1"

lemma placed_start:
  assumes "next_ledger C L0 L chain" and "placed L0 L l"
  shows "0 < l" "uint (of_int l + 1 :: u32) = l + 1"
proof -
  have "0 < l \<and> l < 2 ^ 32 - 1"
    using assms uint_lt2p [of L] uint_ge_0 [of L] by (auto simp: placed_def next_ledger_def)
  thus "0 < l" "uint (of_int l + 1 :: u32) = l + 1" using uint_succ by simp_all
qed

lemma sorted_filter_split:
  fixes f :: "'a \<Rightarrow> 'b::linorder"
  shows "sorted (map f xs) \<Longrightarrow>
     filter (\<lambda>x. P x \<and> a \<le> f x) xs = filter (\<lambda>x. P x \<and> f x = a) xs @ filter (\<lambda>x. P x \<and> a < f x) xs"
proof (induction xs)
  case (Cons x xs)
  show ?case
  proof (cases "a < f x")
    case True
    have "filter (\<lambda>x. P x \<and> f x = a) xs = []"
      using Cons.prems True by (auto simp: filter_empty_conv)
    thus ?thesis using Cons True by auto
  qed (use Cons in auto)
qed simp

lemma distinct_ids:
  "distinct (map re_ID chain) \<Longrightarrow> e \<in> set chain \<Longrightarrow> x \<in> set chain \<Longrightarrow> re_ID e = re_ID x \<Longrightarrow> e = x"
  unfolding distinct_map by (blast dest: inj_onD)

lemma take_overflow:
  assumes "distinct xs" and "e \<in> set (take n (xs @ ys))"
  shows "e \<notin> set (drop n xs)"
proof
  assume e: "e \<in> set (drop n xs)"
  hence "n < length xs" by (cases "n < length xs") auto
  hence "e \<in> set (take n xs)" using assms(2) by simp
  thus False using assms(1) e set_take_disj_set_drop_if_distinct [of xs n n] by blast
qed

lemma serve_own:
  "rs_Events (serve chain' l (page_request st [contract_filter [C]] [] limit)) =
     take limit (filter (\<lambda>e. own C e \<and> st \<le> re_Ledger e) chain')"
proof -
  have "filter_matches [contract_filter [C]] e \<longleftrightarrow> own C e" for e
    by (auto simp: filter_matches_def contract_filter_def own_def)
  thus ?thesis by (simp add: serve_def page_request_def position_def conj_commute)
qed

text \<open>What a page brings from such a position: events from ledger \<open>L\<close> on, none that overflowed.\<close>

lemma page_misses:
  assumes chain: "next_ledger C L0 L chain" and "placed L0 L l"
    and e: "e \<in> set (rs_Events (serve (visible chain height) height
              (page_request (of_int l + 1) [contract_filter [C]] [] limit)))"
  shows "own C e" "L \<le> re_Ledger e" "uint (re_Ledger e) < 2 ^ 32 - 1"
    "re_ID e \<notin> re_ID ` set (overflow C L limit chain)"
proof -
  let ?start = "of_int l + 1 :: u32"
  let ?in = "\<lambda>e. own C e \<and> re_Ledger e \<le> height"
  note ch = chain [unfolded next_ledger_def]
  have page: "e \<in> set (take limit (filter (\<lambda>e. ?in e \<and> ?start \<le> re_Ledger e) chain))"
    using e by (simp add: serve_own visible_def conj_ac)
  hence mem: "e \<in> set chain" "own C e" "?start \<le> re_Ledger e" "re_Ledger e \<le> height" by (auto dest!: in_set_takeD)
  have "l < uint (re_Ledger e)"
    using mem(3) placed_start(2) [OF chain assms(2)] by (simp add: word_le_def)
  hence gt: "l = L0 \<or> L < re_Ledger e" using assms(2) by (auto simp: placed_def word_less_def)
  have "L \<le> re_Ledger e"
  proof (cases "l = L0")
    case True
    thus ?thesis using ch mem(1,2) \<open>l < uint (re_Ledger e)\<close> by blast
  qed (use gt in auto)
  show "own C e" "L \<le> re_Ledger e" "uint (re_Ledger e) < 2 ^ 32 - 1"
    using mem ch \<open>L \<le> re_Ledger e\<close> by auto
  show "re_ID e \<notin> re_ID ` set (overflow C L limit chain)"
  proof
    assume "re_ID e \<in> re_ID ` set (overflow C L limit chain)"
    then obtain x where "x \<in> set (overflow C L limit chain)" "re_ID e = re_ID x" by blast
    moreover from this have "x \<in> set chain" by (auto simp: overflow_def dest!: in_set_dropD)
    ultimately have over: "e \<in> set (overflow C L limit chain)"
      using distinct_ids ch mem(1) by metis
    hence "re_Ledger e = L" by (auto simp: overflow_def dest!: in_set_dropD)
    hence l: "l = L0" and height: "L \<le> height" using gt mem(4) by auto
    have "filter (\<lambda>e. ?in e \<and> ?start \<le> re_Ledger e) chain = filter (\<lambda>e. ?in e \<and> L \<le> re_Ledger e) chain"
    proof (rule filter_cong [OF refl], rule conj_cong [OF refl])
      fix x assume x: "x \<in> set chain" "?in x"
      have "?start \<le> re_Ledger x \<longleftrightarrow> L0 < uint (re_Ledger x)"
        using placed_start(2) [OF chain assms(2)] l by (simp add: word_le_def) linarith
      also have "\<dots> \<longleftrightarrow> L \<le> re_Ledger x" using ch x by (auto simp: word_le_def)
      finally show "?start \<le> re_Ledger x \<longleftrightarrow> L \<le> re_Ledger x" .
    qed
    also have "\<dots> = filter (\<lambda>e. ?in e \<and> re_Ledger e = L) chain @ filter (\<lambda>e. ?in e \<and> L < re_Ledger e) chain"
      using ch by (intro sorted_filter_split) simp
    also have "filter (\<lambda>e. ?in e \<and> re_Ledger e = L) chain = filter (\<lambda>e. own C e \<and> re_Ledger e = L) chain"
      using height by (intro filter_cong) auto
    finally have "e \<in> set (take limit (filter (\<lambda>e. own C e \<and> re_Ledger e = L) chain
        @ filter (\<lambda>e. ?in e \<and> L < re_Ledger e) chain))" using page by simp
    moreover have "distinct (filter (\<lambda>e. own C e \<and> re_Ledger e = L) chain)"
      using ch by (simp add: distinct_map)
    ultimately have "e \<notin> set (overflow C L limit chain)"
      unfolding overflow_def by (intro take_overflow)
    thus False using over by blast
  qed
qed

section \<open>The cycles\<close>

text \<open>
  The invariant: the contract is the only one watched, its position is one of those above, and no
  event that overflowed is in.
\<close>

definition adrift :: "watched_contract \<Rightarrow> (int \<Rightarrow> bool) \<Rightarrow> string set \<Rightarrow> db \<Rightarrow> bool" where
  "adrift wc P X d \<longleftrightarrow>
     ListWatchedContracts d = [wc] \<and> ids_in d \<inter> X = {}
     \<and> (\<exists>c. GetContractCursor (wc_ContractID wc) d = Some c \<and> P (cc_LastIngestedLedger c))"

lemma list_watched_cong:
  "t_watched d' = t_watched d \<Longrightarrow> t_tenant_watched d' = t_tenant_watched d \<Longrightarrow>
   ListWatchedContracts d' = ListWatchedContracts d"
  by (simp add: ListWatchedContracts_def)

lemma cursors_untouched [simp]:
  "t_cursors (snd (UpsertEvents es d)) = t_cursors d" "t_cursors (DeadLetterEvent inp d) = t_cursors d"
  "t_cursors (UpsertAddressRefs refs d) = t_cursors d"
  by (simp_all add: UpsertEvents_def upsertEvents_def Let_def DeadLetterEvent_def UpsertAddressRefs_def)

interpretation ad: persist_frame "adrift wc P X" X for wc P X
proof unfold_locales
  fix d and es :: "event list" assume "adrift wc P X d" "ev_ID ` set es \<inter> X = {}"
  thus "adrift wc P X (snd (UpsertEvents es d))"
    using list_watched_cong [of "snd (UpsertEvents es d)" d]
    by (auto simp: adrift_def GetContractCursor_def upsert_ids)
next
  fix d and inp :: dead_letter_input assume "adrift wc P X d" "in_EventID inp \<notin> X"
  thus "adrift wc P X (DeadLetterEvent inp d)"
    using list_watched_cong [of "DeadLetterEvent inp d" d]
    by (auto simp: adrift_def GetContractCursor_def dead_letter_ids)
next
  fix d refs assume "adrift wc P X d"
  thus "adrift wc P X (UpsertAddressRefs refs d)"
    using list_watched_cong [of "UpsertAddressRefs refs d" d]
    by (auto simp: adrift_def GetContractCursor_def)
qed

lemma save_cursor_adrift:
  assumes "cc_ContractID c = wc_ContractID wc" and "P (cc_LastIngestedLedger c)" and "adrift wc P X d"
  shows "adrift wc P X (SaveContractCursor c d)"
proof -
  have "ListWatchedContracts (SaveContractCursor c d) = ListWatchedContracts d"
    by (rule list_watched_cong) (simp_all add: SaveContractCursor_def)
  thus ?thesis
    using assms
    by (simp add: adrift_def GetContractCursor_def)
      (simp add: SaveContractCursor_def cursors.put_row_at split: option.splits)
qed

lemma leaves_cursors:
  "list_all (\<lambda>c. cc_ContractID c = wc_ContractID wc \<and> P (cc_LastIngestedLedger c)) cs \<Longrightarrow>
   leaves (adrift wc P X) (save_cursors env cs)"
  by (induction cs) (auto intro!: leaves_write save_cursor_adrift)

lemma latest_fold:
  "fold latest_step es m i = m i
   \<or> (\<exists>e \<in> set es. re_ContractID e = i \<and> fst (fold latest_step es m i) = re_Ledger e)"
proof (induction es arbitrary: m)
  case (Cons e es)
  have "latest_step e m i = m i \<or> re_ContractID e = i \<and> fst (latest_step e m i) = re_Ledger e"
    by (auto simp: latest_step_def Let_def split: prod.splits)
  thus ?case using Cons [of "latest_step e m"] by (auto simp: fold_simps)
qed simp

lemma latest_cursors_events:
  assumes "c \<in> set (latest_cursors es)"
  obtains e where "e \<in> set es" "cc_ContractID c = re_ContractID e"
    "cc_LastIngestedLedger c = uint (re_Ledger e)"
proof -
  let ?m = "fold latest_step es (\<lambda>_. (0, []))"
  obtain i where i: "?m i \<noteq> (0, [])" "cc_ContractID c = i" "cc_LastIngestedLedger c = uint (fst (?m i))"
    using assms by (auto simp: latest_cursors_def Let_def)
  thus ?thesis using latest_fold [of es "\<lambda>_. (0, [])" i] that by auto
qed

lemma leaves_advance:
  assumes "\<And>e. e \<in> set es \<Longrightarrow> re_ContractID e = wc_ContractID wc \<and> P (uint (re_Ledger e))"
  shows "leaves (adrift wc P X) (advanceContractCursors env es)"
proof -
  have "list_all (\<lambda>c. cc_ContractID c = wc_ContractID wc \<and> P (cc_LastIngestedLedger c)) (latest_cursors es)"
    unfolding list_all_iff using assms by (metis latest_cursors_events)
  thus ?thesis by (simp add: advanceContractCursors_def leaves_cursors)
qed

text \<open>Everything the cycles rely on.\<close>

definition watch_setting ::
  "env \<Rightarrow> rpc_event list \<Rightarrow> (nat \<Rightarrow> u32) \<Rightarrow> watched_contract \<Rightarrow> int \<Rightarrow> u32 \<Rightarrow> bool" where
  "watch_setting env chain latest wc L0 L \<longleftrightarrow>
     provider env chain latest \<and> next_ledger (wc_ContractID wc) L0 L chain
     \<and> defaultNetwork (wc_Network wc) = defaultNetwork (o_Network (e_opts env)) \<and> (\<forall>chk. plain_page env chk)"

abbreviation lost_ids :: "env \<Rightarrow> rpc_event list \<Rightarrow> watched_contract \<Rightarrow> u32 \<Rightarrow> string set" where
  "lost_ids env chain wc L \<equiv>
     re_ID ` set (overflow (wc_ContractID wc) L (effectivePageLimit (e_opts env)) chain)"

abbreviation drifting ::
  "env \<Rightarrow> rpc_event list \<Rightarrow> watched_contract \<Rightarrow> int \<Rightarrow> u32 \<Rightarrow> db \<Rightarrow> bool" where
  "drifting env chain wc L0 L \<equiv> adrift wc (placed L0 L) (lost_ids env chain wc L)"

lemma slices_one: "0 < n \<Longrightarrow> slices n [x] = [[x]]"
  by (subst slices.simps) simp

lemma batches_watched:
  assumes "defaultNetwork (wc_Network wc) = defaultNetwork (o_Network (e_opts env))"
  shows "triple (stays I) (\<lambda>w. ListWatchedContracts (w_db w) = [wc] \<and> R (w_db w)) (BuildFilterBatches env)
     (\<lambda>bs w. bs = [[contract_filter [wc_ContractID wc]]] \<and> R (w_db w))"
  unfolding BuildFilterBatches_def
  by (rule st.triple_bind [OF st.triple_read [where Q = "\<lambda>ws w. ws = [wc] \<and> R (w_db w)"]])
    (auto simp: buildFilterBatches_def own_watched_def assms Let_def slices_one intro!: st.triple_ret)

lemma start_watched:
  assumes "\<And>l. P l \<Longrightarrow> 0 < l"
  shows "triple (stays (adrift wc P X)) (\<lambda>w. adrift wc P X (w_db w))
     (resolveBatchStart env (contractIDsFromFilters [contract_filter [wc_ContractID wc]]))
     (\<lambda>s w. \<exists>l. P l \<and> s = of_int l + 1)"
proof -
  let ?F = "stays (adrift wc P X)"
  have "triple ?F (\<lambda>w. adrift wc P X (w_db w)) (resolveContractPosition env (wc_ContractID wc))
      (\<lambda>s w. \<exists>l. P l \<and> s = of_int l + 1)"
    unfolding resolveContractPosition_def
  proof (rule st.triple_bind [OF st.triple_read])
    fix w :: world assume "adrift wc P X (w_db w)"
    thus "\<exists>c. GetContractCursor (wc_ContractID wc) (w_db w) = Some c \<and> P (cc_LastIngestedLedger c)"
      by (auto simp: adrift_def)
  next
    fix cc
    show "triple ?F (\<lambda>w. \<exists>c. cc = Some c \<and> P (cc_LastIngestedLedger c))
        (case cc of None \<Rightarrow> coldStartPosition env
         | Some c \<Rightarrow> if 0 < cc_LastIngestedLedger c then ret (of_int (cc_LastIngestedLedger c) + 1)
             else coldStartPosition env) (\<lambda>s w. \<exists>l. P l \<and> s = of_int l + 1)"
      by (intro triple_ex, cases "\<exists>c. cc = Some c \<and> P (cc_LastIngestedLedger c)")
        (use assms in \<open>auto simp: triple_def ret_def st.frame_refl\<close>)
  qed
  thus ?thesis
    by (auto simp: resolveBatchStart_def contractIDsFromFilters_def contract_filter_def
        intro!: st.triple_bind st.triple_ret)
qed

lemma page_watched:
  assumes set: "watch_setting env chain latest wc L0 L"
  shows "triple (stays (drifting env chain wc L0 L)) (\<lambda>w. drifting env chain wc L0 L (w_db w))
     (singlePageWatched env [contract_filter [wc_ContractID wc]]) anything"
proof -
  let ?I = "drifting env chain wc L0 L" and ?limit = "effectivePageLimit (e_opts env)"
  let ?C = "wc_ContractID wc"
  note S = set [unfolded watch_setting_def]
  have chain: "next_ledger ?C L0 L chain" and plain: "\<And>chk. plain_page env chk" using S by auto
  have page: "leaves ?I (bindE (add_fetched n) (\<lambda>_. bindE (persistEventsWithReorgCheck env evs ll chk)
      (\<lambda>_. bindE (advanceContractCursors env evs) (\<lambda>_. ret b))))"
    if evs: "evs = rs_Events (serve (visible chain height) height (page_request (of_int l + 1) [contract_filter [?C]] [] ?limit))"
      and "placed L0 L l" for n evs ll chk b height l
  proof -
    note M = page_misses [OF chain \<open>placed L0 L l\<close>, of _ height ?limit, folded evs]
    have "re_ID ` set evs \<inter> lost_ids env chain wc L = {}" using M(4) by blast
    moreover have "re_ContractID e = ?C \<and> placed L0 L (uint (re_Ledger e))" if "e \<in> set evs" for e
      using M(1-3) [OF that] by (simp add: own_def placed_def word_le_def)
    ultimately show ?thesis
      by (intro leaves_bind ad.leaves_persist [OF leaves_plain_fingerprints [OF plain]] leaves_advance) simp_all
  qed
  have fetch: "triple (stays ?I) (\<lambda>w. \<exists>l. placed L0 L l \<and> s = of_int l + 1)
      (GetEvents env (page_request s [contract_filter [?C]] [] ?limit))
      (\<lambda>r w. \<exists>l height. placed L0 L l
         \<and> (r = Inr (serve (visible chain height) height (page_request (of_int l + 1) [contract_filter [?C]] [] ?limit))
            \<or> (\<exists>err. r = Inl err \<and> \<not> IsLedgerOutOfRange err \<and> \<not> IsFailoverReanchor err)))" for s
    by (rule st.triple_GetEvents) (use S in \<open>unfold provider_def, metis\<close>)
  have "window": "o_ReorgConfirmationWindow (e_opts env) = 0" using plain by (simp add: plain_page_def)
  have rest: "triple (stays ?I) (\<lambda>w. \<exists>l height. placed L0 L l
         \<and> (r = Inr (serve (visible chain height) height (page_request (of_int l + 1) [contract_filter [?C]] [] ?limit))
            \<or> (\<exists>err. r = Inl err \<and> \<not> IsLedgerOutOfRange err \<and> \<not> IsFailoverReanchor err)))
     (case r of
         Inl err \<Rightarrow>
           if IsFailoverReanchor err then bindE (discardCursor env) (\<lambda>_. raise (ErrRPC err))
           else if IsLedgerOutOfRange err
           then bindE (reclampToOldest env (contractIDsFromFilters [contract_filter [?C]])) (\<lambda>_. ret False)
           else raise (ErrRPC err)
       | Inr resp \<Rightarrow>
           bindE (maybeHandleTipRegression env (rs_LatestLedger resp)) (\<lambda>regressed.
             if regressed then ret True
             else
               bindE (add_fetched (length (rs_Events resp))) (\<lambda>_.
               let caughtUp = (length (rs_Events resp) < ?limit)
               in bindE (persistEventsWithReorgCheck env (rs_Events resp) (rs_LatestLedger resp) caughtUp) (\<lambda>_.
                  bindE (advanceContractCursors env (rs_Events resp)) (\<lambda>_. ret caughtUp)))))
     anything" for r
  proof (rule triple_fact, elim exE conjE disjE, goal_cases)
    case (1 l height)
    have "bindE (maybeHandleTipRegression env ll) (\<lambda>regressed. if regressed then ret True else m) = m" for ll m
      using "window" by (simp add: no_regression bindE_def ret_def fun_eq_iff)
    thus ?case
      using page [OF refl 1(1)] unfolding 1(2) leaves_def Let_def sum.case by simp
  qed (simp add: st.triple_raise)
  show ?thesis
    unfolding singlePageWatched_def Let_def
    by (rule st.triple_bind [OF start_watched [OF placed_start(1) [OF chain]]
          st.triple_bind [OF fetch rest [unfolded Let_def]]])
qed

lemma cycle_watched:
  assumes set: "watch_setting env chain latest wc L0 L"
  shows "leaves (drifting env chain wc L0 L) (runOnce env)"
proof -
  let ?I = "drifting env chain wc L0 L"
  let ?R = "\<lambda>d. ListWatchedContracts d = [wc] \<and> ?I d"
  note S = set [unfolded watch_setting_def]
  have cycle: "triple (stays ?I) (\<lambda>w. ?R (w_db w)) (runOnceWatched env) anything"
    unfolding runOnceWatched_def
  proof (rule st.triple_bind [OF batches_watched])
    fix bs
    show "triple (stays ?I) (\<lambda>w. bs = [[contract_filter [wc_ContractID wc]]] \<and> ?I (w_db w))
        (case bs of [] \<Rightarrow> windowSweepWatched env bs | [b] \<Rightarrow> singlePageWatched env b
         | b # _ # _ \<Rightarrow> windowSweepWatched env bs) anything"
      by (rule triple_pure) (use page_watched [OF set] in simp)
  qed (use S in simp)
  have "triple (stays ?I) (\<lambda>w. ?I (w_db w)) (runOnce env) anything"
    unfolding runOnce_def
  proof (rule st.triple_bind [OF st.triple_update [where Q = "\<lambda>_ w. ?I (w_db w)"]],
      simp add: stays_def, rule st.triple_bind [OF st.triple_read [where Q = "\<lambda>ws w. ws = [wc] \<and> ?R (w_db w)"]])
    show "triple (stays ?I) (\<lambda>w. ws = [wc] \<and> ?R (w_db w))
        (if ws = [] then runOnceUnwatched env else runOnceWatched env) anything" for ws
      by (rule triple_pure) (simp add: cycle)
  qed (simp add: adrift_def)
  thus ?thesis unfolding leaves_def triple_def stays_def by blast
qed

lemma loop_watched:
  assumes set: "watch_setting env chain latest wc L0 L"
  shows "leaves (drifting env chain wc L0 L) (run_loop env k v)"
proof -
  have "o_ReorgConfirmationWindow (e_opts env) = 0"
    using set unfolding watch_setting_def plain_page_def by blast
  hence "leaves I (maybe_rescan env v)" for I v by (auto simp: maybe_rescan_def)
  thus ?thesis using cycle_watched [OF set] by (intro leaves_loop)
qed

section \<open>Property\<close>


definition watch_chain :: "rpc_event list" where
  "watch_chain = [sample_event ''a'' 5, sample_event ''b'' 5, sample_event ''c'' 5, sample_event ''d'' 7]"

definition watch_db :: db where
  "watch_db = SaveContractCursor \<lparr>cc_ContractID = ''C1'', cc_LastIngestedLedger = 3, cc_LastCursor = []\<rparr>
     (AddWatchedContract \<lparr>wc_ContractID = ''C1'', wc_Network = []\<rparr> empty_db)"


end
