(* ===== verification/Ingester_Network.thy ===== *)
theory Ingester_Network
  imports Ingester_Frame
begin

text \<open>
  Which network the rows of ingestion belong to. The live path stores an event without a network,
  which the store takes as \<^verbatim>\<open>default\<close>; rescans and reorg reconciliation replace the rows of the
  configured network. With a network configured, as \<^verbatim>\<open>cmd/sorotrail\<close> always does, the loop never
  changes or removes a row that the live path wrote, whatever the chain does.
\<close>

section \<open>Rows of the default network\<close>

text \<open>The rows \<open>B\<close> are there.\<close>

definition holds_rows :: "event set \<Rightarrow> db \<Rightarrow> bool" where
  "holds_rows B d \<longleftrightarrow> B \<subseteq> set (t_events d)"

lemma holds_rows_cong: "t_events d' = t_events d \<Longrightarrow> holds_rows B d' = holds_rows B d"
  by (simp add: holds_rows_def)

interpretation hr: persist_frame "holds_rows B" "{}" for B
proof unfold_locales
  fix d and es :: "event list" assume "holds_rows B d"
  moreover have "set (t_events d) \<subseteq> set (fst (insertEventsBatch False es (t_events d)))"
    using insert_ignore_keeps [of es "t_events d"] by (metis Un_upper1 set_append)
  ultimately show "holds_rows B (snd (UpsertEvents es d))"
    by (auto simp: holds_rows_def UpsertEvents_def upsertEvents_events)
qed (simp_all add: holds_rows_def DeadLetterEvent_def UpsertAddressRefs_def)

text \<open>Rows of another network survive a replacement.\<close>

lemma insert_other_network:
  assumes "x \<in> set rows" and "\<And>e. e \<in> set es \<Longrightarrow> defaultNetwork (ev_Network e) \<noteq> ev_Network x"
  shows "x \<in> set (fst (insertEventsBatch True es rows))"
proof -
  have "x \<in> set (fold (put event_key coalesce_xdr) rs rows)"
    if "list_all (\<lambda>r. event_key x \<noteq> event_key r) rs" for rs
    using assms(1) that by (induction rs arbitrary: rows) (simp_all add: ev_update.put_keeps)
  moreover have "list_all (\<lambda>r. event_key x \<noteq> event_key r) (map event_row es)"
    using assms(2) by (fastforce simp: list_all_iff event_key_def)
  ultimately show ?thesis by (simp add: insertEventsBatch_rows)
qed

lemma replace_other_network:
  assumes "\<forall>e \<in> set es. ev_Network e = n" and "n \<noteq> []" and "\<forall>x \<in> B. ev_Network x \<noteq> n" and "holds_rows B d"
  shows "holds_rows B (ReplaceEventsInRange es a b d)"
proof (cases "es = []")
  case False
  hence n: "ev_Network (hd es) = n" using assms(1) by simp
  have "x \<in> set (fst (insertEventsBatch True (restoreRawXDR es kept)
      (filter (\<lambda>e. \<not> in_range n a b e) (t_events d))))" if "x \<in> B" for x kept
    by (rule insert_other_network)
      (use that assms in \<open>auto simp: holds_rows_def in_range_def restoreRawXDR_def\<close>)
  thus ?thesis using False n by (auto simp: holds_rows_def ReplaceEventsInRange_def Let_def)
qed (use assms in \<open>simp add: ReplaceEventsInRange_def\<close>)

lemma reconcile_other_network:
  assumes "\<forall>e \<in> set (ro_CanonicalEvents opts). ev_Network e = ro_Network opts" and "ro_Network opts \<noteq> []"
    and "\<forall>x \<in> B. ev_Network x \<noteq> ro_Network opts" and "holds_rows B d"
  shows "holds_rows B (snd (ReconcileReorgRange pg_ReconcileReorgTx opts d))"
proof -
  let ?canonical = "normalise_canonical opts {} (ro_CanonicalEvents opts)"
  have net: "ev_Network e = ro_Network opts" if "e \<in> set ?canonical" for e
    using normalise_network [OF that] assms(1) by blast
  have "holds_rows B (snd (pg_ReconcileReorgTx opts ?canonical m refs ids d))" for m refs ids
    unfolding holds_rows_def pg_ReconcileReorgTx_def reconcile_tx_events Let_def
  proof
    fix x assume x: "x \<in> B"
    let ?own = "pg_own (defaultNetwork (ro_Network opts))"
    let ?rows = "filter (\<lambda>e. \<not> own_range ?own opts e) (t_events d)"
    have neq: "ro_Network opts \<noteq> ev_Network x" using assms(3) x by auto
    hence rows: "x \<in> set ?rows" using assms(2,4) x by (auto simp: holds_rows_def own_range_def pg_own_def)
    have "x \<in> set (fst (insertEventsBatch True (map (merge_xdr (tx_snapshot ?own opts d)) ?canonical) ?rows))"
      using rows by (rule insert_other_network) (use neq net assms(2) in auto)
    thus "x \<in> set (if ?canonical = [] then ?rows
        else fst (insertEventsBatch True (map (merge_xdr (tx_snapshot ?own opts d)) ?canonical) ?rows))"
      using rows by simp
  qed
  thus ?thesis
    using assms(4) by (auto simp: ReconcileReorgRange_def Let_def split: prod.splits) (metis snd_conv)
qed

section \<open>Reading the chain\<close>

lemma convert_network:
  "convert_events env res = Inr evs \<Longrightarrow> \<forall>e \<in> set evs. ev_Network e = o_Network (e_opts env)"
  by (induction res arbitrary: evs) (auto split: if_splits sum.splits)

lemma harmless_collect_pages [simp]: "harmless (collect_pages env a b batch fuel cursor collected)"
  by (induction fuel arbitrary: cursor collected) (auto simp: Let_def split: sum.splits)

lemma harmless_collect_batch [simp]: "harmless (collectBatchEventsInRange env a b batch allow)"
  by (auto simp: collectBatchEventsInRange_def split: sum.splits)

lemma harmless_collect [simp]: "harmless (collect_batches env a b allow bs)"
  by (induction bs) (auto split: prod.splits)

lemma collect_batch_network:
  "collectBatchEventsInRange env a b batch allow w = (Inr (evs, out), w') \<Longrightarrow>
   \<forall>e \<in> set evs. ev_Network e = o_Network (e_opts env)"
  by (auto simp: collectBatchEventsInRange_def bindE_def ret_def raise_def dest!: convert_network
      split: prod.splits sum.splits if_splits)

lemma collect_network:
  "collect_batches env a b allow bs w = (Inr (evs, out), w') \<Longrightarrow>
   \<forall>e \<in> set evs. ev_Network e = o_Network (e_opts env)"
proof (induction bs arbitrary: w evs out w')
  case (Cons b' bs)
  thus ?case
    by (fastforce simp: bindE_def ret_def dest: collect_batch_network split: prod.splits sum.splits if_splits)
qed (simp add: ret_def)

lemma leaves_collect:
  assumes "\<And>evs out. \<forall>e \<in> set evs. ev_Network e = o_Network (e_opts env) \<Longrightarrow> leaves I (f (evs, out))"
  shows "leaves I (bindE (collect_batches env a b allow bs) f)"
  unfolding leaves_def
proof (rule st.triple_bind)
  show "triple (stays I) anywhere (collect_batches env a b allow bs)
          (\<lambda>r _. \<forall>e \<in> set (fst r). ev_Network e = o_Network (e_opts env))"
    using harmless_collect [of env a b allow bs] collect_network [of env a b allow bs]
    unfolding harmless_def triple_def untouched_def stays_def by (metis eq_fst_iff prod.collapse)
  show "triple (stays I) (\<lambda>_. \<forall>e \<in> set (fst r). ev_Network e = o_Network (e_opts env)) (f r) anything" for r
    by (rule triple_fact, cases r) (use assms in \<open>simp flip: leaves_def\<close>)
qed

section \<open>The loop\<close>

text \<open>A configured network that the rows \<open>B\<close> are not of.\<close>

definition elsewhere :: "env \<Rightarrow> event set \<Rightarrow> bool" where
  "elsewhere env B \<longleftrightarrow>
     o_Network (e_opts env) \<noteq> [] \<and> (\<forall>x \<in> B. ev_Network x \<noteq> o_Network (e_opts env))"

lemma leaves_positions [simp]:
  "leaves (holds_rows B) (save_cursors env cs)"
  "leaves (holds_rows B) (db_write env (\<lambda>d. ((), SaveIngestionState s d)))"
  by (induction cs) (auto simp: holds_rows_def SaveContractCursor_def SaveIngestionState_def intro!: leaves_write)

lemma leaves_reads [simp]:
  "leaves I (GetEvents env req)" "leaves I (GetHealth env)" "leaves I (archive_boundary env)"
  "leaves I (BuildFilterBatches env)" "leaves I (resolvePosition env)" "leaves I (setDryRunPosition env c l)"
  by (rule leaves_harmless, simp)+

lemma leaves_index: "leaves (holds_rows B) (indexEventAddresses env evs)"
  by (auto simp: indexEventAddresses_def Let_def intro!: leaves_write hr.addresses)

lemma leaves_reorg_pass:
  assumes "elsewhere env B"
  shows "leaves (holds_rows B) (executeReorgPass env a b h)"
proof -
  have store: "leaves (holds_rows B) (db_write env (ReconcileReorgRange pg_ReconcileReorgTx (reconcile_opts env a b h evs)))"
    if "\<forall>e \<in> set evs. ev_Network e = o_Network (e_opts env)" for evs
    by (rule leaves_write, rule reconcile_other_network)
      (use that assms in \<open>simp_all add: elsewhere_def reconcile_opts_def\<close>)
  have "leaves I (update (after_reconcile env a b h evs res))" for I evs res
    by (rule leaves_update) (simp add: after_reconcile_def Let_def)
  note updated = this
  show ?thesis
    unfolding executeReorgPass_def
    by (rule leaves_bind [OF leaves_reads(4) leaves_collect])
      (use updated in \<open>auto simp: Let_def intro!: store split: sum.splits\<close>,
       (blast dest: subsetD [OF removeDuplicateEvents_subset])+)
qed

lemma leaves_reorg:
  assumes "elsewhere env B"
  shows "leaves (holds_rows B) (HandleReorgRange env a b h)"
    and "leaves (holds_rows B) (maybeHandleTipRegression env l)"
    and "leaves (holds_rows B) (recordIngestedLedgerFingerprints env evs l chk)"
proof -
  show handle: "leaves (holds_rows B) (HandleReorgRange env a b h)" for a b h
    unfolding HandleReorgRange_def
    by (auto intro!: leaves_reorg_pass [OF assms] split: sum.splits)
  show "leaves (holds_rows B) (maybeHandleTipRegression env l)"
    unfolding maybeHandleTipRegression_def Let_def by (auto intro!: handle split: prod.splits)
  show "leaves (holds_rows B) (recordIngestedLedgerFingerprints env evs l chk)"
    unfolding recordIngestedLedgerFingerprints_def Let_def
    by (auto intro!: handle leaves_update split: prod.splits)
qed

lemma leaves_rescan:
  assumes "elsewhere env B"
  shows "leaves (holds_rows B) (rescanForReorg env)"
proof -
  have store: "leaves (holds_rows B) (db_write env (\<lambda>d. ((), ReplaceEventsInRange (removeDuplicateEvents evs) x y d)))"
    if "\<forall>e \<in> set evs. ev_Network e = o_Network (e_opts env)" for evs x y
    by (rule leaves_write, simp, rule replace_other_network [where n = "o_Network (e_opts env)"])
      (use that assms removeDuplicateEvents_subset [of evs] in \<open>auto simp: elsewhere_def\<close>)
  have "leaves (holds_rows B) (ReingestRange env a b)" for a b
    unfolding ReingestRange_def
    by (auto simp: Let_def intro!: leaves_collect store leaves_index split: sum.splits)
  thus ?thesis
    unfolding rescanForReorg_def Let_def by (auto split: option.splits)
qed

text \<open>Everything a cycle does, in every mode.\<close>

lemma leaves_contract_position: "leaves I (resolveContractPosition env i)"
  by (auto simp: resolveContractPosition_def coldStartPosition_def split: option.splits)

lemma leaves_earliest: "leaves I (resolve_earliest env e ids)"
  by (induction ids arbitrary: e) (auto intro!: leaves_contract_position)

lemma leaves_discard: "leaves (holds_rows B) (discardCursor env)"
  unfolding discardCursor_def by (auto split: option.splits sum.splits)

lemma leaves_reclamp: "leaves (holds_rows B) (reclampToOldest env ids)"
  unfolding reclampToOldest_def Let_def by auto

lemma leaves_page: "elsewhere env B \<Longrightarrow> leaves (holds_rows B) (persistEventsWithReorgCheck env res l chk)"
  by (rule hr.leaves_persist) (simp_all add: leaves_reorg)

lemma leaves_single: "elsewhere env B \<Longrightarrow> leaves (holds_rows B) (singlePage env start cursor fs)"
  unfolding singlePage_def save_page_def Let_def
  by (auto intro!: leaves_page leaves_discard leaves_reclamp leaves_reorg
      split: sum.splits prod.splits)

lemma leaves_single_watched: "elsewhere env B \<Longrightarrow> leaves (holds_rows B) (singlePageWatched env fs)"
  unfolding singlePageWatched_def Let_def resolveBatchStart_def advanceContractCursors_def
  by (auto intro!: leaves_page leaves_discard leaves_reclamp leaves_earliest leaves_reorg
      split: sum.splits)

lemma leaves_sweep_batch: "elsewhere env B \<Longrightarrow> leaves (holds_rows B) (sweepBatch env start end fs fuel cursor remaining)"
  by (induction fuel arbitrary: cursor remaining)
    (auto simp: Let_def persistEvents_def intro!: leaves_page leaves_discard split: sum.splits)

lemma leaves_sweep_batches: "elsewhere env B \<Longrightarrow> leaves (holds_rows B) (sweep_batches env start end bs remaining)"
  by (induction bs arbitrary: remaining) (auto intro!: leaves_sweep_batch split: prod.splits)

lemma leaves_sweep: "elsewhere env B \<Longrightarrow> leaves (holds_rows B) (windowSweep env start bs)"
  unfolding windowSweep_def Let_def
  by (auto intro!: leaves_sweep_batches leaves_reclamp leaves_reorg split: sum.splits)

lemma leaves_sweep_watched: "elsewhere env B \<Longrightarrow> leaves (holds_rows B) (windowSweepWatched env bs)"
  unfolding windowSweepWatched_def Let_def earliestStartLedger_def coldStartPosition_def
  by (auto intro!: leaves_sweep_batches leaves_reclamp leaves_earliest leaves_reorg
      split: sum.splits)

lemma leaves_cycle: "elsewhere env B \<Longrightarrow> leaves (holds_rows B) (runOnce env)"
  unfolding runOnce_def runOnceUnwatched_def runOnceWatched_def
  by (auto intro!: leaves_update leaves_single leaves_single_watched leaves_sweep leaves_sweep_watched
      split: list.splits prod.splits)

lemma leaves_run: "elsewhere env B \<Longrightarrow> leaves (holds_rows B) (run_loop env k v)"
  by (rule leaves_loop [OF leaves_cycle]) (auto simp: maybe_rescan_def intro!: leaves_rescan)


section \<open>Property\<close>

text \<open>
  C12. Reorg handling does not reach what live ingestion wrote. The row of a live event has the network
  \<^verbatim>\<open>default\<close>; with another network configured, any number of iterations of the loop, in any mode, with
  any confirmation window and whatever reorgs the provider shows, leaves every such row as it is.
\<close>

theorem live_rows_never_retracted:
  assumes "o_Network (e_opts env) \<noteq> []" and "o_Network (e_opts env) \<noteq> ''default''"
    and "run_loop env k v w = (r, w')"
  shows "(\<forall>re ev. toStoreEvent (e_EventTopicsValue env) re = Inr ev \<longrightarrow> ev_Network (event_row ev) = ''default'')
         \<and> {e \<in> set (t_events (w_db w)). ev_Network e = ''default''} \<subseteq> set (t_events (w_db w'))"
proof -
  let ?B = "{e \<in> set (t_events (w_db w)). ev_Network e = ''default''}"
  have "elsewhere env ?B" using assms(1,2) by (auto simp: elsewhere_def)
  from tripleD [OF leaves_run [OF this, unfolded leaves_def] _ assms(3)]
  have "holds_rows ?B (w_db w')" by (simp add: stays_def holds_rows_def)
  thus ?thesis
    by (auto simp: holds_rows_def toStoreEvent_def Let_def split: sum.splits prod.splits)
qed

definition live_row :: event where
  "live_row = zero_event\<lparr>ev_ID := ''a'', ev_Ledger := 5, ev_ContractID := ''C1'', ev_Network := ''default''\<rparr>"

definition forked_db :: db where
  "forked_db = SaveIngestionState
     \<lparr>is_Network = ''testnet'', is_LastIngestedLedger = 8, is_LastCursor = [], is_LastSuccessfulPoll = None\<rparr>
     (empty_db\<lparr>t_events := [live_row]\<rparr>)"

definition testnet_opts :: options where
  "testnet_opts = sample_opts 2\<lparr>o_Network := ''testnet'', o_ReorgConfirmationWindow := 3\<rparr>"

theorem live_rows_never_retracted_witness:
  "live_row \<in> set (t_events (w_db (snd (run_loop (honest_env testnet_opts [sample_event ''b'' 6] 9) 4
     (initial_vars testnet_opts) (fresh_world forked_db)))))"
proof -
  let ?env = "honest_env testnet_opts [sample_event ''b'' 6] 9"
  have net: "o_Network (e_opts ?env) \<noteq> []" "o_Network (e_opts ?env) \<noteq> ''default''"
    by (simp_all add: honest_env_def testnet_opts_def)
  have "live_row \<in> {e \<in> set (t_events (w_db (fresh_world forked_db))). ev_Network e = ''default''}"
    by (simp add: fresh_world_def forked_db_def SaveIngestionState_def live_row_def)
  thus ?thesis
    using live_rows_never_retracted [OF net prod.collapse [symmetric], of "fresh_world forked_db" 4
        "initial_vars testnet_opts"] by blast
qed

end
