(* ===== verification/Spec2Isabelle.thy ===== *)
theory Spec2Isabelle
  imports Rpc_Breaker Rpc_Retry Store_Breaker Cursor Address_Spec Store_Spec Ingester_Failover Ingester_Watched
    Ingester_Network
begin

text \<open>
  SoroTrail indexes the events of Soroban contracts: an ingester polls a Stellar RPC, decodes the
  events and writes them with the addresses they mention to a store; an HTTP API serves them page by
  page to tenants; background workers prune, archive, audit and backfill, and give way while the
  ingester lags. This development models the parts in which an error loses, duplicates or leaks
  events, with the error paths of every operation, and proves what they guarantee.

  \<^bold>\<open>Parts and theories.\<close> Paths are under \<^verbatim>\<open>src/internal\<close>.

  \<^item> \<^verbatim>\<open>Go_Prelude\<close>, \<^verbatim>\<open>Go_Strconv\<close>, \<^verbatim>\<open>Go_Time\<close>, \<^verbatim>\<open>Go_Encoding\<close>, \<^verbatim>\<open>Go_Json\<close>, \<^verbatim>\<open>Go_Json_Scan\<close>,
    \<^verbatim>\<open>Go_Sha256\<close>: the parts of Go's standard library the sources call, on byte strings; lemma
    collections and type names shared by all.
  \<^item> \<^verbatim>\<open>Rpc_Types\<close>, \<^verbatim>\<open>Rpc_Errors\<close>: requests, answers and the classification of errors
    (\<^verbatim>\<open>rpc/types.go\<close>, \<^verbatim>\<open>rpc/client.go\<close>, \<^verbatim>\<open>rpc/transient.go\<close>).
  \<^item> \<^verbatim>\<open>Breaker_Spec\<close>: the contract of a circuit breaker as the locale \<^verbatim>\<open>circuit_gate\<close>, interpreted on
    both breakers: \<^verbatim>\<open>Rpc_Breaker\<close> (\<^verbatim>\<open>rpc/circuit_breaker.go\<close> and its client) and
    \<^verbatim>\<open>Store_Breaker\<close> (\<^verbatim>\<open>store/breaker.go\<close>).
  \<^item> \<^verbatim>\<open>Rpc_Retry\<close>: the retrying client (\<^verbatim>\<open>rpc/retry.go\<close>) and the spacing of requests.
  \<^item> \<^verbatim>\<open>Rpc_Failover\<close>, \<^verbatim>\<open>Rpc_Failover_Spec\<close>: the failover client (\<^verbatim>\<open>rpc/failover.go\<close>): choice of a
    provider, network check, divergence detection, demotion, probing, every method.
  \<^item> \<^verbatim>\<open>Store_Types\<close>, \<^verbatim>\<open>Scope\<close>, \<^verbatim>\<open>Cursor\<close>: rows and filters (\<^verbatim>\<open>store/store.go\<close>), the tenant boundary
    (\<^verbatim>\<open>store/scope.go\<close>) and all pagination cursors with their authentication (\<^verbatim>\<open>store/cursor.go\<close>).
  \<^item> \<^verbatim>\<open>Event_Store\<close>, \<^verbatim>\<open>Store_Spec\<close>: the tables of ingestion with one function per SQL statement of
    \<^verbatim>\<open>store/postgres.go\<close>, over the locale \<^verbatim>\<open>keyed_table\<close>, and the specification they refine.
  \<^item> \<^verbatim>\<open>Store_Reorg\<close>: the transaction that reconciles a ledger range (\<^verbatim>\<open>store/reorg.go\<close>).
  \<^item> \<^verbatim>\<open>Address\<close>, \<^verbatim>\<open>Address_Spec\<close>: the address scanner (\<^verbatim>\<open>decode/address.go\<close>) and the JSON trees it is
    compared with.
  \<^item> \<^verbatim>\<open>Lag_Coordinator\<close>: backpressure on background jobs (\<^verbatim>\<open>ingester/backpressure.go\<close>).
  \<^item> \<^verbatim>\<open>Reorg_Tracker\<close>, \<^verbatim>\<open>Reorg_Coord\<close>: the confirmation window and the coalescing of concurrent
    reorgs, a step relation (\<^verbatim>\<open>ingester/reorg.go\<close>).
  \<^item> \<^verbatim>\<open>Ingester_Core\<close>, \<^verbatim>\<open>Ingester\<close>, \<^verbatim>\<open>Ingester_Run\<close>: the ingester (\<^verbatim>\<open>ingester/ingester.go\<close>): its pure
    parts, a cycle in every mode with reorg handling, and the loop of \<^verbatim>\<open>Run\<close>.
  \<^item> \<^verbatim>\<open>Ingester_Spec\<close>, \<^verbatim>\<open>Ingester_Calm\<close>, \<^verbatim>\<open>Ingester_Safety\<close>, \<^verbatim>\<open>Ingester_Complete\<close>,
    \<^verbatim>\<open>Ingester_Frame\<close>, \<^verbatim>\<open>Ingester_Watched\<close>, \<^verbatim>\<open>Ingester_Network\<close>, \<^verbatim>\<open>Ingester_Failover\<close>: what ingestion
    guarantees, and where it does not keep what its comments say.

  \<^bold>\<open>How the model corresponds to the code.\<close> A struct is a record with prefixed field names, an enum a
  datatype, \<^verbatim>\<open>uint32\<close> a 32-bit word, a Go string a list of bytes, an error a value of a sum type or
  the chain of sentinels \<^verbatim>\<open>errors.Is\<close> sees. A table is the list of its rows, and \<^verbatim>\<open>put\<close> is an insert
  with its conflict clause. Code that talks to the RPC, the store or the clock is a function on a
  \<^verbatim>\<open>world\<close> (database, tracker, lag state, published batches, notices) that returns a value or an
  error; the environment \<^verbatim>\<open>env\<close> holds, for every call by its number, the answer of the RPC, the fault of
  the store (also one reported after the write was applied), the latency and whether a sleep was
  cut short. A theorem for all environments is one for all such behaviours. A parameter stands for
  \<^verbatim>\<open>decode.EventTopicsValue\<close>, which calls the Stellar SDK. Locked methods are single steps, and
  interleavings are sequences of steps.

  \<^bold>\<open>What is shown.\<close>

  \<^item> Ingestion of everything (C1-C3): whatever fails, the saved position never passes an event that is
    neither stored nor dead-lettered; without failures the loop gets every event, with a bound on the
    iterations. The proofs are triples relative to a frame, the locale \<^verbatim>\<open>io_frame\<close>.
  \<^item> Reorgs: the reconciliation leaves exactly the canonical events of a range and moves every
    position back (C4, C5); under any interleaving of concurrent reorgs every caller is served by a
    pass that covers its range and every caller is answered (C9, C10); the tracker remembers exactly
    the window (C23, C24) and fingerprints do not depend on the order of events (C37).
  \<^item> The store: any sequence of writes refines the specification over maps and keeps the tables well
    formed (C6, C38).
  \<^item> Failover: an answer comes from an accepted provider that is not behind, has the ledgers asked for
    and contradicts nobody (C7); only providers of the right network are asked (C8); a call ends
    after a bounded number of requests (C22). Retries, breakers and their cooldowns: C16-C19, C31, C32.
  \<^item> Previews write nothing (C13), filters cover the watch list within the RPC's caps (C20).
  \<^item> Cursors round trip, are authenticated, order as their positions and are refused on another backend
    or ordering (C14, C25-C27, C33, C34); scopes grant what they list (C35).
  \<^item> Addresses are those of the JSON tree, once each (C15, C36). Backpressure defers a job boundedly
    while it lasts (C28, C29).
  \<^item> Where the code falls short of its comments: the events of a watched contract that do not fit a
    page are lost (C11), reorg handling does not reach live rows (C12), a provider switch may skip the
    rest of a ledger (C21) or go unnoticed (C39), the height of a cursor is never read (C40), and
    flapping lag starves a job (C30).

  \<^bold>\<open>Bounds and fuel.\<close> Paging loops that end only when the provider lets them (\<^verbatim>\<open>collect_pages\<close>,
  \<^verbatim>\<open>sweepBatch\<close>) take the fuel \<^verbatim>\<open>e_fuel\<close> of the environment and raise \<^verbatim>\<open>Diverged\<close> without it; every page
  of an honest provider has a later cursor, so one more than the length of its chain is enough. \<^verbatim>\<open>run_loop\<close> takes
  the number of iterations, since \<^verbatim>\<open>Run\<close> ends only with its context, and the theorems hold for each
  number. The other loops are structural or come with a termination proof. Integers are kept at
  their width where the code relies on it: ledgers are 32-bit words and wrap around; durations and
  counters are unbounded.

  \<^bold>\<open>Not modelled.\<close> Logging, metrics and tracing have no effect on the state and are left out everywhere. The
  batches of a window sweep run in order, not concurrently. Reading HTTP messages
  (\<^verbatim>\<open>HTTPClient.call\<close>) and XDR is the work of external libraries. The HTTP and GraphQL handlers, the
  SQLite and ClickHouse statements outside reorg reconciliation, migrations, backups, connection pools and encryption are
  wiring around libraries and SQL texts whose meaning lies in the database; the workers for pruning,
  archiving, auditing, backfill, replay and webhooks, contract specs, metadata and the commands are
  outside the path of an event into the store.
\<close>

end
